(* ===== verification/Net_Prelude.thy ===== *)
theory Net_Prelude
  imports Main "HOL-Library.Word"
begin

text \<open>
  Shared ground of the development: the names of the machine integers, the faults a C
  statement can raise, the state-and-fault computations in which every function of the
  stack is written, a weakest-precondition calculus for them, little-endian loads and
  stores on byte lists, and the byte-order macros of \<^verbatim>\<open>include/lib.h\<close>.
\<close>

unbundle bit_operations_syntax

named_theorems comp_simps \<open>unfolding equations of the computation combinators\<close>
named_theorems wp_simps \<open>weakest preconditions of the computation combinators\<close>
named_theorems byte_simps \<open>lengths and elements of byte lists after loads and stores\<close>

section \<open>Machine integers\<close>

text \<open>The integer types of \<^verbatim>\<open>include/types.h\<close>.\<close>

type_synonym u8 = "8 word"
type_synonym u16 = "16 word"
type_synonym u32 = "32 word"

section \<open>Faults and computations\<close>

text \<open>
  A fault is undefined behaviour reached by a statement. A computation either faults or
  returns a value together with the new state. An error code such as \<open>-1\<close> is an ordinary
  value, not a fault.
\<close>

datatype fault =
    Null_deref        \<comment> \<open>a NULL pointer is dereferenced or called\<close>
  | Bad_pointer       \<comment> \<open>a freed, wild or wrongly typed pointer is dereferenced\<close>
  | Out_of_bounds     \<comment> \<open>an access outside the block or the array it points into\<close>
  | Uninitialised     \<comment> \<open>an automatic variable is read before it is written\<close>
  | Bad_shift         \<comment> \<open>a shift by the width of the operand\<close>
  | Diverges          \<comment> \<open>a loop that never ends\<close>

type_synonym ('s, 'a) comp = "'s \<Rightarrow> fault + ('a \<times> 's)"

definition returnM :: "'a \<Rightarrow> ('s, 'a) comp" where
  "returnM x = (\<lambda>s. Inr (x, s))"

definition failM :: "fault \<Rightarrow> ('s, 'a) comp" where
  "failM e = (\<lambda>s. Inl e)"

definition bindM :: "('s, 'a) comp \<Rightarrow> ('a \<Rightarrow> ('s, 'b) comp) \<Rightarrow> ('s, 'b) comp" where
  "bindM m f = (\<lambda>s. case m s of Inl e \<Rightarrow> Inl e | Inr (x, s') \<Rightarrow> f x s')"

definition getsM :: "('s \<Rightarrow> 'a) \<Rightarrow> ('s, 'a) comp" where
  "getsM f = (\<lambda>s. Inr (f s, s))"

definition modifyM :: "('s \<Rightarrow> 's) \<Rightarrow> ('s, unit) comp" where
  "modifyM f = (\<lambda>s. Inr ((), f s))"

text \<open>Dereferencing a possibly NULL pointer, and checking an index against its array.\<close>

definition nonnull :: "'a option \<Rightarrow> ('s, 'a) comp" where
  "nonnull p = (case p of None \<Rightarrow> failM Null_deref | Some x \<Rightarrow> returnM x)"

definition checkM :: "bool \<Rightarrow> fault \<Rightarrow> ('s, unit) comp" where
  "checkM b e = (if b then returnM () else failM e)"

text \<open>A loop given as a partial function: not returning is the fault \<open>Diverges\<close>.\<close>

definition loopM :: "('s \<Rightarrow> (fault + ('a \<times> 's)) option) \<Rightarrow> ('s, 'a) comp" where
  "loopM f = (\<lambda>s. case f s of None \<Rightarrow> Inl Diverges | Some r \<Rightarrow> r)"

lemma returnM_apply [comp_simps]: "returnM x s = Inr (x, s)"
  by (simp add: returnM_def)

lemma failM_apply [comp_simps]: "failM e s = Inl e"
  by (simp add: failM_def)

lemma getsM_apply [comp_simps]: "getsM f s = Inr (f s, s)"
  by (simp add: getsM_def)

lemma modifyM_apply [comp_simps]: "modifyM f s = Inr ((), f s)"
  by (simp add: modifyM_def)

lemma nonnull_Some [comp_simps]: "nonnull (Some x) s = Inr (x, s)"
  by (simp add: nonnull_def returnM_def)

lemma nonnull_None [comp_simps]: "nonnull None s = Inl Null_deref"
  by (simp add: nonnull_def failM_def)

lemma checkM_apply [comp_simps]: "checkM b e s = (if b then Inr ((), s) else Inl e)"
  by (simp add: checkM_def returnM_def failM_def)

lemma bindM_apply [comp_simps]:
  "bindM m f s = (case m s of Inl e \<Rightarrow> Inl e | Inr (x, s') \<Rightarrow> f x s')"
  by (simp add: bindM_def)

lemma bindM_Inr: "m s = Inr (x, s') \<Longrightarrow> bindM m f s = f x s'"
  by (simp add: bindM_def)

lemma bindM_Inl: "m s = Inl e \<Longrightarrow> bindM m f s = Inl e"
  by (simp add: bindM_def)

lemma bindM_eq_Inr_iff:
  "bindM m f s = Inr (y, t) \<longleftrightarrow> (\<exists>x s'. m s = Inr (x, s') \<and> f x s' = Inr (y, t))"
  by (auto simp: bindM_def split: sum.splits prod.splits)

lemma bindM_assoc: "bindM (bindM m f) g = bindM m (\<lambda>x. bindM (f x) g)"
  by (rule ext) (simp add: bindM_def split: sum.split prod.split)

lemma bindM_returnM [simp]: "bindM (returnM x) f = f x"
  by (rule ext) (simp add: comp_simps)

section \<open>Weakest preconditions\<close>

text \<open>
  \<open>wp m Q s\<close>: from \<open>s\<close> the computation \<open>m\<close> returns (it neither faults nor diverges)
  and its result satisfies \<open>Q\<close>.
\<close>

definition wp :: "('s, 'a) comp \<Rightarrow> ('a \<Rightarrow> 's \<Rightarrow> bool) \<Rightarrow> 's \<Rightarrow> bool" where
  "wp m Q s = (case m s of Inl e \<Rightarrow> False | Inr (x, s') \<Rightarrow> Q x s')"

lemma wp_iff: "wp m Q s \<longleftrightarrow> (\<exists>x s'. m s = Inr (x, s') \<and> Q x s')"
  by (auto simp: wp_def split: sum.splits)

lemma wpI: "m s = Inr (x, s') \<Longrightarrow> Q x s' \<Longrightarrow> wp m Q s"
  by (simp add: wp_def)

lemma wp_mono: "wp m Q s \<Longrightarrow> (\<And>x t. Q x t \<Longrightarrow> R x t) \<Longrightarrow> wp m R s"
  by (auto simp: wp_iff)

lemma wp_conj: "wp m Q s \<Longrightarrow> wp m R s \<Longrightarrow> wp m (\<lambda>x t. Q x t \<and> R x t) s"
  by (auto simp: wp_iff)

lemma wp_returnM [wp_simps]: "wp (returnM x) Q s = Q x s"
  by (simp add: wp_def comp_simps)

lemma wp_returnM_fun [wp_simps]: "wp (returnM x) Q = Q x"
  by (rule ext) (simp add: wp_returnM)

lemma wp_failM [wp_simps]: "wp (failM e) Q s = False"
  by (simp add: wp_def comp_simps)

lemma wp_getsM [wp_simps]: "wp (getsM f) Q s = Q (f s) s"
  by (simp add: wp_def comp_simps)

lemma wp_modifyM [wp_simps]: "wp (modifyM f) Q s = Q () (f s)"
  by (simp add: wp_def comp_simps)

lemma wp_nonnull [wp_simps]: "wp (nonnull p) Q s \<longleftrightarrow> (\<exists>x. p = Some x \<and> Q x s)"
  by (cases p) (simp_all add: wp_def comp_simps)

lemma wp_checkM [wp_simps]: "wp (checkM b e) Q s \<longleftrightarrow> b \<and> Q () s"
  by (simp add: wp_def comp_simps)

lemma wp_bindM [wp_simps]: "wp (bindM m f) Q s = wp m (\<lambda>x. wp (f x) Q) s"
  by (auto simp: wp_def bindM_def split: sum.split prod.split)

lemma wp_if [wp_simps]: "wp (if b then m else n) Q s = (if b then wp m Q s else wp n Q s)"
  by simp

lemma wp_case_option [wp_simps]:
  "wp (case p of None \<Rightarrow> m | Some x \<Rightarrow> f x) Q s =
     (case p of None \<Rightarrow> wp m Q s | Some x \<Rightarrow> wp (f x) Q s)"
  by (cases p) simp_all

lemma wp_bindM_I: "wp m R s \<Longrightarrow> (\<And>x t. R x t \<Longrightarrow> wp (f x) Q t) \<Longrightarrow> wp (bindM m f) Q s"
  by (auto simp: wp_bindM elim: wp_mono)

section \<open>Bytes\<close>

text \<open>The stack runs on a little-endian host: the low byte of a 16 or 32 bit value comes first.\<close>

definition le16 :: "u8 \<Rightarrow> u8 \<Rightarrow> u16" where
  "le16 a b = ucast a OR push_bit 8 (ucast b)"

definition le32 :: "u8 \<Rightarrow> u8 \<Rightarrow> u8 \<Rightarrow> u8 \<Rightarrow> u32" where
  "le32 a b c d = ucast a OR push_bit 8 (ucast b) OR push_bit 16 (ucast c) OR push_bit 24 (ucast d)"

definition bytes16 :: "u16 \<Rightarrow> u8 list" where
  "bytes16 v = [ucast v, ucast (drop_bit 8 v)]"

definition bytes32 :: "u32 \<Rightarrow> u8 list" where
  "bytes32 v = [ucast v, ucast (drop_bit 8 v), ucast (drop_bit 16 v), ucast (drop_bit 24 v)]"

definition ld16 :: "u8 list \<Rightarrow> nat \<Rightarrow> u16" where
  "ld16 bs n = le16 (bs ! n) (bs ! (n + 1))"

definition ld32 :: "u8 list \<Rightarrow> nat \<Rightarrow> u32" where
  "ld32 bs n = le32 (bs ! n) (bs ! (n + 1)) (bs ! (n + 2)) (bs ! (n + 3))"

definition get_bytes :: "u8 list \<Rightarrow> nat \<Rightarrow> nat \<Rightarrow> u8 list" where
  "get_bytes bs n k = take k (drop n bs)"

definition put_bytes :: "u8 list \<Rightarrow> nat \<Rightarrow> u8 list \<Rightarrow> u8 list" where
  "put_bytes bs n xs = take n bs @ xs @ drop (n + length xs) bs"

lemma length_bytes16 [simp]: "length (bytes16 v) = 2"
  by (simp add: bytes16_def)

lemma length_bytes32 [simp]: "length (bytes32 v) = 4"
  by (simp add: bytes32_def)

lemma length_put_bytes [simp]:
  "n + length xs \<le> length bs \<Longrightarrow> length (put_bytes bs n xs) = length bs"
  by (simp add: put_bytes_def)

lemma length_get_bytes [simp]:
  "n + k \<le> length bs \<Longrightarrow> length (get_bytes bs n k) = k"
  by (simp add: get_bytes_def)

lemma nth_put_bytes [byte_simps]:
  assumes "n + length xs \<le> length bs"
  shows "put_bytes bs n xs ! i =
    (if n \<le> i \<and> i < n + length xs then xs ! (i - n) else bs ! i)"
  using assms by (auto simp: put_bytes_def nth_append)

lemma nth_get_bytes [byte_simps]:
  "n + k \<le> length bs \<Longrightarrow> i < k \<Longrightarrow> get_bytes bs n k ! i = bs ! (n + i)"
  by (simp add: get_bytes_def)

lemma le16_bytes [simp]: "le16 (ucast v) (ucast (drop_bit 8 v)) = v"
  by (rule bit_word_eqI) (auto simp: le16_def bit_simps)

lemma le32_bytes [simp]:
  "le32 (ucast v) (ucast (drop_bit 8 v)) (ucast (drop_bit 16 v)) (ucast (drop_bit 24 v)) = v"
proof (rule bit_word_eqI)
  fix n assume "n < LENGTH(32)"
  then show "bit (le32 (ucast v) (ucast (drop_bit 8 v)) (ucast (drop_bit 16 v))
      (ucast (drop_bit 24 v))) n = bit v n"
    by (cases "n < 8"; cases "n < 16"; cases "n < 24") (auto simp: le32_def bit_simps)
qed

lemma not_bit_u8 [simp]: "8 \<le> n \<Longrightarrow> \<not> bit a n" for a :: u8
  using bit_imp_le_length [of a n] by auto

lemma bytes16_le16 [simp]: "bytes16 (le16 a b) = [a, b]"
  by (auto simp: bytes16_def le16_def bit_simps intro!: bit_word_eqI)

lemma bytes32_le32 [simp]: "bytes32 (le32 a b c d) = [a, b, c, d]"
  by (auto simp: bytes32_def le32_def bit_simps intro!: bit_word_eqI)

lemma nth_bytes16 [byte_simps]: "bytes16 v ! 0 = ucast v" "bytes16 v ! Suc 0 = ucast (drop_bit 8 v)"
  by (simp_all add: bytes16_def)

lemma ld16_put_bytes16 [byte_simps]:
  "n + 2 \<le> length bs \<Longrightarrow> ld16 (put_bytes bs n (bytes16 v)) n = v"
  by (simp add: ld16_def nth_put_bytes bytes16_def)

lemma ld32_put_bytes32 [byte_simps]:
  "n + 4 \<le> length bs \<Longrightarrow> ld32 (put_bytes bs n (bytes32 v)) n = v"
  by (simp add: ld32_def nth_put_bytes bytes32_def numeral_2_eq_2 numeral_3_eq_3)

lemma ld16_put_bytes_other [byte_simps]:
  "n + length xs \<le> length bs \<Longrightarrow> m + 2 \<le> n \<or> n + length xs \<le> m \<Longrightarrow>
     ld16 (put_bytes bs n xs) m = ld16 bs m"
  by (auto simp: ld16_def nth_put_bytes)

lemma ld32_put_bytes_other [byte_simps]:
  "n + length xs \<le> length bs \<Longrightarrow> m + 4 \<le> n \<or> n + length xs \<le> m \<Longrightarrow>
     ld32 (put_bytes bs n xs) m = ld32 bs m"
  by (auto simp: ld32_def nth_put_bytes)

lemma get_bytes_put_bytes [byte_simps]:
  "n + length xs \<le> length bs \<Longrightarrow> k = length xs \<Longrightarrow> get_bytes (put_bytes bs n xs) n k = xs"
  by (simp add: get_bytes_def put_bytes_def)

lemma get_bytes_put_bytes_other [byte_simps]:
  "n + length xs \<le> length bs \<Longrightarrow> m + k \<le> length bs \<Longrightarrow> m + k \<le> n \<or> n + length xs \<le> m \<Longrightarrow>
     get_bytes (put_bytes bs n xs) m k = get_bytes bs m k"
  by (auto simp: nth_put_bytes nth_get_bytes intro!: nth_equalityI)

section \<open>Byte order\<close>

text \<open>
  The macros \<^verbatim>\<open>htons\<close>, \<^verbatim>\<open>ntohs\<close>, \<^verbatim>\<open>htonl\<close> and \<^verbatim>\<open>ntohl\<close>. A macro takes an operand of
  any integer type, so \<open>htons\<close> is polymorphic in the width of its operand; the cast to
  \<^verbatim>\<open>uint16_t\<close> is part of the macro.
\<close>

definition htons :: "'a::len word \<Rightarrow> u16" where
  "htons x = ucast ((drop_bit 8 x AND 0x00ff) OR push_bit 8 x)"

definition ntohs :: "'a::len word \<Rightarrow> u16" where
  "ntohs x = htons x"

definition htonl :: "u32 \<Rightarrow> u32" where
  "htonl x = (push_bit 24 x AND 0xff000000) OR (push_bit 8 x AND 0x00ff0000)
     OR (drop_bit 8 x AND 0x0000ff00) OR (drop_bit 24 x AND 0x000000ff)"

definition ntohl :: "u32 \<Rightarrow> u32" where
  "ntohl x = htonl x"

lemma le16_nth_bytes16: "le16 (bytes16 v ! 0) (bytes16 v ! 1) = v"
  by (simp add: bytes16_def)

lemma le32_nth_bytes32: "le32 (bytes32 v ! 0) (bytes32 v ! 1) (bytes32 v ! 2) (bytes32 v ! 3) = v"
  by (simp add: bytes32_def)

lemma bytes16_eq_iff [simp]: "bytes16 v = bytes16 w \<longleftrightarrow> v = w"
proof
  assume "bytes16 v = bytes16 w"
  then have "le16 (bytes16 v ! 0) (bytes16 v ! 1) = le16 (bytes16 w ! 0) (bytes16 w ! 1)"
    by (rule arg_cong)
  then show "v = w" by (simp only: le16_nth_bytes16)
qed simp

lemma bytes32_eq_iff [simp]: "bytes32 v = bytes32 w \<longleftrightarrow> v = w"
proof
  assume "bytes32 v = bytes32 w"
  then have "le32 (bytes32 v ! 0) (bytes32 v ! 1) (bytes32 v ! 2) (bytes32 v ! 3) =
      le32 (bytes32 w ! 0) (bytes32 w ! 1) (bytes32 w ! 2) (bytes32 w ! 3)"
    by (rule arg_cong)
  then show "v = w" by (simp only: le32_nth_bytes32)
qed simp

lemma le16_parts [simp]: "ucast (le16 a b) = a" "ucast (drop_bit 8 (le16 a b)) = b"
  using bytes16_le16 [of a b] by (simp_all add: bytes16_def)

lemma mask8: "(0xff :: 'a::len word) = mask 8"
  by (simp add: mask_eq_exp_minus_1)

lemma htons_bytes: "htons v = le16 (ucast (drop_bit 8 v)) (ucast v)" for v :: u16
  unfolding htons_def le16_def mask8
  by (rule bit_word_eqI) (auto simp: bit_simps)

lemma bytes16_htons: "bytes16 (htons v) = [ucast (drop_bit 8 v), ucast v]" for v :: u16
  by (simp add: htons_bytes)

lemma htons_htons [simp]: "htons (htons v) = v" for v :: u16
  by (simp add: htons_bytes [of v] htons_bytes [of "le16 _ _"])

lemma ntohs_htons [simp]: "ntohs (htons v) = v" for v :: u16
  by (simp add: ntohs_def)

lemma htons_ntohs [simp]: "htons (ntohs v) = v" for v :: u16
  by (simp add: ntohs_def)

lemma htons_eq_iff [simp]: "htons v = htons w \<longleftrightarrow> v = w" for v w :: u16
proof
  assume "htons v = htons w"
  then have "htons (htons v) = htons (htons w)" by (rule arg_cong)
  then show "v = w" by (simp only: htons_htons)
qed simp

lemma htonl_bytes:
  "htonl v = le32 (ucast (drop_bit 24 v)) (ucast (drop_bit 16 v)) (ucast (drop_bit 8 v)) (ucast v)"
proof (rule bit_word_eqI)
  fix n assume n: "n < LENGTH(32)"
  have mask: "(0xff000000 :: u32) = push_bit 24 (mask 8)" "(0x00ff0000 :: u32) = push_bit 16 (mask 8)"
    "(0x0000ff00 :: u32) = push_bit 8 (mask 8)" "(0x000000ff :: u32) = mask 8"
    by (simp_all add: mask_eq_exp_minus_1 push_bit_eq_mult)
  show "bit (htonl v) n = bit (le32 (ucast (drop_bit 24 v)) (ucast (drop_bit 16 v))
      (ucast (drop_bit 8 v)) (ucast v)) n"
    unfolding htonl_def le32_def mask using n
    by (cases "n < 8"; cases "n < 16"; cases "n < 24") (auto simp: bit_simps)
qed

section \<open>Slices of byte lists\<close>

lemma put_bytes_put_bytes_append:
  "m = n + length xs \<Longrightarrow> m + length ys \<le> length bs \<Longrightarrow>
     put_bytes (put_bytes bs m ys) n xs = put_bytes bs n (xs @ ys)"
  by (simp add: put_bytes_def min_def add.assoc)

lemma get_bytes_append:
  "get_bytes bs n (j + k) = get_bytes bs n j @ get_bytes bs (n + j) k"
  by (simp add: get_bytes_def take_add add.commute)

lemma put_bytes_inside:
  "m + k \<le> length bs \<Longrightarrow> m \<le> n \<Longrightarrow> n + length xs \<le> m + k \<Longrightarrow>
     get_bytes (put_bytes bs n xs) m k = put_bytes (get_bytes bs m k) (n - m) xs"
  by (rule nth_equalityI) (auto simp: nth_get_bytes nth_put_bytes add.commute)

lemma drop_get_bytes: "drop j (get_bytes bs n k) = get_bytes bs (n + j) (k - j)"
  by (simp add: get_bytes_def drop_take add.commute)

lemma ld16_get_bytes [byte_simps]: "n + k \<le> length bs \<Longrightarrow> j + 2 \<le> k \<Longrightarrow> ld16 (get_bytes bs n k) j = ld16 bs (n + j)"
  by (simp add: ld16_def nth_get_bytes)

lemma ld32_get_bytes [byte_simps]: "n + k \<le> length bs \<Longrightarrow> j + 4 \<le> k \<Longrightarrow> ld32 (get_bytes bs n k) j = ld32 bs (n + j)"
  by (simp add: ld32_def nth_get_bytes add.assoc)

lemma get_bytes_get_bytes [byte_simps]: "j + i \<le> k \<Longrightarrow> get_bytes (get_bytes bs n k) j i = get_bytes bs (n + j) i"
  by (simp add: get_bytes_def drop_take min_def add.commute)

lemma le16_eq_iff [simp]: "le16 a b = le16 c d \<longleftrightarrow> a = c \<and> b = d"
  by (metis le16_parts)

lemma word_or_zero_iff: "a OR b = 0 \<longleftrightarrow> a = 0 \<and> b = 0" for a b :: "'a::len word"
  by (auto simp: bit_eq_iff bit_or_iff)

lemma word_xor_zero_iff: "a XOR b = 0 \<longleftrightarrow> a = b" for a b :: "'a::len word"
  by (auto simp: bit_eq_iff bit_xor_iff)

lemma take_six: "6 \<le> length a \<Longrightarrow> take 6 a = [a ! 0, a ! 1, a ! 2, a ! 3, a ! 4, a ! 5]"
  by (simp add: list_eq_iff_nth_eq nth_Cons numeral_eq_Suc split: nat.split)

lemma and_ff: "(a AND b :: u8) = 0xff \<longleftrightarrow> a = 0xff \<and> b = 0xff"
proof -
  have "(0xff :: u8) = - 1" by simp
  then show ?thesis by (auto simp: bit_eq_iff bit_and_iff)
qed

section \<open>Byte order and bit masks\<close>

lemma le32_parts [simp]:
  "ucast (le32 a b c d) = a" "ucast (drop_bit 8 (le32 a b c d)) = b"
  "ucast (drop_bit 16 (le32 a b c d)) = c" "ucast (drop_bit 24 (le32 a b c d)) = d"
  using bytes32_le32 [of a b c d] by (simp_all add: bytes32_def)

lemma htonl_htonl [simp]: "htonl (htonl v) = v"
  by (simp add: htonl_bytes [of v] htonl_bytes [of "le32 _ _ _ _"])

lemma htonl_eq_iff [simp]: "htonl v = htonl w \<longleftrightarrow> v = w"
  by (metis htonl_htonl)

lemma le32_and: "le32 (a AND a') (b AND b') (c AND c') (d AND d') = le32 a b c d AND le32 a' b' c' d'"
proof (rule bit_word_eqI)
  fix n assume "n < LENGTH(32)"
  then show "bit (le32 (a AND a') (b AND b') (c AND c') (d AND d')) n = bit (le32 a b c d AND le32 a' b' c' d') n"
    by (cases "n < 8"; cases "n < 16"; cases "n < 24") (auto simp: le32_def bit_simps)
qed

lemma htonl_and: "htonl (v AND w) = htonl v AND htonl w"
proof -
  have "ucast (a AND b) = (ucast a AND ucast b :: u8)" for a b :: u32
    by (rule bit_word_eqI) (auto simp: bit_simps)
  then show ?thesis by (simp add: htonl_bytes le32_and)
qed

lemma and_not_mask_eq_iff:
  "a AND NOT (mask n) = b AND NOT (mask n) \<longleftrightarrow> drop_bit n a = drop_bit n b" for a b :: "'a::len word"
proof
  assume eq: "a AND NOT (mask n) = b AND NOT (mask n)"
  show "drop_bit n a = drop_bit n b"
  proof (rule bit_word_eqI)
    fix i
    have "bit (a AND NOT (mask n)) (n + i) = bit (b AND NOT (mask n)) (n + i)" by (simp only: eq)
    then show "bit (drop_bit n a) i = bit (drop_bit n b) i"
      by (cases "n + i < LENGTH('a)") (auto simp: bit_simps dest: bit_imp_le_length)
  qed
next
  assume eq: "drop_bit n a = drop_bit n b"
  show "a AND NOT (mask n) = b AND NOT (mask n)"
  proof (rule bit_word_eqI)
    fix i
    have "bit (drop_bit n a) (i - n) = bit (drop_bit n b) (i - n)" by (simp only: eq)
    then show "bit (a AND NOT (mask n)) i = bit (b AND NOT (mask n)) i" by (auto simp: bit_simps)
  qed
qed

lemma put_bytes_append_put_bytes:
  "m = n + length xs \<Longrightarrow> m + length ys \<le> length bs \<Longrightarrow>
     put_bytes (put_bytes bs n xs) m ys = put_bytes bs n (xs @ ys)"
  by (rule nth_equalityI) (auto simp: nth_put_bytes nth_append)

lemma put_bytes_within:
  "k + length ys \<le> length xs \<Longrightarrow> n + length xs \<le> length bs \<Longrightarrow> m = n + k \<Longrightarrow>
     put_bytes (put_bytes bs n xs) m ys = put_bytes bs n (put_bytes xs k ys)"
  by (rule nth_equalityI) (auto simp: nth_put_bytes)

lemma put_bytes_all: "length xs = length bs \<Longrightarrow> put_bytes bs 0 xs = xs"
  by (simp add: put_bytes_def)

lemma unat_of_nat_u32: "n < 2 ^ 32 \<Longrightarrow> unat (of_nat n :: u32) = n"
  by (simp only: unsigned_of_nat) (simp add: take_bit_nat_eq_self)

lemma uint_word_of_int_u32: "0 \<le> k \<Longrightarrow> k < 2 ^ 32 \<Longrightarrow> uint (word_of_int k :: u32) = k"
  by (simp only: uint_word_of_int_eq) (simp add: take_bit_int_eq_self)

lemma ucast_of_nat_u16: "ucast (of_nat k :: u32) = (of_nat k :: u16)"
  by (rule bit_word_eqI) (simp add: bit_simps)

lemma le16_zero: "le16 0 0 = 0"
  by (simp add: le16_def)

end
