(* ===== verification/Skbuff.thy ===== *)
theory Skbuff
  imports Net_Prelude
begin

text \<open>
  Socket buffers (\<^verbatim>\<open>core/skbuff.c\<close>, \<^verbatim>\<open>include/skbuff.h\<close>): the store they live in,
  allocation and release, and the operations that move the data window of a buffer. Queues of
  buffers are in the theory \<open>Skb_Queue\<close>.
\<close>

section \<open>The operating system\<close>

text \<open>
  What the stack relies on outside its own sources: whether the \<open>k\<close>-th \<^verbatim>\<open>malloc\<close>
  succeeds, what the fresh block holds (its bytes, and the value that a pointer field of the
  block reads as before it is written), and what \<^verbatim>\<open>write\<close> on the tap device returns for the
  \<open>k\<close>-th frame.
\<close>

record os_env =
  malloc_ok :: "nat \<Rightarrow> bool"
  malloc_junk :: "nat \<Rightarrow> nat \<Rightarrow> u8"
  malloc_ptr :: "nat \<Rightarrow> nat option"
  write_ret :: "nat \<Rightarrow> u8 list \<Rightarrow> int"

section \<open>Buffers and their store\<close>

text \<open>
  A pointer to an object is the number of the \<^verbatim>\<open>malloc\<close> call that made it; NULL is \<open>None\<close>.
  The members \<open>head\<close>, \<open>data\<close>, \<open>tail\<close>, \<open>end\<close> and the header pointers \<open>h\<close>, \<open>nh\<close>,
  \<open>mac\<close> are offsets from the start of the data block, whose bytes are \<open>skb_buf\<close>. The links
  \<open>next\<close> and \<open>prev\<close> are in the store, where list heads have them too. The member
  \<open>destructor\<close> is never used by the sources.
\<close>

record sk_buff =
  skb_dev :: "nat option"
  input_dev :: "nat option"
  h_raw :: "int option"
  nh_raw :: "int option"
  mac_raw :: "int option"
  skb_dst :: "nat option"
  skb_len :: u32
  mac_len :: u32
  skb_protocol :: u16
  pkt_type :: u16
  skb_head :: int
  skb_data :: int
  skb_tail :: int
  skb_end :: int
  skb_buf :: "u8 list"

text \<open>
  The nodes of the circular lists: a buffer, or one of the list heads embedded in a neighbour
  (\<open>arp_queue\<close>) or in a sock (\<open>sk_write_queue\<close>, \<open>sk_receive_queue\<close>).
\<close>

datatype node = Skb nat | Arp_queue nat | Write_queue nat | Receive_queue nat

record skb_store =
  os :: os_env
  brk :: nat
  skbs :: "nat \<rightharpoonup> sk_buff"
  nxt :: "node \<Rightarrow> node option"
  prv :: "node \<Rightarrow> node option"
  qlen :: "node \<Rightarrow> u32"

section \<open>Memory\<close>

definition malloc :: "('z skb_store_scheme, nat option) comp" where
  "malloc = (\<lambda>s. Inr (if malloc_ok (os s) (brk s) then Some (brk s) else None, s\<lparr>brk := brk s + 1\<rparr>))"

definition get_skb :: "nat \<Rightarrow> ('z skb_store_scheme, sk_buff) comp" where
  "get_skb i = (\<lambda>s. case skbs s i of None \<Rightarrow> Inl Bad_pointer | Some b \<Rightarrow> Inr (b, s))"

definition set_skb :: "nat \<Rightarrow> sk_buff \<Rightarrow> ('z skb_store_scheme, unit) comp" where
  "set_skb i b = modifyM (\<lambda>s. s\<lparr>skbs := (skbs s)(i \<mapsto> b)\<rparr>)"

text \<open>An operation on the structure a pointer refers to, and an assignment to its members.\<close>

definition on_skb :: "nat \<Rightarrow> (sk_buff \<Rightarrow> 'a \<times> sk_buff) \<Rightarrow> ('z skb_store_scheme, 'a) comp" where
  "on_skb i f = bindM (get_skb i) (\<lambda>b. bindM (set_skb i (snd (f b))) (\<lambda>_. returnM (fst (f b))))"

definition upd_skb :: "nat \<Rightarrow> (sk_buff \<Rightarrow> sk_buff) \<Rightarrow> ('z skb_store_scheme, unit) comp" where
  "upd_skb i f = bindM (get_skb i) (\<lambda>b. set_skb i (f b))"

text \<open>Loads and stores through a pointer into the data block, checked against its bounds.\<close>

definition in_block :: "sk_buff \<Rightarrow> int \<Rightarrow> nat \<Rightarrow> bool" where
  "in_block b off n \<longleftrightarrow> 0 \<le> off \<and> off + int n \<le> int (length (skb_buf b))"

definition load :: "nat \<Rightarrow> int \<Rightarrow> nat \<Rightarrow> (u8 list \<Rightarrow> nat \<Rightarrow> 'a) \<Rightarrow> ('z skb_store_scheme, 'a) comp" where
  "load i off n f = bindM (get_skb i) (\<lambda>b.
     if in_block b off n then returnM (f (skb_buf b) (nat off)) else failM Out_of_bounds)"

definition load8 :: "nat \<Rightarrow> int \<Rightarrow> ('z skb_store_scheme, u8) comp" where
  "load8 i off = load i off 1 (!)"

definition load16 :: "nat \<Rightarrow> int \<Rightarrow> ('z skb_store_scheme, u16) comp" where
  "load16 i off = load i off 2 ld16"

definition load32 :: "nat \<Rightarrow> int \<Rightarrow> ('z skb_store_scheme, u32) comp" where
  "load32 i off = load i off 4 ld32"

definition load_bytes :: "nat \<Rightarrow> int \<Rightarrow> nat \<Rightarrow> ('z skb_store_scheme, u8 list) comp" where
  "load_bytes i off n = load i off n (\<lambda>bs k. get_bytes bs k n)"

definition store_bytes :: "nat \<Rightarrow> int \<Rightarrow> u8 list \<Rightarrow> ('z skb_store_scheme, unit) comp" where
  "store_bytes i off xs = bindM (get_skb i) (\<lambda>b.
     if in_block b off (length xs)
     then set_skb i (b\<lparr>skb_buf := put_bytes (skb_buf b) (nat off) xs\<rparr>)
     else failM Out_of_bounds)"

section \<open>Allocation and release\<close>

definition zero_skb :: sk_buff where
  "zero_skb = \<lparr>skb_dev = None, input_dev = None, h_raw = None, nh_raw = None, mac_raw = None,
     skb_dst = None, skb_len = 0, mac_len = 0, skb_protocol = 0, pkt_type = 0,
     skb_head = 0, skb_data = 0, skb_tail = 0, skb_end = 0, skb_buf = []\<rparr>"

definition fresh_block :: "os_env \<Rightarrow> nat \<Rightarrow> u32 \<Rightarrow> u8 list" where
  "fresh_block e d sz = map (malloc_junk e d) [0..<unat sz]"

definition alloc_skb :: "u32 \<Rightarrow> ('z skb_store_scheme, nat option) comp" where
  "alloc_skb sz = bindM malloc (\<lambda>skb. case skb of
       None \<Rightarrow> returnM None
     | Some i \<Rightarrow>
         bindM (modifyM (\<lambda>s. s\<lparr>skbs := (skbs s)(i \<mapsto> zero_skb),
           nxt := (nxt s)(Skb i := None), prv := (prv s)(Skb i := None)\<rparr>)) (\<lambda>_.
         bindM malloc (\<lambda>block. case block of
             None \<Rightarrow> returnM None
           | Some d \<Rightarrow>
               bindM (getsM os) (\<lambda>e.
               bindM (upd_skb i (\<lambda>skb. skb\<lparr>skb_buf := fresh_block e d sz, skb_head := 0,
                 skb_data := 0, skb_tail := 0, skb_end := uint sz\<rparr>)) (\<lambda>_.
               returnM (Some i))))))"

definition dev_alloc_skb :: "u32 \<Rightarrow> ('z skb_store_scheme, nat option) comp" where
  "dev_alloc_skb sz = alloc_skb sz"

text \<open>\<^verbatim>\<open>free\<close> releases the structure only; the data block is never released.\<close>

definition kfree_skb :: "nat \<Rightarrow> ('z skb_store_scheme, unit) comp" where
  "kfree_skb i = bindM (get_skb i) (\<lambda>_. modifyM (\<lambda>s. s\<lparr>skbs := (skbs s)(i := None)\<rparr>))"

section \<open>The data window\<close>

definition skb_reserve :: "int \<Rightarrow> sk_buff \<Rightarrow> unit \<times> sk_buff" where
  "skb_reserve len skb =
     (if skb_data skb + len > skb_end skb then ((), skb)
      else ((), skb\<lparr>skb_data := skb_data skb + len, skb_tail := skb_tail skb + len\<rparr>))"

definition skb_push :: "u32 \<Rightarrow> sk_buff \<Rightarrow> int option \<times> sk_buff" where
  "skb_push len skb =
     (if skb_data skb - uint len < skb_head skb then (None, skb)
      else (Some (skb_data skb - uint len),
        skb\<lparr>skb_data := skb_data skb - uint len, skb_len := skb_len skb + len\<rparr>))"

definition skb_pull :: "u32 \<Rightarrow> sk_buff \<Rightarrow> int option \<times> sk_buff" where
  "skb_pull len skb =
     (if len > skb_len skb then (None, skb)
      else (Some (skb_data skb + uint len),
        skb\<lparr>skb_len := skb_len skb - len, skb_data := skb_data skb + uint len\<rparr>))"

definition skb_may_pull :: "sk_buff \<Rightarrow> u32 \<Rightarrow> bool" where
  "skb_may_pull skb len \<longleftrightarrow> skb_len skb \<ge> len"

definition skb_put :: "u32 \<Rightarrow> sk_buff \<Rightarrow> int option \<times> sk_buff" where
  "skb_put len skb =
     (if skb_tail skb + uint len > skb_end skb then (None, skb)
      else (Some (skb_tail skb),
        skb\<lparr>skb_tail := skb_tail skb + uint len, skb_len := skb_len skb + len\<rparr>))"

section \<open>Unfolding memory operations\<close>

lemma malloc_apply [comp_simps]:
  "malloc s = Inr (if malloc_ok (os s) (brk s) then Some (brk s) else None, s\<lparr>brk := brk s + 1\<rparr>)"
  by (simp add: malloc_def)

lemma get_skb_Some [comp_simps]: "skbs s i = Some b \<Longrightarrow> get_skb i s = Inr (b, s)"
  by (simp add: get_skb_def)

lemma get_skb_None [comp_simps]: "skbs s i = None \<Longrightarrow> get_skb i s = Inl Bad_pointer"
  by (simp add: get_skb_def)

lemma set_skb_apply [comp_simps]: "set_skb i b s = Inr ((), s\<lparr>skbs := (skbs s)(i \<mapsto> b)\<rparr>)"
  by (simp add: set_skb_def comp_simps)

lemma on_skb_apply [comp_simps]:
  "skbs s i = Some b \<Longrightarrow> on_skb i f s = Inr (fst (f b), s\<lparr>skbs := (skbs s)(i \<mapsto> snd (f b))\<rparr>)"
  by (simp add: on_skb_def comp_simps)

lemma upd_skb_apply [comp_simps]:
  "skbs s i = Some b \<Longrightarrow> upd_skb i f s = Inr ((), s\<lparr>skbs := (skbs s)(i \<mapsto> f b)\<rparr>)"
  by (simp add: upd_skb_def comp_simps)

lemma load_apply [comp_simps]:
  "skbs s i = Some b \<Longrightarrow>
     load i off n f s = (if in_block b off n then Inr (f (skb_buf b) (nat off), s) else Inl Out_of_bounds)"
  by (simp add: load_def comp_simps)

lemmas load_defs = load8_def load16_def load32_def load_bytes_def

lemma store_bytes_apply [comp_simps]:
  "skbs s i = Some b \<Longrightarrow> store_bytes i off xs s =
     (if in_block b off (length xs)
      then Inr ((), s\<lparr>skbs := (skbs s)(i \<mapsto> b\<lparr>skb_buf := put_bytes (skb_buf b) (nat off) xs\<rparr>)\<rparr>)
      else Inl Out_of_bounds)"
  by (simp add: store_bytes_def comp_simps)

lemma kfree_skb_apply [comp_simps]:
  "skbs s i = Some b \<Longrightarrow> kfree_skb i s = Inr ((), s\<lparr>skbs := (skbs s)(i := None)\<rparr>)"
  by (simp add: kfree_skb_def comp_simps)

lemma kfree_skb_twice: "skbs s i = None \<Longrightarrow> kfree_skb i s = Inl Bad_pointer"
  by (simp add: kfree_skb_def comp_simps)

lemma wp_malloc [wp_simps]:
  "wp malloc Q s = Q (if malloc_ok (os s) (brk s) then Some (brk s) else None) (s\<lparr>brk := brk s + 1\<rparr>)"
  by (simp add: wp_def comp_simps)

lemma wp_get_skb [wp_simps]: "wp (get_skb i) Q s \<longleftrightarrow> (\<exists>b. skbs s i = Some b \<and> Q b s)"
  by (auto simp: wp_def get_skb_def split: option.splits)

lemma wp_set_skb [wp_simps]: "wp (set_skb i b) Q s = Q () (s\<lparr>skbs := (skbs s)(i \<mapsto> b)\<rparr>)"
  by (simp add: wp_def comp_simps)

lemma wp_on_skb [wp_simps]: "wp (on_skb i f) Q s \<longleftrightarrow>
    (\<exists>b. skbs s i = Some b \<and> Q (fst (f b)) (s\<lparr>skbs := (skbs s)(i \<mapsto> snd (f b))\<rparr>))"
  by (simp add: on_skb_def wp_simps)

lemma wp_upd_skb [wp_simps]: "wp (upd_skb i f) Q s \<longleftrightarrow>
    (\<exists>b. skbs s i = Some b \<and> Q () (s\<lparr>skbs := (skbs s)(i \<mapsto> f b)\<rparr>))"
  by (simp add: upd_skb_def wp_simps)

lemma wp_load [wp_simps]: "wp (load i off n f) Q s \<longleftrightarrow>
    (\<exists>b. skbs s i = Some b \<and> in_block b off n \<and> Q (f (skb_buf b) (nat off)) s)"
  by (auto simp: load_def wp_simps)

lemma wp_store_bytes [wp_simps]: "wp (store_bytes i off xs) Q s \<longleftrightarrow>
    (\<exists>b. skbs s i = Some b \<and> in_block b off (length xs) \<and>
       Q () (s\<lparr>skbs := (skbs s)(i \<mapsto> b\<lparr>skb_buf := put_bytes (skb_buf b) (nat off) xs\<rparr>)\<rparr>))"
  by (auto simp: store_bytes_def wp_simps)

lemma wp_kfree_skb [wp_simps]: "wp (kfree_skb i) Q s \<longleftrightarrow>
    skbs s i \<noteq> None \<and> Q () (s\<lparr>skbs := (skbs s)(i := None)\<rparr>)"
  by (auto simp: kfree_skb_def wp_simps)

text \<open>All allocations succeed.\<close>

definition mem_ok :: "'z skb_store_scheme \<Rightarrow> bool" where
  "mem_ok s \<longleftrightarrow> (\<forall>k. malloc_ok (os s) k)"

lemma mem_okD: "\<not> malloc_ok (os s) k \<Longrightarrow> \<not> mem_ok s"
  by (auto simp: mem_ok_def)

lemma mem_ok_brk [simp]: "mem_ok (s\<lparr>brk := k\<rparr>) = mem_ok s"
  by (simp add: mem_ok_def)

section \<open>The geometry of a buffer\<close>

definition wf_skb :: "sk_buff \<Rightarrow> bool" where
  "wf_skb b \<longleftrightarrow> skb_head b = 0 \<and> 0 \<le> skb_data b \<and> skb_data b \<le> skb_tail b \<and>
     skb_tail b \<le> skb_end b \<and> skb_end b = int (length (skb_buf b)) \<and>
     length (skb_buf b) < 2 ^ 32 \<and> uint (skb_len b) = skb_tail b - skb_data b"

lemma length_fresh_block [simp]: "length (fresh_block e d sz) = unat sz"
  by (simp add: fresh_block_def)

lemma uint_add_u32: "uint a + uint b < 2 ^ 32 \<Longrightarrow> uint (a + b) = uint a + uint b" for a b :: u32
  by (simp add: uint_word_ariths)

lemma uint_sub_u32: "b \<le> a \<Longrightarrow> uint (a - b) = uint a - uint b" for a b :: u32
  by (simp add: word_le_def uint_sub_lem)

lemma wf_skb_put: "wf_skb b \<Longrightarrow> wf_skb (snd (skb_put n b))"
  by (auto simp: wf_skb_def skb_put_def uint_add_u32 intro: add_increasing2)

lemma wf_skb_push: "wf_skb b \<Longrightarrow> wf_skb (snd (skb_push n b))"
  by (auto simp: wf_skb_def skb_push_def uint_add_u32 diff_le_eq intro: add_increasing2)

lemma wf_skb_pull: "wf_skb b \<Longrightarrow> wf_skb (snd (skb_pull n b))"
  by (auto simp: wf_skb_def skb_pull_def uint_sub_u32 not_less) (auto simp: word_le_def)

lemma wf_skb_reserve:
  "wf_skb b \<Longrightarrow> 0 \<le> m \<Longrightarrow> skb_tail b + m \<le> skb_end b \<Longrightarrow> wf_skb (snd (skb_reserve m b))"
  by (auto simp: wf_skb_def skb_reserve_def)

lemma wf_skb_lenD: "wf_skb b \<Longrightarrow> uint (skb_len b) = skb_tail b - skb_data b"
  by (simp add: wf_skb_def)

text \<open>Every byte of the window lies in the block.\<close>

lemma wf_skb_in_block:
  "wf_skb b \<Longrightarrow> skb_data b \<le> off \<Longrightarrow> off + int n \<le> skb_tail b \<Longrightarrow> in_block b off n"
  by (auto simp: wf_skb_def in_block_def)

section \<open>The bytes in the window\<close>

text \<open>
  \<open>window b\<close> is what a reader of the buffer sees: the bytes from its data pointer on.
  \<open>prepend\<close> is the effect of pushing room for a header and writing it there.
\<close>

definition window :: "sk_buff \<Rightarrow> u8 list" where
  "window b = get_bytes (skb_buf b) (nat (skb_data b)) (unat (skb_len b))"

definition prepend :: "u8 list \<Rightarrow> sk_buff \<Rightarrow> sk_buff" where
  "prepend xs b = b\<lparr>skb_data := skb_data b - int (length xs), skb_len := skb_len b + of_nat (length xs),
     skb_buf := put_bytes (skb_buf b) (nat (skb_data b - int (length xs))) xs\<rparr>"

lemma wf_skb_len_nat: "wf_skb b \<Longrightarrow> unat (skb_len b) = nat (skb_tail b - skb_data b)"
  by (simp add: wf_skb_def flip: nat_uint_eq)

lemma length_window [simp]: "wf_skb b \<Longrightarrow> length (window b) = unat (skb_len b)"
  unfolding window_def wf_skb_len_nat by (rule length_get_bytes) (auto simp: wf_skb_def)

lemma wf_skb_put_bytes:
  "wf_skb b \<Longrightarrow> in_block b off (length xs) \<Longrightarrow> wf_skb (b\<lparr>skb_buf := put_bytes (skb_buf b) (nat off) xs\<rparr>)"
  by (auto simp: wf_skb_def in_block_def)

lemma window_put_bytes:
  assumes "wf_skb b" "skb_data b \<le> off" "off + int (length xs) \<le> skb_tail b"
  shows "window (b\<lparr>skb_buf := put_bytes (skb_buf b) (nat off) xs\<rparr>) =
    put_bytes (window b) (nat (off - skb_data b)) xs"
proof -
  have "window (b\<lparr>skb_buf := put_bytes (skb_buf b) (nat off) xs\<rparr>) =
      get_bytes (put_bytes (skb_buf b) (nat off) xs) (nat (skb_data b)) (nat (skb_tail b - skb_data b))"
    using assms by (simp add: window_def wf_skb_len_nat)
  also have "\<dots> = put_bytes (get_bytes (skb_buf b) (nat (skb_data b)) (nat (skb_tail b - skb_data b)))
      (nat off - nat (skb_data b)) xs"
    using assms by (intro put_bytes_inside) (auto simp: wf_skb_def)
  finally show ?thesis
    using assms by (simp add: window_def wf_skb_len_nat nat_diff_distrib wf_skb_def)
qed

lemma window_pull:
  assumes "wf_skb b" "n \<le> skb_len b"
  shows "window (b\<lparr>skb_len := skb_len b - n, skb_data := skb_data b + uint n\<rparr>) = drop (unat n) (window b)"
  using assms by (simp add: window_def drop_get_bytes unat_sub nat_add_distrib wf_skb_def)

lemma wf_skb_pulled:
  assumes "wf_skb b" "n \<le> skb_len b"
  shows "wf_skb (b\<lparr>skb_len := skb_len b - n, skb_data := skb_data b + uint n\<rparr>)"
  using wf_skb_pull [OF assms(1), of n] leD [OF assms(2)] by (simp add: skb_pull_def)

lemma uint_len_prepend:
  "wf_skb b \<Longrightarrow> int k \<le> skb_data b \<Longrightarrow> uint (skb_len b + of_nat k) = uint (skb_len b) + int k"
  by (subst uint_add_u32) (auto simp: wf_skb_def unsigned_of_nat take_bit_nat_eq_self)

lemma wf_skb_prepend: "wf_skb b \<Longrightarrow> int (length xs) \<le> skb_data b \<Longrightarrow> wf_skb (prepend xs b)"
  using uint_len_prepend [of b "length xs"] by (auto simp: prepend_def wf_skb_def)

lemma window_prepend:
  assumes "wf_skb b" "int (length xs) \<le> skb_data b"
  shows "window (prepend xs b) = xs @ window b"
proof -
  let ?n = "nat (skb_data b - int (length xs))" and ?d = "nat (skb_data b)"
  have len: "unat (skb_len b + of_nat (length xs)) = length xs + unat (skb_len b)"
    using uint_len_prepend [OF assms] by (simp add: nat_add_distrib flip: nat_uint_eq)
  have nd: "?n + length xs = ?d" "?d + unat (skb_len b) \<le> length (skb_buf b)"
    using assms wf_skb_len_nat [OF assms(1)] by (auto simp: wf_skb_def)
  then show ?thesis
    by (simp add: window_def prepend_def len get_bytes_append get_bytes_put_bytes get_bytes_put_bytes_other)
qed

lemma window_bound: "wf_skb b \<Longrightarrow> nat (skb_data b) + unat (skb_len b) \<le> length (skb_buf b)"
  by (auto simp: wf_skb_len_nat wf_skb_def)

lemma in_block_window:
  "wf_skb b \<Longrightarrow> k + n \<le> unat (skb_len b) \<Longrightarrow> in_block b (skb_data b + int k) n"
  using window_bound [of b] by (auto simp: in_block_def wf_skb_def)

lemma load_window:
  assumes "wf_skb b"
  shows "k + 2 \<le> unat (skb_len b) \<Longrightarrow> ld16 (skb_buf b) (nat (skb_data b + int k)) = ld16 (window b) k"
    and "k + 4 \<le> unat (skb_len b) \<Longrightarrow> ld32 (skb_buf b) (nat (skb_data b + int k)) = ld32 (window b) k"
    and "k < unat (skb_len b) \<Longrightarrow> skb_buf b ! nat (skb_data b + int k) = window b ! k"
    and "k + n \<le> unat (skb_len b) \<Longrightarrow> get_bytes (skb_buf b) (nat (skb_data b + int k)) n = get_bytes (window b) k n"
  using window_bound [OF assms] assms
  by (auto simp: window_def nat_add_distrib wf_skb_def ld16_get_bytes ld32_get_bytes nth_get_bytes get_bytes_get_bytes)

lemma window_drop:
  assumes "wf_skb b" "n \<le> unat (skb_len b)"
  shows "get_bytes (skb_buf b) (nat (skb_data b + int n)) (unat (skb_len b) - n) = drop n (window b)"
  using assms window_bound [OF assms(1)] by (auto simp: window_def get_bytes_def wf_skb_def nat_add_distrib drop_take add.commute)

lemma wf_skb_fields [simp]:
  "wf_skb (b\<lparr>skb_dst := x0\<rparr>) = wf_skb b"
  "wf_skb (b\<lparr>skb_dev := x1\<rparr>) = wf_skb b"
  "wf_skb (b\<lparr>skb_protocol := x2\<rparr>) = wf_skb b"
  "wf_skb (b\<lparr>nh_raw := x3\<rparr>) = wf_skb b"
  "wf_skb (b\<lparr>h_raw := x4\<rparr>) = wf_skb b"
  "wf_skb (b\<lparr>mac_raw := x5\<rparr>) = wf_skb b"
  "wf_skb (b\<lparr>pkt_type := x6\<rparr>) = wf_skb b"
  "wf_skb (b\<lparr>mac_len := x7\<rparr>) = wf_skb b"
  "wf_skb (b\<lparr>input_dev := x8\<rparr>) = wf_skb b"
  by (simp_all add: wf_skb_def)

lemma window_fields [simp]:
  "window (b\<lparr>skb_dst := x0\<rparr>) = window b"
  "window (b\<lparr>skb_dev := x1\<rparr>) = window b"
  "window (b\<lparr>skb_protocol := x2\<rparr>) = window b"
  "window (b\<lparr>nh_raw := x3\<rparr>) = window b"
  "window (b\<lparr>h_raw := x4\<rparr>) = window b"
  "window (b\<lparr>mac_raw := x5\<rparr>) = window b"
  "window (b\<lparr>pkt_type := x6\<rparr>) = window b"
  "window (b\<lparr>mac_len := x7\<rparr>) = window b"
  "window (b\<lparr>input_dev := x8\<rparr>) = window b"
  by (simp_all add: window_def)

lemma skb_len_push:
  assumes "wf_skb b" "0 \<le> nh" "nh \<le> skb_data b"
  shows "skb_len b + word_of_int (skb_data b - nh) = of_nat (nat (skb_tail b - nh))"
proof -
  have len: "skb_len b = word_of_int (skb_tail b - skb_data b)"
    using wf_skb_lenD [OF assms(1)] by (metis word_of_int_uint)
  obtain k where k: "skb_tail b = nh + int k" using assms nonneg_int_cases [of "skb_tail b - nh"]
    by (metis add.commute diff_add_cancel diff_ge_0_iff_ge order_trans wf_skb_def)
  show ?thesis unfolding len by (simp add: k)
qed

lemma skb_push_to:
  assumes "wf_skb b" "0 \<le> nh" "nh \<le> skb_data b"
  shows "skb_push (word_of_int (skb_data b - nh)) b =
      (Some nh, b\<lparr>skb_data := nh, skb_len := of_nat (nat (skb_tail b - nh))\<rparr>)"
proof -
  have "uint (word_of_int (skb_data b - nh) :: u32) = skb_data b - nh"
    using assms by (intro uint_word_of_int_u32) (auto simp: wf_skb_def)
  then show ?thesis using assms(2) skb_len_push [OF assms] assms(1) unfolding skb_push_def
    by (simp only: wf_skb_def) simp
qed

section \<open>The result of an allocation\<close>

definition new_skb :: "('z skb_store_scheme) \<Rightarrow> u32 \<Rightarrow> sk_buff" where
  "new_skb s sz = zero_skb\<lparr>skb_end := uint sz, skb_buf := fresh_block (os s) (brk s + 1) sz\<rparr>"

definition alloc_state :: "('z skb_store_scheme) \<Rightarrow> nat \<Rightarrow> sk_buff \<Rightarrow> ('z skb_store_scheme)" where
  "alloc_state s k b = s\<lparr>brk := brk s + k, skbs := (skbs s)(brk s \<mapsto> b),
     nxt := (nxt s)(Skb (brk s) := None), prv := (prv s)(Skb (brk s) := None)\<rparr>"

lemma wf_new_skb [simp]: "wf_skb (new_skb s sz)"
  using unsigned_less [where ?'a = nat, of sz] by (simp add: wf_skb_def new_skb_def zero_skb_def)

lemma alloc_skb_apply:
  "alloc_skb sz s =
     (if \<not> malloc_ok (os s) (brk s) then Inr (None, s\<lparr>brk := brk s + 1\<rparr>)
      else if \<not> malloc_ok (os s) (brk s + 1) then Inr (None, alloc_state s 2 zero_skb)
      else Inr (Some (brk s), alloc_state s 2 (new_skb s sz)))"
  by (simp add: alloc_skb_def alloc_state_def new_skb_def upd_skb_def comp_simps zero_skb_def)

lemma wp_alloc_skb [wp_simps]:
  "wp (alloc_skb sz) Q s =
     (if \<not> malloc_ok (os s) (brk s) then Q None (s\<lparr>brk := brk s + 1\<rparr>)
      else if \<not> malloc_ok (os s) (brk s + 1) then Q None (alloc_state s 2 zero_skb)
      else Q (Some (brk s)) (alloc_state s 2 (new_skb s sz)))"
  by (simp add: wp_def alloc_skb_apply)

lemma alloc_state_simps [simp]:
  "os (alloc_state s k b) = os s"
  "brk (alloc_state s k b) = brk s + k"
  "skbs (alloc_state s k b) = (skbs s)(brk s \<mapsto> b)"
  "nxt (alloc_state s k b) = (nxt s)(Skb (brk s) := None)"
  "prv (alloc_state s k b) = (prv s)(Skb (brk s) := None)"
  "qlen (alloc_state s k b) = qlen s"
  "skb_store.more (alloc_state s k b) = skb_store.more s"
  by (simp_all add: alloc_state_def)

lemma new_skb_simps [simp]:
  "skb_data (new_skb s sz) = 0" "skb_tail (new_skb s sz) = 0" "skb_head (new_skb s sz) = 0"
  "skb_end (new_skb s sz) = uint sz" "skb_len (new_skb s sz) = 0" "skb_dst (new_skb s sz) = None"
  "skb_dev (new_skb s sz) = None" "input_dev (new_skb s sz) = None" "pkt_type (new_skb s sz) = 0"
  "skb_buf (new_skb s sz) = fresh_block (os s) (brk s + 1) sz"
  by (simp_all add: new_skb_def zero_skb_def)

lemma alloc_state_upd [simp]: "(alloc_state s k b)\<lparr>skbs := (skbs s)(brk s \<mapsto> c)\<rparr> = alloc_state s k c"
  by (simp add: alloc_state_def)

lemma uint_of_nat_add_u32: "n + k < 2 ^ 32 \<Longrightarrow> uint (of_nat n + of_nat k :: u32) = int n + int k"
  using unat_of_nat_u32 [of "n + k"] by (metis of_nat_add uint_nat)

lemma sint_of_nat_u32: "n < 2 ^ 31 \<Longrightarrow> sint (of_nat n :: u32) = int n"
  by (simp only: signed_of_nat) (simp add: signed_take_bit_int_eq_self)

text \<open>Every buffer came from an earlier allocation.\<close>

definition heap_ok :: "'z skb_store_scheme \<Rightarrow> bool" where
  "heap_ok s \<longleftrightarrow> (\<forall>i. skbs s i \<noteq> None \<longrightarrow> i < brk s)"

lemma heap_okD: "heap_ok s \<Longrightarrow> skbs s i = Some b \<Longrightarrow> i \<noteq> brk s"
  by (fastforce simp: heap_ok_def)

lemma heap_ok_fresh: "heap_ok s \<Longrightarrow> skbs s (brk s) = None"
  by (cases "skbs s (brk s)") (auto simp: heap_ok_def)

lemma heap_ok_alloc_state: "heap_ok s \<Longrightarrow> 0 < k \<Longrightarrow> heap_ok (alloc_state s k b)"
  by (auto simp: heap_ok_def less_Suc_eq trans_less_add1)

lemma mem_ok_alloc_state [simp]: "mem_ok (alloc_state s k b) = mem_ok s"
  by (simp add: mem_ok_def)

section \<open>Properties\<close>

text \<open>
  C33: the window of a buffer never leaves its block and its length never disagrees with its
  ends: appending, prepending and consuming keep the geometry whatever length they are asked
  for, and reserving headroom keeps it when the requested room is there.
\<close>

theorem skb_window_invariant:
  assumes "wf_skb b"
  shows "wf_skb (snd (skb_put n b)) \<and> wf_skb (snd (skb_push n b)) \<and> wf_skb (snd (skb_pull n b)) \<and>
    (0 \<le> m \<and> skb_tail b + m \<le> skb_end b \<longrightarrow> wf_skb (snd (skb_reserve m b)))"
  using assms by (simp add: wf_skb_put wf_skb_push wf_skb_pull wf_skb_reserve)

definition skb_example :: sk_buff where
  "skb_example = zero_skb\<lparr>skb_end := 4, skb_tail := 3, skb_data := 1, skb_len := 2, skb_buf := [7, 8, 9, 10]\<rparr>"

lemma wf_skb_example: "wf_skb skb_example"
  by (simp add: wf_skb_def skb_example_def zero_skb_def)

theorem skb_window_invariant_witness:
  "wf_skb (snd (skb_put 1 skb_example)) \<and> wf_skb (snd (skb_push 1 skb_example)) \<and>
   wf_skb (snd (skb_pull 1 skb_example)) \<and> wf_skb (snd (skb_reserve 1 skb_example))"
  using skb_window_invariant [OF wf_skb_example, of 1 1]
  by (simp add: skb_example_def zero_skb_def)

text \<open>
  An operation on the window is refused exactly when the room it asks for is not there
  (behind the tail, before the data, inside the window), a refusal changes nothing, and a push
  that is granted is undone by the pull of the same length.
\<close>

lemma skb_window_room:
  assumes "wf_skb b"
  shows "(fst (skb_put n b) = None \<longleftrightarrow> skb_end b - skb_tail b < uint n) \<and>
    (fst (skb_push n b) = None \<longleftrightarrow> skb_data b < uint n) \<and>
    (fst (skb_pull n b) = None \<longleftrightarrow> skb_tail b - skb_data b < uint n) \<and>
    (fst (skb_put n b) = None \<longrightarrow> snd (skb_put n b) = b) \<and>
    (fst (skb_push n b) = None \<longrightarrow> snd (skb_push n b) = b) \<and>
    (fst (skb_pull n b) = None \<longrightarrow> snd (skb_pull n b) = b) \<and>
    (fst (skb_push n b) \<noteq> None \<longrightarrow> skb_pull n (snd (skb_push n b)) = (Some (skb_data b), b))"
proof -
  have rt: "skb_pull n (snd (skb_push n b)) = (Some (skb_data b), b)" if "fst (skb_push n b) \<noteq> None"
  proof -
    from that have le: "uint n \<le> skb_data b" and
      push: "snd (skb_push n b) = b\<lparr>skb_data := skb_data b - uint n, skb_len := skb_len b + n\<rparr>"
      using assms by (auto simp: skb_push_def wf_skb_def split: if_splits)
    have "uint (skb_len b + n) = uint (skb_len b) + uint n"
      using assms le by (intro uint_add_u32) (auto simp: wf_skb_def)
    then have "\<not> skb_len b + n < n" by (simp add: word_less_def)
    then show ?thesis by (simp add: push skb_pull_def)
  qed
  show ?thesis
    using assms by (intro conjI impI rt)
      (auto simp: skb_put_def skb_push_def skb_pull_def wf_skb_def word_less_def split: if_splits)
qed

text \<open>
  \<^verbatim>\<open>skb_reserve\<close> tests the data pointer and not the tail, so on a buffer that already holds
  data it can move the tail past the end of the block.
\<close>

lemma skb_reserve_overruns:
  "wf_skb skb_example \<and> skb_end skb_example < skb_tail (snd (skb_reserve 3 skb_example))"
  by (simp add: wf_skb_example) (simp add: skb_example_def zero_skb_def skb_reserve_def)

end
