(* ===== verification/Skb_Queue.thy ===== *)
theory Skb_Queue
  imports Skbuff
begin

text \<open>
  The circular doubly linked lists of buffers (\<^verbatim>\<open>struct sk_buff_head\<close> and the queue functions
  of \<^verbatim>\<open>core/skbuff.c\<close>), at the level of the links the code reads and writes. The abstraction
  \<open>queue_rep\<close> says that the links reachable from a list head spell a list of buffers; the
  locale \<open>fifo_queue\<close> is the contract the rest of the stack relies on.
\<close>

section \<open>Links\<close>

definition valid_node :: "('z skb_store_scheme) \<Rightarrow> node \<Rightarrow> bool" where
  "valid_node s x = (case x of Skb i \<Rightarrow> skbs s i \<noteq> None | _ \<Rightarrow> True)"

definition deref_node :: "node option \<Rightarrow> ('z skb_store_scheme, node) comp" where
  "deref_node p = bindM (nonnull p) (\<lambda>x. bindM (getsM (\<lambda>s. valid_node s x)) (\<lambda>v.
     bindM (checkM v Bad_pointer) (\<lambda>_. returnM x)))"

definition get_next :: "node option \<Rightarrow> ('z skb_store_scheme, node option) comp" where
  "get_next p = bindM (deref_node p) (\<lambda>x. getsM (\<lambda>s. nxt s x))"

definition get_prev :: "node option \<Rightarrow> ('z skb_store_scheme, node option) comp" where
  "get_prev p = bindM (deref_node p) (\<lambda>x. getsM (\<lambda>s. prv s x))"

definition set_next :: "node option \<Rightarrow> node option \<Rightarrow> ('z skb_store_scheme, unit) comp" where
  "set_next p v = bindM (deref_node p) (\<lambda>x. modifyM (\<lambda>s. s\<lparr>nxt := (nxt s)(x := v)\<rparr>))"

definition set_prev :: "node option \<Rightarrow> node option \<Rightarrow> ('z skb_store_scheme, unit) comp" where
  "set_prev p v = bindM (deref_node p) (\<lambda>x. modifyM (\<lambda>s. s\<lparr>prv := (prv s)(x := v)\<rparr>))"

text \<open>A list node used as a buffer: a list head is not one.\<close>

definition as_skb :: "node \<Rightarrow> ('z skb_store_scheme, nat) comp" where
  "as_skb x = (case x of Skb i \<Rightarrow> returnM i | _ \<Rightarrow> failM Bad_pointer)"

section \<open>The queue functions\<close>

definition skb_queue_head_init :: "node \<Rightarrow> ('z skb_store_scheme, unit) comp" where
  "skb_queue_head_init list =
     bindM (set_next (Some list) (Some list)) (\<lambda>_.
     bindM (set_prev (Some list) (Some list)) (\<lambda>_.
     modifyM (\<lambda>s. s\<lparr>qlen := (qlen s)(list := 0)\<rparr>)))"

definition skb_queue_head :: "node \<Rightarrow> node \<Rightarrow> ('z skb_store_scheme, unit) comp" where
  "skb_queue_head list newsk =
     bindM (get_next (Some list)) (\<lambda>next.
     bindM (set_prev next (Some newsk)) (\<lambda>_.
     bindM (set_next (Some list) (Some newsk)) (\<lambda>_.
     bindM (set_prev (Some newsk) (Some list)) (\<lambda>_.
     set_next (Some newsk) next))))"

definition skb_queue_tail :: "node \<Rightarrow> node \<Rightarrow> ('z skb_store_scheme, unit) comp" where
  "skb_queue_tail list newsk =
     bindM (get_prev (Some list)) (\<lambda>prev.
     bindM (set_next prev (Some newsk)) (\<lambda>_.
     bindM (set_prev (Some list) (Some newsk)) (\<lambda>_.
     bindM (set_prev (Some newsk) prev) (\<lambda>_.
     set_next (Some newsk) (Some list)))))"

definition skb_peek :: "node \<Rightarrow> ('z skb_store_scheme, node option) comp" where
  "skb_peek list = get_next (Some list)"

definition skb_dequeue :: "node \<Rightarrow> ('z skb_store_scheme, node option) comp" where
  "skb_dequeue list =
     bindM (get_next (Some list)) (\<lambda>next.
     if next \<noteq> Some list then
       bindM (get_next next) (\<lambda>next2.
       bindM (set_prev next2 (Some list)) (\<lambda>_.
       bindM (set_next (Some list) next2) (\<lambda>_.
       bindM (set_prev next None) (\<lambda>_.
       bindM (set_next next None) (\<lambda>_.
       returnM next)))))
     else returnM None)"

text \<open>The pointer a caller of \<^verbatim>\<open>skb_dequeue\<close> works with, typed as a buffer.\<close>

definition dequeue_skb :: "node \<Rightarrow> ('z skb_store_scheme, nat option) comp" where
  "dequeue_skb list = bindM (skb_dequeue list) (\<lambda>skb. case skb of
       None \<Rightarrow> returnM None
     | Some x \<Rightarrow> bindM (as_skb x) (\<lambda>i. returnM (Some i)))"

section \<open>Representation\<close>

text \<open>\<open>seg N P a xs b\<close>: following next from \<open>a\<close> visits \<open>xs\<close> and arrives at \<open>b\<close>, and prev runs back.\<close>

fun seg :: "(node \<Rightarrow> node option) \<Rightarrow> (node \<Rightarrow> node option) \<Rightarrow> node \<Rightarrow> node list \<Rightarrow> node \<Rightarrow> bool" where
  "seg N P a [] b \<longleftrightarrow> N a = Some b \<and> P b = Some a"
| "seg N P a (x # xs) b \<longleftrightarrow> N a = Some x \<and> P x = Some a \<and> seg N P x xs b"

definition is_head :: "node \<Rightarrow> bool" where
  "is_head q = (case q of Skb i \<Rightarrow> False | _ \<Rightarrow> True)"

definition queue_rep :: "('z skb_store_scheme) \<Rightarrow> node \<Rightarrow> nat list \<Rightarrow> bool" where
  "queue_rep s q xs \<longleftrightarrow> is_head q \<and> seg (nxt s) (prv s) q (map Skb xs) q \<and> distinct xs \<and>
     (\<forall>i \<in> set xs. skbs s i \<noteq> None)"

lemma is_head_neq [simp]: "is_head q \<Longrightarrow> q \<noteq> Skb i" "is_head q \<Longrightarrow> Skb i \<noteq> q"
  by (auto simp: is_head_def)

lemma is_head_simps [simp]:
  "is_head (Arp_queue k)" "is_head (Write_queue k)" "is_head (Receive_queue k)" "\<not> is_head (Skb k)"
  by (simp_all add: is_head_def)

lemma valid_node_head [simp]: "is_head q \<Longrightarrow> valid_node s q"
  by (auto simp: is_head_def valid_node_def split: node.splits)

lemma valid_node_Skb [simp]: "valid_node s (Skb i) \<longleftrightarrow> skbs s i \<noteq> None"
  by (simp add: valid_node_def)

lemma seg_append: "seg N P a (xs @ x # ys) b \<longleftrightarrow> seg N P a xs x \<and> seg N P x ys b"
  by (induction xs arbitrary: a) auto

lemma seg_next_upd:
  "y \<noteq> a \<Longrightarrow> y \<notin> set xs \<Longrightarrow> seg (N(y := v)) P a xs b = seg N P a xs b"
  by (induction xs arbitrary: a) auto

lemma seg_prev_upd:
  "y \<noteq> b \<Longrightarrow> y \<notin> set xs \<Longrightarrow> seg N (P(y := v)) a xs b = seg N P a xs b"
  by (induction xs arbitrary: a) auto

lemma seg_last: "seg N P a xs b \<Longrightarrow> P b = Some (last (a # xs))"
  by (induction xs arbitrary: a) auto

lemma seg_first: "seg N P a xs b \<Longrightarrow> N a = Some (hd (xs @ [b]))"
  by (cases xs) auto

text \<open>The links of a list determine it.\<close>

lemma seg_unique: "seg N P q (map Skb xs) q \<Longrightarrow> seg N P q (map Skb ys) q \<Longrightarrow> is_head q \<Longrightarrow> xs = ys"
proof -
  have "seg N P a (map Skb xs) q \<Longrightarrow> seg N P a (map Skb ys) q \<Longrightarrow> is_head q \<Longrightarrow> xs = ys" for a
  proof (induction xs arbitrary: a ys)
    case Nil
    then show ?case by (cases ys) auto
  next
    case (Cons x xs)
    then show ?case by (cases ys) auto
  qed
  then show "seg N P q (map Skb xs) q \<Longrightarrow> seg N P q (map Skb ys) q \<Longrightarrow> is_head q \<Longrightarrow> xs = ys" .
qed

lemma queue_rep_unique: "queue_rep s q xs \<Longrightarrow> queue_rep s q ys \<Longrightarrow> xs = ys"
  by (auto simp: queue_rep_def dest: seg_unique)

text \<open>Two queues with different heads share no buffer.\<close>

lemma seg_prev_nth:
  "seg N P a (map Skb xs) b \<Longrightarrow> k < length xs \<Longrightarrow>
     P (Skb (xs ! k)) = Some (if k = 0 then a else Skb (xs ! (k - 1)))"
proof (induction xs arbitrary: a k)
  case (Cons x xs)
  then show ?case by (cases k) (auto simp: nth_Cons')
qed simp

lemma queue_rep_disjoint:
  assumes "queue_rep s q xs" and "queue_rep s q' ys" and "q \<noteq> q'"
  shows "set xs \<inter> set ys = {}"
proof -
  have q: "is_head q" "is_head q'" and
    seg: "seg (nxt s) (prv s) q (map Skb xs) q" "seg (nxt s) (prv s) q' (map Skb ys) q'"
    using assms by (simp_all add: queue_rep_def)
  have "xs ! k \<notin> set ys" if "k < length xs" for k
    using that
  proof (induction k)
    case 0
    show ?case
    proof
      assume "xs ! 0 \<in> set ys"
      then obtain j where "j < length ys" "ys ! j = xs ! 0" by (auto simp: in_set_conv_nth)
      then show False
        using seg_prev_nth [OF seg(1) 0] seg_prev_nth [OF seg(2), of j] q assms(3)
        by (auto split: if_splits)
    qed
  next
    case (Suc k)
    show ?case
    proof
      assume "xs ! Suc k \<in> set ys"
      then obtain j where j: "j < length ys" "ys ! j = xs ! Suc k" by (auto simp: in_set_conv_nth)
      then have "j \<noteq> 0 \<and> ys ! (j - 1) = xs ! k"
        using seg_prev_nth [OF seg(1) Suc.prems] seg_prev_nth [OF seg(2) j(1)] q
        by (auto split: if_splits)
      then have "xs ! k \<in> set ys" using j(1) by (metis less_imp_diff_less nth_mem)
      with Suc show False by simp
    qed
  qed
  then show ?thesis by (auto simp: in_set_conv_nth)
qed

section \<open>Frames\<close>

lemma seg_cong:
  "(\<And>x. x \<in> insert a (set xs) \<Longrightarrow> N' x = N x) \<Longrightarrow> (\<And>x. x \<in> insert b (set xs) \<Longrightarrow> P' x = P x) \<Longrightarrow>
     seg N' P' a xs b = seg N P a xs b"
  by (induction xs arbitrary: a) auto

lemma queue_rep_frame:
  assumes "queue_rep s q ys"
    and "\<And>x. x \<in> insert q (Skb ` set ys) \<Longrightarrow> nxt t x = nxt s x \<and> prv t x = prv s x"
    and "\<And>i. i \<in> set ys \<Longrightarrow> skbs t i \<noteq> None"
  shows "queue_rep t q ys"
proof -
  have "seg (nxt t) (prv t) q (map Skb ys) q = seg (nxt s) (prv s) q (map Skb ys) q"
    using assms(2) by (intro seg_cong) auto
  with assms show ?thesis by (simp add: queue_rep_def)
qed

section \<open>The functions on a represented queue\<close>

lemma deref_node_apply [comp_simps]: "valid_node s x \<Longrightarrow> deref_node (Some x) s = Inr (x, s)"
  by (simp add: deref_node_def comp_simps)

lemma link_apply [comp_simps]:
  "valid_node s x \<Longrightarrow> get_next (Some x) s = Inr (nxt s x, s)"
  "valid_node s x \<Longrightarrow> get_prev (Some x) s = Inr (prv s x, s)"
  "valid_node s x \<Longrightarrow> set_next (Some x) v s = Inr ((), s\<lparr>nxt := (nxt s)(x := v)\<rparr>)"
  "valid_node s x \<Longrightarrow> set_prev (Some x) v s = Inr ((), s\<lparr>prv := (prv s)(x := v)\<rparr>)"
  by (simp_all add: get_next_def get_prev_def set_next_def set_prev_def comp_simps)

lemma valid_node_links [simp]:
  "valid_node (s\<lparr>nxt := f\<rparr>) x = valid_node s x" "valid_node (s\<lparr>prv := f\<rparr>) x = valid_node s x"
  by (auto simp: valid_node_def split: node.split)

definition enq_state :: "('z skb_store_scheme) \<Rightarrow> node \<Rightarrow> nat \<Rightarrow> ('z skb_store_scheme)" where
  "enq_state s q n = s\<lparr>nxt := (nxt s)(the (prv s q) := Some (Skb n), Skb n := Some q),
     prv := (prv s)(q := Some (Skb n), Skb n := prv s q)\<rparr>"

definition push_state :: "('z skb_store_scheme) \<Rightarrow> node \<Rightarrow> nat \<Rightarrow> ('z skb_store_scheme)" where
  "push_state s q n = s\<lparr>prv := (prv s)(the (nxt s q) := Some (Skb n), Skb n := Some q),
     nxt := (nxt s)(q := Some (Skb n), Skb n := nxt s q)\<rparr>"

definition deq_state :: "('z skb_store_scheme) \<Rightarrow> node \<Rightarrow> nat \<Rightarrow> ('z skb_store_scheme)" where
  "deq_state s q x = s\<lparr>prv := (prv s)(the (nxt s (Skb x)) := Some q, Skb x := None),
     nxt := (nxt s)(q := nxt s (Skb x), Skb x := None)\<rparr>"

lemma queue_rep_prev:
  assumes "queue_rep s q xs"
  shows "prv s q = Some (last (q # map Skb xs))" "valid_node s (last (q # map Skb xs))"
  using assms seg_last [of "nxt s" "prv s" q "map Skb xs" q]
  by (auto simp: queue_rep_def last_map)

lemma skb_queue_tail_apply:
  assumes "queue_rep s q xs" and "skbs s n \<noteq> None"
  shows "skb_queue_tail q (Skb n) s = Inr ((), enq_state s q n)"
proof -
  have "is_head q" using assms(1) by (simp add: queue_rep_def)
  then show ?thesis
    using assms(2) queue_rep_prev [OF assms(1)]
    by (simp add: skb_queue_tail_def comp_simps enq_state_def)
qed

lemma enq_state_rep:
  assumes "queue_rep s q xs" and "skbs s n \<noteq> None" and "n \<notin> set xs"
  shows "queue_rep (enq_state s q n) q (xs @ [n])"
proof (cases xs rule: rev_cases)
  case Nil
  with assms show ?thesis by (simp add: queue_rep_def enq_state_def)
next
  case (snoc ys y)
  with assms have q: "is_head q" "prv s q = Some (Skb y)" "y \<notin> set ys" "n \<notin> set ys" "n \<noteq> y"
    "seg (nxt s) (prv s) q (map Skb ys) (Skb y)"
    by (auto simp: queue_rep_def seg_append)
  let ?t = "enq_state s q n"
  have "seg (nxt ?t) (prv ?t) q (map Skb ys) (Skb y) = seg (nxt s) (prv s) q (map Skb ys) (Skb y)"
    using q by (intro seg_cong) (auto simp: enq_state_def)
  with q assms snoc show ?thesis
    by (auto simp: queue_rep_def seg_append enq_state_def)
qed

lemma enq_state_frame:
  assumes "queue_rep s q xs" and "queue_rep s p ys" and "p \<noteq> q" and "n \<notin> set ys"
  shows "queue_rep (enq_state s q n) p ys"
proof (rule queue_rep_frame [OF assms(2)])
  obtain l where l: "prv s q = Some l" "l \<in> insert q (Skb ` set xs)"
    using queue_rep_prev(1) [OF assms(1)] last_in_set [of "q # map Skb xs"] by auto
  then have "l \<notin> insert p (Skb ` set ys)"
    using assms queue_rep_disjoint [OF assms(1,2)] by (auto simp: queue_rep_def)
  then show "nxt (enq_state s q n) x = nxt s x \<and> prv (enq_state s q n) x = prv s x"
    if "x \<in> insert p (Skb ` set ys)" for x
    using that assms l by (auto simp: enq_state_def queue_rep_def)
  show "skbs (enq_state s q n) i \<noteq> None" if "i \<in> set ys" for i
    using that assms(2) by (simp add: enq_state_def queue_rep_def)
qed

lemma queue_rep_next:
  assumes "queue_rep s q xs"
  shows "nxt s q = Some (hd (map Skb xs @ [q]))" "valid_node s (hd (map Skb xs @ [q]))"
  using assms seg_first [of "nxt s" "prv s" q "map Skb xs" q]
  by (auto simp: queue_rep_def hd_append hd_map)

lemma skb_queue_head_apply:
  assumes "queue_rep s q xs" and "skbs s n \<noteq> None"
  shows "skb_queue_head q (Skb n) s = Inr ((), push_state s q n)"
proof -
  have "is_head q" using assms(1) by (simp add: queue_rep_def)
  then show ?thesis
    using assms(2) queue_rep_next [OF assms(1)]
    by (simp add: skb_queue_head_def comp_simps push_state_def)
qed

lemma push_state_rep:
  assumes "queue_rep s q xs" and "skbs s n \<noteq> None" and "n \<notin> set xs"
  shows "queue_rep (push_state s q n) q (n # xs)"
proof (cases xs)
  case Nil
  with assms show ?thesis by (simp add: queue_rep_def push_state_def)
next
  case (Cons y ys)
  with assms have q: "is_head q" "nxt s q = Some (Skb y)" "y \<notin> set ys" "n \<notin> set ys" "n \<noteq> y"
    "seg (nxt s) (prv s) (Skb y) (map Skb ys) q"
    by (auto simp: queue_rep_def)
  let ?t = "push_state s q n"
  have "seg (nxt ?t) (prv ?t) (Skb y) (map Skb ys) q = seg (nxt s) (prv s) (Skb y) (map Skb ys) q"
    using q by (intro seg_cong) (auto simp: push_state_def)
  with q assms Cons show ?thesis
    by (auto simp: queue_rep_def push_state_def)
qed

lemma skb_dequeue_empty: "queue_rep s q [] \<Longrightarrow> skb_dequeue q s = Inr (None, s)"
  by (simp add: queue_rep_def skb_dequeue_def comp_simps)

lemma skb_dequeue_apply:
  assumes "queue_rep s q (x # xs)"
  shows "skb_dequeue q s = Inr (Some (Skb x), deq_state s q x)"
proof -
  have q: "is_head q" "nxt s q = Some (Skb x)" "skbs s x \<noteq> None"
    using assms by (auto simp: queue_rep_def)
  have "nxt s (Skb x) = Some (hd (map Skb xs @ [q]))" "valid_node s (hd (map Skb xs @ [q]))"
    using assms by (cases xs; auto simp: queue_rep_def)+
  with q show ?thesis
    by (simp add: skb_dequeue_def comp_simps deq_state_def fun_upd_twist)
qed

lemma deq_state_rep:
  assumes "queue_rep s q (x # xs)"
  shows "queue_rep (deq_state s q x) q xs"
proof (cases xs)
  case Nil
  with assms show ?thesis by (simp add: queue_rep_def deq_state_def)
next
  case (Cons y ys)
  with assms have q: "is_head q" "nxt s (Skb x) = Some (Skb y)" "y \<notin> set ys" "x \<notin> set ys" "x \<noteq> y"
    "seg (nxt s) (prv s) (Skb y) (map Skb ys) q"
    by (auto simp: queue_rep_def)
  let ?t = "deq_state s q x"
  have "seg (nxt ?t) (prv ?t) (Skb y) (map Skb ys) q = seg (nxt s) (prv s) (Skb y) (map Skb ys) q"
    using q by (intro seg_cong) (auto simp: deq_state_def)
  with q assms Cons show ?thesis
    by (auto simp: queue_rep_def deq_state_def)
qed

lemma deq_state_frame:
  assumes "queue_rep s q (x # xs)" and "queue_rep s p ys" and "p \<noteq> q"
  shows "queue_rep (deq_state s q x) p ys"
proof (rule queue_rep_frame [OF assms(2)])
  obtain l where l: "nxt s (Skb x) = Some l" "l \<in> insert q (Skb ` set xs)"
    using assms(1) by (cases xs) (auto simp: queue_rep_def)
  then have "l \<notin> insert p (Skb ` set ys)" "Skb x \<notin> insert p (Skb ` set ys)"
    using assms queue_rep_disjoint [OF assms(1,2)] by (auto simp: queue_rep_def)
  then show "nxt (deq_state s q x) y = nxt s y \<and> prv (deq_state s q x) y = prv s y"
    if "y \<in> insert p (Skb ` set ys)" for y
    using that assms l by (auto simp: deq_state_def queue_rep_def)
  show "skbs (deq_state s q x) i \<noteq> None" if "i \<in> set ys" for i
    using that assms(2) by (simp add: deq_state_def queue_rep_def)
qed

lemma queue_state_simps [simp]:
  "skbs (enq_state s q n) = skbs s" "skbs (deq_state s q n) = skbs s" "skbs (push_state s q n) = skbs s"
  "brk (enq_state s q n) = brk s" "brk (deq_state s q n) = brk s"
  "os (enq_state s q n) = os s" "os (deq_state s q n) = os s"
  "qlen (enq_state s q n) = qlen s" "qlen (deq_state s q n) = qlen s"
  "skb_store.more (enq_state s q n) = skb_store.more s"
  "skb_store.more (deq_state s q n) = skb_store.more s"
  by (simp_all add: enq_state_def deq_state_def push_state_def)

lemma queue_rep_skb_upd:
  assumes "queue_rep s q xs"
  shows "queue_rep (s\<lparr>skbs := (skbs s)(i \<mapsto> b)\<rparr>) q xs"
  by (rule queue_rep_frame [OF assms]) (use assms in \<open>auto simp: queue_rep_def\<close>)

lemma queue_rep_alloc_state:
  assumes "queue_rep s q xs" "heap_ok s"
  shows "queue_rep (alloc_state s k b) q xs"
proof (rule queue_rep_frame [OF assms(1)])
  have fresh: "brk s \<notin> set xs" and q: "is_head q" using assms by (fastforce simp: queue_rep_def heap_ok_def)+
  then show "nxt (alloc_state s k b) y = nxt s y \<and> prv (alloc_state s k b) y = prv s y" if "y \<in> insert q (Skb ` set xs)" for y
    using that by auto
  show "skbs (alloc_state s k b) j \<noteq> None" if "j \<in> set xs" for j
    using that fresh assms(1) by (auto simp: queue_rep_def)
qed

lemma mem_ok_queue_state [simp]: "mem_ok (enq_state s q n) = mem_ok s" "mem_ok (deq_state s q n) = mem_ok s"
  by (simp_all add: mem_ok_def)

section \<open>The contract of a queue\<close>

text \<open>
  What the neighbour layer, the socket layer and the output path rely on: a queue stands for a
  list, appending a live element extends the list at its end, removing returns the elements
  from the front, and an operation on one queue leaves the other queues as they are.
\<close>

locale fifo_queue =
  fixes rep :: "'s \<Rightarrow> 'q \<Rightarrow> 'a list \<Rightarrow> bool"
    and live :: "'s \<Rightarrow> 'a \<Rightarrow> bool"
    and enq :: "'q \<Rightarrow> 'a \<Rightarrow> ('s, unit) comp"
    and deq :: "'q \<Rightarrow> ('s, 'a option) comp"
  assumes enq_rep: "rep s q xs \<Longrightarrow> live s a \<Longrightarrow> a \<notin> set xs \<Longrightarrow>
      wp (enq q a) (\<lambda>_ t. rep t q (xs @ [a]) \<and> live t = live s) s"
    and enq_frame: "rep s q xs \<Longrightarrow> live s a \<Longrightarrow> rep s p ys \<Longrightarrow> p \<noteq> q \<Longrightarrow> a \<notin> set ys \<Longrightarrow>
      wp (enq q a) (\<lambda>_ t. rep t p ys) s"
    and deq_nil: "rep s q [] \<Longrightarrow> wp (deq q) (\<lambda>r t. r = None \<and> t = s) s"
    and deq_cons: "rep s q (x # xs) \<Longrightarrow>
      wp (deq q) (\<lambda>r t. r = Some x \<and> rep t q xs \<and> live t = live s) s"
    and deq_frame: "rep s q (x # xs) \<Longrightarrow> rep s p ys \<Longrightarrow> p \<noteq> q \<Longrightarrow> wp (deq q) (\<lambda>r t. rep t p ys) s"

text \<open>Sequences of operations on one queue, used to state its order.\<close>

primrec enq_all :: "('q \<Rightarrow> 'a \<Rightarrow> ('s, unit) comp) \<Rightarrow> 'q \<Rightarrow> 'a list \<Rightarrow> ('s, unit) comp" where
  "enq_all enq q [] = returnM ()"
| "enq_all enq q (x # xs) = bindM (enq q x) (\<lambda>_. enq_all enq q xs)"

primrec deq_many :: "('q \<Rightarrow> ('s, 'a option) comp) \<Rightarrow> 'q \<Rightarrow> nat \<Rightarrow> ('s, 'a option list) comp" where
  "deq_many deq q 0 = returnM []"
| "deq_many deq q (Suc n) = bindM (deq q) (\<lambda>r. bindM (deq_many deq q n) (\<lambda>rs. returnM (r # rs)))"

context fifo_queue
begin

lemma enq_all_rep:
  "rep s q xs \<Longrightarrow> distinct (xs @ ys) \<Longrightarrow> \<forall>y \<in> set ys. live s y \<Longrightarrow>
     wp (enq_all enq q ys) (\<lambda>_ t. rep t q (xs @ ys)) s"
proof (induction ys arbitrary: s xs)
  case Nil
  then show ?case by (simp add: wp_simps)
next
  case (Cons y ys)
  then have "wp (enq q y) (\<lambda>_ t. rep t q (xs @ [y]) \<and> live t = live s) s"
    by (intro enq_rep) auto
  then show ?case
    unfolding enq_all.simps
  proof (rule wp_bindM_I)
    fix t assume "rep t q (xs @ [y]) \<and> live t = live s"
    with Cons.prems show "wp (enq_all enq q ys) (\<lambda>_ t. rep t q (xs @ y # ys)) t"
      using Cons.IH [of t "xs @ [y]"] by simp
  qed
qed

lemma deq_many_rep:
  "rep s q xs \<Longrightarrow> wp (deq_many deq q (length xs + 1)) (\<lambda>rs t. rs = map Some xs @ [None] \<and> rep t q []) s"
proof (induction xs arbitrary: s)
  case Nil
  then show ?case using deq_nil [OF Nil] by (auto simp: wp_simps elim!: wp_mono)
next
  case (Cons x xs)
  have "wp (bindM (deq q) (\<lambda>r. bindM (deq_many deq q (length xs + 1)) (\<lambda>rs. returnM (r # rs))))
      (\<lambda>rs t. rs = map Some (x # xs) @ [None] \<and> rep t q []) s"
    using deq_cons [OF Cons.prems]
  proof (rule wp_bindM_I)
    fix r t assume "r = Some x \<and> rep t q xs \<and> live t = live s"
    then show "wp (bindM (deq_many deq q (length xs + 1)) (\<lambda>rs. returnM (r # rs)))
        (\<lambda>rs t. rs = map Some (x # xs) @ [None] \<and> rep t q []) t"
      using Cons.IH [of t] by (auto simp: wp_simps elim!: wp_mono)
  qed
  then show ?case by simp
qed

lemma fifo_order:
  assumes "rep s q xs" and "distinct (xs @ ys)" and "\<forall>y \<in> set ys. live s y"
  shows "wp (bindM (enq_all enq q ys) (\<lambda>_. deq_many deq q (length (xs @ ys) + 1)))
    (\<lambda>rs t. rs = map Some (xs @ ys) @ [None] \<and> rep t q []) s"
  using enq_all_rep [OF assms] by (rule wp_bindM_I) (rule deq_many_rep)

end

definition live_skb :: "('z skb_store_scheme) \<Rightarrow> nat \<Rightarrow> bool" where
  "live_skb s i \<longleftrightarrow> skbs s i \<noteq> None"

lemma dequeue_skb_empty: "queue_rep s q [] \<Longrightarrow> dequeue_skb q s = Inr (None, s)"
  by (simp add: dequeue_skb_def skb_dequeue_empty comp_simps)

lemma dequeue_skb_apply: "queue_rep s q (x # xs) \<Longrightarrow> dequeue_skb q s = Inr (Some x, deq_state s q x)"
  by (simp add: dequeue_skb_def skb_dequeue_apply as_skb_def comp_simps)

interpretation skbq: fifo_queue queue_rep live_skb "\<lambda>q i. skb_queue_tail q (Skb i)" dequeue_skb
  by unfold_locales
    (auto simp: wp_def live_skb_def fun_eq_iff skb_queue_tail_apply dequeue_skb_empty
      dequeue_skb_apply enq_state_rep deq_state_rep enq_state_frame deq_state_frame)

section \<open>What an operation leaves alone\<close>

text \<open>
  \<open>mem_frame Q I s t\<close>: from \<open>s\<close> to \<open>t\<close> only the queues in \<open>Q\<close> and the buffers in \<open>I\<close> have changed.
  A buffer that is on no queue has no successor.
\<close>

definition mem_frame :: "node set \<Rightarrow> nat set \<Rightarrow> 'z skb_store_scheme \<Rightarrow> 'z skb_store_scheme \<Rightarrow> bool" where
  "mem_frame Q I s t \<longleftrightarrow> os t = os s \<and> brk s \<le> brk t \<and> (heap_ok s \<longrightarrow> heap_ok t) \<and>
     (\<forall>j. j \<notin> I \<and> skbs s j \<noteq> None \<longrightarrow> skbs t j = skbs s j \<and> (nxt s (Skb j) = None \<longrightarrow> nxt t (Skb j) = None)) \<and>
     (\<forall>q ys. q \<notin> Q \<and> set ys \<inter> I = {} \<and> queue_rep s q ys \<longrightarrow> queue_rep t q ys)"

lemma queue_rep_linked: "queue_rep s q xs \<Longrightarrow> nxt s (Skb i) = None \<Longrightarrow> i \<notin> set xs"
proof -
  have "seg N P a (map Skb xs) b \<Longrightarrow> N (Skb i) = None \<Longrightarrow> i \<notin> set xs" for N P a b
    by (induction xs arbitrary: a; fastforce elim: seg.elims)
  then show "queue_rep s q xs \<Longrightarrow> nxt s (Skb i) = None \<Longrightarrow> i \<notin> set xs" by (auto simp: queue_rep_def)
qed

lemma mem_frame_trans:
  assumes "mem_frame Q I s t" "mem_frame Q I t u"
  shows "mem_frame Q I s u"
  using assms unfolding mem_frame_def by (metis order_trans)

lemma mem_frame_mono: "mem_frame Q I s t \<Longrightarrow> Q \<subseteq> Q' \<Longrightarrow> I \<subseteq> I' \<Longrightarrow> mem_frame Q' I' s t"
  unfolding mem_frame_def by (elim conjE, intro conjI) (assumption | blast)+

lemma mem_frame_same:
  assumes "os t = os s" "brk s \<le> brk t" "skbs t = skbs s" "nxt t = nxt s" "prv t = prv s"
  shows "mem_frame Q I s t"
  using assms by (auto simp: mem_frame_def queue_rep_def heap_ok_def intro: less_le_trans)

lemma mem_frame_skb:
  assumes "os t = os s" "brk t = brk s" "nxt t = nxt s" "prv t = prv s" "skbs t = (skbs s)(i := v)" "skbs s i \<noteq> None"
  shows "mem_frame Q {i} s t"
proof -
  have "queue_rep t q ys" if "i \<notin> set ys" "queue_rep s q ys" for q ys
    by (rule queue_rep_frame [OF that(2)]) (use that assms in \<open>auto simp: queue_rep_def\<close>)
  then show ?thesis using assms by (auto simp: mem_frame_def heap_ok_def)
qed

lemma mem_frame_alloc:
  assumes "heap_ok s" "0 < k"
  shows "mem_frame Q I s (alloc_state s k b)"
  using assms heap_okD [OF assms(1)] heap_ok_alloc_state [OF assms] queue_rep_alloc_state [OF _ assms(1)]
  by (auto simp: mem_frame_def)

text \<open>A buffer that did not exist before.\<close>

lemma mem_frame_fresh:
  assumes "mem_frame Q {i} s t" "skbs s i = None"
  shows "mem_frame Q {} s t"
proof -
  have "i \<notin> set ys" if "queue_rep s q ys" for q ys using that assms(2) by (auto simp: queue_rep_def)
  moreover have "j \<noteq> i" if "skbs s j = Some b" for j b using that assms(2) by auto
  ultimately show ?thesis using assms(1) unfolding mem_frame_def by fastforce
qed

lemma mem_frame_enq:
  assumes "queue_rep s q xs"
  shows "mem_frame {q} {n} s (enq_state s q n)"
proof -
  have nxt: "nxt (enq_state s q n) (Skb j) = None" if "nxt s (Skb j) = None" "j \<noteq> n" for j
  proof -
    have "j \<notin> set xs" "is_head q" using queue_rep_linked [OF assms that(1)] assms by (auto simp: queue_rep_def)
    then have "Skb j \<noteq> last (q # map Skb xs)" using last_in_set [of "q # map Skb xs"] by auto
    with that queue_rep_prev(1) [OF assms] show ?thesis by (simp add: enq_state_def)
  qed
  then show ?thesis
    using enq_state_frame [OF assms] by (auto simp: mem_frame_def heap_ok_def)
qed

lemma mem_frame_deq:
  assumes "queue_rep s q (x # xs)"
  shows "mem_frame {q} {x} s (deq_state s q x)"
  using assms deq_state_frame [OF assms] by (auto simp: mem_frame_def heap_ok_def deq_state_def queue_rep_def)

section \<open>Properties\<close>


definition example_env :: os_env where
  "example_env = \<lparr>malloc_ok = (\<lambda>_. True), malloc_junk = (\<lambda>_ _. 0), malloc_ptr = (\<lambda>_. None),
     write_ret = (\<lambda>_ bs. int (length bs))\<rparr>"

text \<open>An empty receive queue and two buffers outside it.\<close>

definition example_queue :: skb_store where
  "example_queue = \<lparr>os = example_env, brk = 2, skbs = [0 \<mapsto> zero_skb, 1 \<mapsto> zero_skb],
     nxt = (\<lambda>_. None)(Receive_queue 7 := Some (Receive_queue 7)),
     prv = (\<lambda>_. None)(Receive_queue 7 := Some (Receive_queue 7)), qlen = (\<lambda>_. 0)\<rparr>"

lemma example_queue_rep: "queue_rep example_queue (Receive_queue 7) []"
  by (simp add: queue_rep_def example_queue_def)


text \<open>
  C32: queues are first in, first out. Buffers appended behind those already waiting come out in
  the order of arrival, each exactly once, and then the queue is empty.
\<close>

theorem skb_queue_fifo:
  assumes "queue_rep s q xs" and "distinct (xs @ ys)" and "\<forall>y \<in> set ys. live_skb s y"
  shows "wp (bindM (enq_all (\<lambda>q i. skb_queue_tail q (Skb i)) q ys)
      (\<lambda>_. deq_many dequeue_skb q (length (xs @ ys) + 1)))
    (\<lambda>rs t. rs = map Some (xs @ ys) @ [None] \<and> queue_rep t q []) s"
  using assms by (rule skbq.fifo_order)

theorem skb_queue_fifo_witness:
  "wp (bindM (enq_all (\<lambda>q i. skb_queue_tail q (Skb i)) (Receive_queue 7) [1, 0])
      (\<lambda>_. deq_many dequeue_skb (Receive_queue 7) (length ([] @ [1, 0 :: nat]) + 1)))
    (\<lambda>rs t. rs = map Some ([] @ [1, 0]) @ [None] \<and> queue_rep t (Receive_queue 7) []) example_queue"
  by (rule skb_queue_fifo [OF example_queue_rep]) (simp_all add: live_skb_def example_queue_def)

text \<open>
  \<^verbatim>\<open>skb_peek\<close> on an empty queue returns the list head itself, not NULL, and no queue function
  updates the counter \<open>qlen\<close>.
\<close>

lemma skb_peek_empty: "queue_rep s q [] \<Longrightarrow> skb_peek q s = Inr (Some q, s)"
  by (simp add: queue_rep_def skb_peek_def comp_simps)

lemma skb_peek_apply: "queue_rep s q (x # xs) \<Longrightarrow> skb_peek q s = Inr (Some (Skb x), s)"
  by (simp add: queue_rep_def skb_peek_def comp_simps)

end
