(* ===== verification/Netdevice.thy ===== *)
theory Netdevice
  imports Skb_Queue
begin

text \<open>
  Network devices and their addresses: \<^verbatim>\<open>core/dev.c\<close> (allocation, registration, lookup,
  packet types, transmission), \<^verbatim>\<open>ipv4/devinet.c\<close> and the transmit side of
  \<^verbatim>\<open>driver/ethernet.c\<close>. The receive entry points, which call the protocols, are in
  \<open>Stack\<close>.
\<close>

section \<open>Constants\<close>

text \<open>The frame sizes and protocol numbers of \<^verbatim>\<open>if_ether.h\<close>, \<^verbatim>\<open>if_arp.h\<close>, \<^verbatim>\<open>if_packet.h\<close>.\<close>

abbreviation (input) "ETH_ALEN \<equiv> 6"
abbreviation (input) "ETH_HLEN \<equiv> 14"
abbreviation (input) "ETH_DATA_LEN \<equiv> 1500"
abbreviation (input) "ETH_P_IP \<equiv> (0x0800 :: u16)"
abbreviation (input) "ETH_P_ARP \<equiv> (0x0806 :: u16)"
abbreviation (input) "ARPHRD_ETHER \<equiv> (1 :: u16)"
abbreviation (input) "PACKET_HOST \<equiv> (0 :: u16)"
abbreviation (input) "PACKET_BROADCAST \<equiv> (1 :: u16)"
abbreviation (input) "PACKET_MULTICAST \<equiv> (2 :: u16)"
abbreviation (input) "PACKET_OTHERHOST \<equiv> (3 :: u16)"
abbreviation (input) "PACKET_LOOPBACK \<equiv> (5 :: u16)"
abbreviation (input) "NET_RX_SUCCESS \<equiv> (0 :: int)"
abbreviation (input) "NET_RX_DROP \<equiv> (1 :: int)"

text \<open>The fixed configuration of \<^verbatim>\<open>include/if.h\<close>.\<close>

abbreviation (input) "IFNAMSIZ \<equiv> 16"
abbreviation (input) "FIXED_IP_ADDR \<equiv> (0x0200000a :: u32)"
abbreviation (input) "FIXED_NETMASK \<equiv> (0x00ffffff :: u32)"
abbreviation (input) "FIXED_IP_PREFIXLEN \<equiv> (24 :: u8)"

section \<open>State\<close>

text \<open>Function pointers are tags for the functions the sources assign to them.\<close>

datatype xmit_fn = Ether_tx
datatype hard_header_fn = Eth_header
datatype packet_fn = Ip_rcv | Arp_rcv

record net_device =
  dev_name :: string
  ifindex :: int
  dev_next :: "nat option"
  dev_state :: u8
  mtu :: u32
  dev_type :: u16
  hard_header_len :: u16
  ip_ptr :: "nat option"
  addr_len :: u8
  dev_addr :: "u8 list"
  broadcast :: "u8 list"
  hard_start_xmit :: "xmit_fn option"
  hard_header :: "hard_header_fn option"

text \<open>
  The chains \<open>ifa_list\<close> and \<open>ptype_base\<close> are singly linked, only grow at the front and are
  only walked, so they are lists of the linked structures.
\<close>

record in_ifaddr =
  ifa_dev :: "nat option"
  ifa_address :: u32
  ifa_mask :: u32
  ifa_broadcast :: u32
  ifa_scope :: u8
  ifa_prefixlen :: u8

record in_device =
  indev_dev :: "nat option"
  ifa_list :: "in_ifaddr list"

record packet_type =
  pt_type :: u16
  pt_dev :: "nat option"
  pt_func :: packet_fn

record dev_store = skb_store +
  devs :: "nat \<rightharpoonup> net_device"
  in_devs :: "nat \<rightharpoonup> in_device"
  dev_base :: "nat option"
  last_ifindex :: int
  ptype_base :: "packet_type list"
  tap_out :: "u8 list list"

definition get_dev :: "nat \<Rightarrow> ('z dev_store_scheme, net_device) comp" where
  "get_dev d = (\<lambda>s. case devs s d of None \<Rightarrow> Inl Bad_pointer | Some nd \<Rightarrow> Inr (nd, s))"

definition upd_dev :: "nat \<Rightarrow> (net_device \<Rightarrow> net_device) \<Rightarrow> ('z dev_store_scheme, unit) comp" where
  "upd_dev d f = bindM (get_dev d) (\<lambda>nd. modifyM (\<lambda>s. s\<lparr>devs := (devs s)(d \<mapsto> f nd)\<rparr>))"

definition zero_dev :: net_device where
  "zero_dev = \<lparr>dev_name = [], ifindex = 0, dev_next = None, dev_state = 0, mtu = 0, dev_type = 0,
     hard_header_len = 0, ip_ptr = None, addr_len = 0, dev_addr = replicate 32 0,
     broadcast = replicate 32 0, hard_start_xmit = None, hard_header = None\<rparr>"

definition zero_ifaddr :: in_ifaddr where
  "zero_ifaddr = \<lparr>ifa_dev = None, ifa_address = 0, ifa_mask = 0, ifa_broadcast = 0,
     ifa_scope = 0, ifa_prefixlen = 0\<rparr>"

section \<open>Allocation and registration\<close>

definition alloc_netdev :: "string \<Rightarrow> (net_device \<Rightarrow> net_device) \<Rightarrow>
    ('z dev_store_scheme, nat option) comp" where
  "alloc_netdev name setup = bindM malloc (\<lambda>dev. case dev of
       None \<Rightarrow> returnM None
     | Some d \<Rightarrow>
         bindM (modifyM (\<lambda>s. s\<lparr>devs := (devs s)(d \<mapsto> zero_dev)\<rparr>)) (\<lambda>_.
         bindM (upd_dev d setup) (\<lambda>_.
         bindM (checkM (length name + 1 \<le> IFNAMSIZ) Out_of_bounds) (\<lambda>_.
         bindM (upd_dev d (\<lambda>nd. nd\<lparr>dev_name := name\<rparr>)) (\<lambda>_.
         returnM (Some d))))))"

definition dev_new_index :: "('z dev_store_scheme, int) comp" where
  "dev_new_index = bindM (getsM last_ifindex) (\<lambda>k.
     bindM (modifyM (\<lambda>s. s\<lparr>last_ifindex := k + 1\<rparr>)) (\<lambda>_. returnM k))"

text \<open>The search loop never advances: the pointer is the same in every round.\<close>

partial_function (option) dev_get_by_index_loop ::
    "(nat \<rightharpoonup> net_device) \<Rightarrow> int \<Rightarrow> nat option \<Rightarrow> (fault + nat option) option" where
  "dev_get_by_index_loop ds k dev = (case dev of
       None \<Rightarrow> Some (Inr None)
     | Some d \<Rightarrow> (case ds d of
           None \<Rightarrow> Some (Inl Bad_pointer)
         | Some nd \<Rightarrow> if ifindex nd = k then Some (Inr (Some d)) else dev_get_by_index_loop ds k dev))"

declare dev_get_by_index_loop.simps [code]

definition dev_get_by_index :: "int \<Rightarrow> ('z dev_store_scheme, nat option) comp" where
  "dev_get_by_index k = loopM (\<lambda>s. map_option (map_sum id (\<lambda>r. (r, s)))
     (dev_get_by_index_loop (devs s) k (dev_base s)))"

definition register_netdevice :: "nat \<Rightarrow> ('z dev_store_scheme, int) comp" where
  "register_netdevice dev =
     bindM dev_new_index (\<lambda>k.
     bindM (upd_dev dev (\<lambda>nd. nd\<lparr>ifindex := k\<rparr>)) (\<lambda>_.
     bindM (getsM dev_base) (\<lambda>base.
     bindM (upd_dev dev (\<lambda>nd. nd\<lparr>dev_next := base\<rparr>)) (\<lambda>_.
     bindM (modifyM (\<lambda>s. s\<lparr>dev_base := Some dev\<rparr>)) (\<lambda>_.
     returnM 0)))))"

section \<open>Addresses of a device\<close>

definition in_dev_get :: "nat \<Rightarrow> ('z dev_store_scheme, nat option) comp" where
  "in_dev_get dev = bindM (get_dev dev) (\<lambda>nd. returnM (ip_ptr nd))"

definition get_in_dev :: "nat \<Rightarrow> ('z dev_store_scheme, in_device) comp" where
  "get_in_dev i = (\<lambda>s. case in_devs s i of None \<Rightarrow> Inl Bad_pointer | Some x \<Rightarrow> Inr (x, s))"

definition inet_insert_ifa :: "nat \<Rightarrow> in_ifaddr \<Rightarrow> ('z dev_store_scheme, int) comp" where
  "inet_insert_ifa dev ifa = bindM (in_dev_get dev) (\<lambda>in_dev. case in_dev of
       None \<Rightarrow> returnM (-1)
     | Some i \<Rightarrow> bindM (get_in_dev i) (\<lambda>x.
         bindM (modifyM (\<lambda>s. s\<lparr>in_devs := (in_devs s)(i \<mapsto>
           x\<lparr>ifa_list := ifa\<lparr>ifa_dev := Some i\<rparr> # ifa_list x\<rparr>)\<rparr>)) (\<lambda>_.
         returnM 0)))"

definition inetdev_init :: "nat \<Rightarrow> ('z dev_store_scheme, nat option) comp" where
  "inetdev_init dev = bindM malloc (\<lambda>in_dev. case in_dev of
       None \<Rightarrow> returnM None
     | Some i \<Rightarrow>
         bindM (modifyM (\<lambda>s. s\<lparr>in_devs := (in_devs s)(i \<mapsto> \<lparr>indev_dev = Some dev, ifa_list = []\<rparr>)\<rparr>))
         (\<lambda>_. returnM (Some i)))"

definition inet_alloc_ifa :: "('z dev_store_scheme, in_ifaddr option) comp" where
  "inet_alloc_ifa = bindM malloc (\<lambda>ifa. returnM (case ifa of None \<Rightarrow> None | Some _ \<Rightarrow> Some zero_ifaddr))"

definition config_netdevice :: "nat \<Rightarrow> ('z dev_store_scheme, int) comp" where
  "config_netdevice dev =
     bindM (inetdev_init dev) (\<lambda>in_dev.
     bindM (upd_dev dev (\<lambda>nd. nd\<lparr>ip_ptr := in_dev\<rparr>)) (\<lambda>_.
     if in_dev = None then returnM (-1)
     else bindM inet_alloc_ifa (\<lambda>ifa. case ifa of
         None \<Rightarrow> returnM (-1)
       | Some a \<Rightarrow>
           (let a = a\<lparr>ifa_address := FIXED_IP_ADDR\<rparr>;
                a = a\<lparr>ifa_mask := FIXED_NETMASK\<rparr>;
                a = a\<lparr>ifa_prefixlen := FIXED_IP_PREFIXLEN\<rparr>;
                a = a\<lparr>ifa_broadcast := ifa_address a OR NOT (ifa_mask a)\<rparr>
            in inet_insert_ifa dev a))))"

definition dev_add_pack :: "packet_type \<Rightarrow> ('z dev_store_scheme, unit) comp" where
  "dev_add_pack pt = modifyM (\<lambda>s. s\<lparr>ptype_base := pt # ptype_base s\<rparr>)"

section \<open>The Ethernet driver, transmit side\<close>

text \<open>\<^verbatim>\<open>memcpy\<close> of the first \<open>n\<close> bytes of a memory area.\<close>

definition copy_from :: "u8 list \<Rightarrow> nat \<Rightarrow> ('s, u8 list) comp" where
  "copy_from src n = (if n \<le> length src then returnM (take n src) else failM Out_of_bounds)"

definition eth_header :: "nat \<Rightarrow> nat \<Rightarrow> u16 \<Rightarrow> u8 list option \<Rightarrow> u8 list option \<Rightarrow> u32 \<Rightarrow>
    ('z dev_store_scheme, int) comp" where
  "eth_header skb dev type daddr saddr len =
     bindM (on_skb skb (skb_push ETH_HLEN)) (\<lambda>p.
     bindM (nonnull p) (\<lambda>eth.
     bindM (store_bytes skb (eth + 12) (bytes16 (htons type))) (\<lambda>_.
     bindM (get_dev dev) (\<lambda>nd.
     let src = (case saddr of None \<Rightarrow> dev_addr nd | Some a \<Rightarrow> a) in
     bindM (copy_from src (unat (addr_len nd))) (\<lambda>sa.
     bindM (store_bytes skb (eth + 6) sa) (\<lambda>_.
     case daddr of
       None \<Rightarrow> returnM (-1)
     | Some a \<Rightarrow>
         bindM (copy_from a (unat (addr_len nd))) (\<lambda>da.
         bindM (store_bytes skb eth da) (\<lambda>_.
         returnM ETH_HLEN))))))))"

definition ether_tx :: "nat \<Rightarrow> nat \<Rightarrow> ('z dev_store_scheme, int) comp" where
  "ether_tx skb dev =
     bindM (get_skb skb) (\<lambda>b.
     bindM (load_bytes skb (skb_data b) (unat (skb_len b))) (\<lambda>frame.
     bindM (getsM (\<lambda>s. write_ret (os s) (length (tap_out s)) frame)) (\<lambda>len.
     bindM (modifyM (\<lambda>s. s\<lparr>tap_out := tap_out s @ [frame]\<rparr>)) (\<lambda>_.
     if word_of_int len \<noteq> skb_len b then returnM (-1) else returnM 0))))"

definition ether_setup :: "net_device \<Rightarrow> net_device" where
  "ether_setup dev = dev\<lparr>dev_type := ARPHRD_ETHER, hard_header_len := ETH_HLEN, mtu := ETH_DATA_LEN,
     addr_len := ETH_ALEN, hard_header := Some Eth_header, hard_start_xmit := Some Ether_tx,
     dev_addr := put_bytes (dev_addr dev) 0 [0, 0x59, 0x55, 0x53, 0x54, 0x4b],
     broadcast := put_bytes (broadcast dev) 0 (replicate ETH_ALEN 0xff)\<rparr>"

section \<open>Transmission\<close>

definition call_hard_header :: "hard_header_fn \<Rightarrow> nat \<Rightarrow> nat \<Rightarrow> u16 \<Rightarrow> u8 list option \<Rightarrow>
    u8 list option \<Rightarrow> u32 \<Rightarrow> ('z dev_store_scheme, int) comp" where
  "call_hard_header f skb dev type daddr saddr len =
     (case f of Eth_header \<Rightarrow> eth_header skb dev type daddr saddr len)"

definition dev_hard_start_xmit :: "nat \<Rightarrow> nat option \<Rightarrow> ('z dev_store_scheme, int) comp" where
  "dev_hard_start_xmit skb dev =
     bindM (nonnull dev) (\<lambda>d.
     bindM (get_dev d) (\<lambda>nd.
     bindM (nonnull (hard_start_xmit nd)) (\<lambda>f. case f of Ether_tx \<Rightarrow> ether_tx skb d)))"

definition dev_queue_xmit :: "nat \<Rightarrow> ('z dev_store_scheme, int) comp" where
  "dev_queue_xmit skb = bindM (get_skb skb) (\<lambda>b. dev_hard_start_xmit skb (skb_dev b))"

section \<open>Symbolic execution\<close>

lemma get_dev_apply [comp_simps]: "devs s d = Some nd \<Longrightarrow> get_dev d s = Inr (nd, s)"
  by (simp add: get_dev_def)

lemma upd_dev_apply [comp_simps]:
  "devs s d = Some nd \<Longrightarrow> upd_dev d f s = Inr ((), s\<lparr>devs := (devs s)(d \<mapsto> f nd)\<rparr>)"
  by (simp add: upd_dev_def comp_simps)

lemma get_in_dev_apply [comp_simps]: "in_devs s i = Some x \<Longrightarrow> get_in_dev i s = Inr (x, s)"
  by (simp add: get_in_dev_def)

lemma copy_from_apply [comp_simps]: "n \<le> length src \<Longrightarrow> copy_from src n s = Inr (take n src, s)"
  by (simp add: copy_from_def comp_simps)

lemma wp_get_dev [wp_simps]: "wp (get_dev d) Q s \<longleftrightarrow> (\<exists>nd. devs s d = Some nd \<and> Q nd s)"
  by (auto simp: wp_def get_dev_def split: option.splits)

lemma wp_copy_from [wp_simps]: "wp (copy_from src n) Q s \<longleftrightarrow> n \<le> length src \<and> Q (take n src) s"
  by (simp add: copy_from_def wp_simps)

lemma wp_upd_dev [wp_simps]: "wp (upd_dev d f) Q s \<longleftrightarrow>
    (\<exists>nd. devs s d = Some nd \<and> Q () (s\<lparr>devs := (devs s)(d \<mapsto> f nd)\<rparr>))"
  by (simp add: upd_dev_def wp_simps)

lemma wp_get_in_dev [wp_simps]: "wp (get_in_dev i) Q s \<longleftrightarrow> (\<exists>x. in_devs s i = Some x \<and> Q x s)"
  by (auto simp: wp_def get_in_dev_def split: option.splits)

lemma alloc_state_dev [simp]:
  "devs (alloc_state s k b) = devs s" "in_devs (alloc_state s k b) = in_devs s"
  "dev_base (alloc_state s k b) = dev_base s" "last_ifindex (alloc_state s k b) = last_ifindex s"
  "ptype_base (alloc_state s k b) = ptype_base s" "tap_out (alloc_state s k b) = tap_out s"
  by (simp_all add: alloc_state_def)

lemma queue_state_dev [simp]:
  "devs (enq_state s q n) = devs s" "devs (deq_state s q n) = devs s"
  "in_devs (enq_state s q n) = in_devs s" "in_devs (deq_state s q n) = in_devs s"
  "dev_base (enq_state s q n) = dev_base s" "dev_base (deq_state s q n) = dev_base s"
  "last_ifindex (enq_state s q n) = last_ifindex s" "last_ifindex (deq_state s q n) = last_ifindex s"
  "ptype_base (enq_state s q n) = ptype_base s" "ptype_base (deq_state s q n) = ptype_base s"
  "tap_out (enq_state s q n) = tap_out s" "tap_out (deq_state s q n) = tap_out s"
  by (simp_all add: enq_state_def deq_state_def)

lemma queue_rep_tap [simp]: "queue_rep (s\<lparr>tap_out := x\<rparr>) = queue_rep s"
  by (simp add: queue_rep_def fun_eq_iff)

text \<open>An Ethernet device ready to send, and the frame it puts on the wire.\<close>

definition eth_dev :: "net_device \<Rightarrow> bool" where
  "eth_dev nd \<longleftrightarrow> addr_len nd = 6 \<and> hard_header_len nd = 14 \<and> dev_type nd = ARPHRD_ETHER \<and>
     hard_header nd = Some Eth_header \<and> hard_start_xmit nd = Some Ether_tx \<and>
     6 \<le> length (dev_addr nd) \<and> 6 \<le> length (broadcast nd)"

definition eth_frame :: "u8 list \<Rightarrow> u8 list \<Rightarrow> u16 \<Rightarrow> u8 list \<Rightarrow> u8 list" where
  "eth_frame dst src type payload = dst @ src @ bytes16 (htons type) @ payload"

text \<open>The link-level header goes in front of whatever the buffer holds.\<close>

lemma eth_header_apply:
  assumes "skbs s i = Some b" "devs s d = Some nd" "addr_len nd = 6" "wf_skb b" "14 \<le> skb_data b"
    "6 \<le> length (case sa of None \<Rightarrow> dev_addr nd | Some a \<Rightarrow> a)" "6 \<le> length da"
  shows "eth_header i d type (Some da) sa len s = Inr (14, s\<lparr>skbs := (skbs s)(i \<mapsto>
    prepend (take 6 da @ take 6 (case sa of None \<Rightarrow> dev_addr nd | Some a \<Rightarrow> a) @ bytes16 (htons type)) b)\<rparr>)"
proof -
  let ?sa = "case sa of None \<Rightarrow> dev_addr nd | Some a \<Rightarrow> a"
  have b: "skb_head b = 0" "skb_data b \<le> int (length (skb_buf b))" using assms(4) by (auto simp: wf_skb_def)
  let ?n = "nat (skb_data b - 14)"
  have n: "nat (skb_data b - 2) = ?n + 12" "nat (skb_data b - 8) = ?n + 6" "?n + 14 \<le> length (skb_buf b)"
    using assms(5) b by auto
  have "put_bytes (put_bytes (put_bytes (skb_buf b) (?n + 12) (bytes16 (htons type))) (?n + 6) (take 6 ?sa)) ?n (take 6 da)
    = put_bytes (skb_buf b) ?n (take 6 da @ take 6 ?sa @ bytes16 (htons type))"
    using assms(6,7) n(3) by (simp add: put_bytes_put_bytes_append)
  then show ?thesis
    using assms b n by (simp add: eth_header_def comp_simps skb_push_def in_block_def prepend_def Let_def)
qed

lemma ether_tx_apply:
  assumes "skbs s i = Some b" "wf_skb b"
  shows "ether_tx i d s = Inr (if word_of_int (write_ret (os s) (length (tap_out s)) (window b)) \<noteq> skb_len b
    then -1 else 0, s\<lparr>tap_out := tap_out s @ [window b]\<rparr>)"
  using in_block_window [OF assms(2), of 0 "unat (skb_len b)"] assms
  by (simp add: ether_tx_def comp_simps load_defs window_def)

lemma dev_queue_xmit_apply:
  assumes "skbs s i = Some b" "wf_skb b" "skb_dev b = Some d" "devs s d = Some nd"
    "hard_start_xmit nd = Some Ether_tx"
  shows "dev_queue_xmit i s = Inr (if word_of_int (write_ret (os s) (length (tap_out s)) (window b)) \<noteq> skb_len b
    then -1 else 0, s\<lparr>tap_out := tap_out s @ [window b]\<rparr>)"
  using assms by (simp add: dev_queue_xmit_def dev_hard_start_xmit_def comp_simps ether_tx_apply)

section \<open>Looking up a device by its index\<close>

lemma dev_get_by_index_loop_returns:
  assumes "dev_get_by_index_loop ds k dev = Some r"
  shows "\<forall>d nd. dev = Some d \<longrightarrow> ds d = Some nd \<longrightarrow> ifindex nd = k"
  using assms by (rule dev_get_by_index_loop.raw_induct [rotated]) (auto split: option.splits if_splits)

lemma dev_get_by_index_loop_first:
  assumes "ds d = Some nd"
  shows "dev_get_by_index_loop ds k (Some d) = (if ifindex nd = k then Some (Inr (Some d)) else None)"
proof (cases "ifindex nd = k")
  case True
  with assms show ?thesis by (subst dev_get_by_index_loop.simps) simp
next
  case False
  with assms dev_get_by_index_loop_returns [of ds k "Some d"] show ?thesis
    by (cases "dev_get_by_index_loop ds k (Some d)") auto
qed

lemma wp_dev_get_by_index:
  assumes "dev_base s = Some d" "devs s d = Some nd" "ifindex nd = k"
  shows "wp (dev_get_by_index k) Q s \<longleftrightarrow> Q (Some d) s"
  using assms dev_get_by_index_loop_first [of "devs s" d nd k]
  by (simp add: wp_def dev_get_by_index_def loopM_def)

text \<open>A device as \<^verbatim>\<open>ether_setup\<close> makes it, alone in a store.\<close>

definition example_dev :: net_device where
  "example_dev = ether_setup zero_dev"

definition example_devs :: dev_store where
  "example_devs = \<lparr>os = example_env, brk = 2, skbs = Map.empty, nxt = (\<lambda>_. None), prv = (\<lambda>_. None),
     qlen = (\<lambda>_. 0), devs = [1 \<mapsto> example_dev], in_devs = Map.empty, dev_base = Some 1,
     last_ifindex = 1, ptype_base = [], tap_out = []\<rparr>"

text \<open>
  C40: \<^verbatim>\<open>dev_get_by_index\<close> looks at the first registered device only: it finds it when the index
  is the one asked for, and for every other index its loop never ends.
\<close>

theorem dev_get_by_index_first:
  assumes "dev_base s = Some d" "devs s d = Some nd"
  shows "dev_get_by_index k s = (if ifindex nd = k then Inr (Some d, s) else Inl Diverges)"
  using assms dev_get_by_index_loop_first [of "devs s" d nd k]
  by (simp add: dev_get_by_index_def loopM_def)

theorem dev_get_by_index_first_witness:
  "dev_get_by_index 0 example_devs = Inr (Some 1, example_devs) \<and> dev_get_by_index 5 example_devs = Inl Diverges"
proof -
  have "dev_base example_devs = Some 1" "devs example_devs 1 = Some example_dev"
    by (simp_all add: example_devs_def)
  from dev_get_by_index_first [OF this] show ?thesis
    by (simp add: example_dev_def ether_setup_def zero_dev_def)
qed

end
