(* ===== verification/Ethernet.thy ===== *)
theory Ethernet
  imports Netdevice
begin

text \<open>
  Ethernet addresses and the classification of received frames (\<^verbatim>\<open>driver/ethernet.c\<close>), with
  the properties of both directions of the driver.
\<close>

section \<open>The code\<close>

definition eth_hdr :: "nat \<Rightarrow> ('z dev_store_scheme, int) comp" where
  "eth_hdr skb = bindM (get_skb skb) (\<lambda>b. nonnull (mac_raw b))"

definition is_multicast_ether_addr :: "u8 list \<Rightarrow> bool" where
  "is_multicast_ether_addr addr \<longleftrightarrow> 0x01 AND addr ! 0 \<noteq> 0"

definition is_broadcast_ether_addr :: "u8 list \<Rightarrow> bool" where
  "is_broadcast_ether_addr addr \<longleftrightarrow>
     (addr ! 0 AND addr ! 1 AND addr ! 2 AND addr ! 3 AND addr ! 4 AND addr ! 5) = 0xff"

definition compare_ether_addr :: "u8 list \<Rightarrow> u8 list \<Rightarrow> u16" where
  "compare_ether_addr addr1 addr2 =
     (ld16 addr1 0 XOR ld16 addr2 0) OR (ld16 addr1 2 XOR ld16 addr2 2) OR (ld16 addr1 4 XOR ld16 addr2 4)"

definition eth_type_trans :: "nat \<Rightarrow> nat \<Rightarrow> ('z dev_store_scheme, u16) comp" where
  "eth_type_trans skb dev =
     bindM (upd_skb skb (\<lambda>b. b\<lparr>mac_raw := Some (skb_data b)\<rparr>)) (\<lambda>_.
     bindM (on_skb skb (skb_pull ETH_HLEN)) (\<lambda>_.
     bindM (eth_hdr skb) (\<lambda>eth.
     bindM (load_bytes skb eth ETH_ALEN) (\<lambda>h_dest.
     bindM (get_dev dev) (\<lambda>nd.
     bindM
       (if is_multicast_ether_addr h_dest then
          (if compare_ether_addr h_dest (broadcast nd) = 0
           then upd_skb skb (\<lambda>b. b\<lparr>pkt_type := PACKET_BROADCAST\<rparr>)
           else upd_skb skb (\<lambda>b. b\<lparr>pkt_type := PACKET_MULTICAST\<rparr>))
        else if compare_ether_addr h_dest (dev_addr nd) \<noteq> 0
          then upd_skb skb (\<lambda>b. b\<lparr>pkt_type := PACKET_OTHERHOST\<rparr>)
        else returnM ()) (\<lambda>_.
     load16 skb (eth + 12)))))))"

section \<open>Addresses\<close>

lemma compare_ether_addr_zero:
  assumes "6 \<le> length a" "6 \<le> length b"
  shows "compare_ether_addr a b = 0 \<longleftrightarrow> take 6 a = take 6 b"
  using assms by (auto simp: compare_ether_addr_def ld16_def word_or_zero_iff word_xor_zero_iff take_six)

lemma is_broadcast_ether_addr_iff: 
  assumes "length a = 6" shows "is_broadcast_ether_addr a \<longleftrightarrow> a = replicate 6 0xff"
  using assms take_six [of a] by (auto simp: is_broadcast_ether_addr_def and_ff numeral_eq_Suc)

section \<open>Frames\<close>

text \<open>How a received frame is classified by its destination.\<close>

definition eth_class :: "net_device \<Rightarrow> u8 list \<Rightarrow> u16 \<Rightarrow> u16" where
  "eth_class nd dst old =
     (if is_multicast_ether_addr dst
      then (if take 6 dst = take 6 (broadcast nd) then PACKET_BROADCAST else PACKET_MULTICAST)
      else if take 6 dst \<noteq> take 6 (dev_addr nd) then PACKET_OTHERHOST else old)"

lemma is_multicast_take [simp]: "0 < n \<Longrightarrow> is_multicast_ether_addr (take n a) = is_multicast_ether_addr a"
  by (simp add: is_multicast_ether_addr_def)

lemma eth_type_trans_apply:
  assumes s: "skbs s i = Some b" "devs s d = Some nd"
    and nd: "6 \<le> length (dev_addr nd)" "6 \<le> length (broadcast nd)"
    and b: "wf_skb b" "14 \<le> unat (skb_len b)"
  shows "eth_type_trans i d s = Inr (ld16 (window b) 12, s\<lparr>skbs := (skbs s)(i \<mapsto>
    b\<lparr>mac_raw := Some (skb_data b), skb_len := skb_len b - 14, skb_data := skb_data b + 14,
      pkt_type := eth_class nd (window b) (pkt_type b)\<rparr>)\<rparr>)"
proof -
  let ?b = "b\<lparr>mac_raw := Some (skb_data b), skb_len := skb_len b - 14, skb_data := skb_data b + 14\<rparr>"
  have len: "\<not> skb_len b < 14" using b(2) by (simp add: word_less_nat_alt)
  have blk: "in_block x (skb_data b) 6 \<and> in_block x (skb_data b + 12) 2" if "skb_buf x = skb_buf b" for x
    using in_block_window [OF b(1), of 0 6] in_block_window [OF b(1), of 12 2] b(2) that by (auto simp: in_block_def)
  have ld: "get_bytes (skb_buf b) (nat (skb_data b)) 6 = take 6 (window b)"
    "ld16 (skb_buf b) (nat (skb_data b + 12)) = ld16 (window b) 12"
    using load_window(4) [OF b(1), of 0 6] load_window(1) [OF b(1), of 12] b(2) by (simp_all add: get_bytes_def)
  have cmp: "compare_ether_addr (take 6 (window b)) a = 0 \<longleftrightarrow> take 6 (window b) = take 6 a"
    if "6 \<le> length a" for a
    using compare_ether_addr_zero [of "take 6 (window b)" a] b that by simp
  show ?thesis
    using s by (simp add: eth_type_trans_def eth_hdr_def comp_simps load_defs skb_pull_def len blk ld cmp nd eth_class_def)
qed

text \<open>
  C34: a frame built by \<^verbatim>\<open>eth_header\<close> around the contents of a buffer is taken apart again by
  \<^verbatim>\<open>eth_type_trans\<close> at its receiver: whatever two buffers and devices are involved, the
  receiver gets the type, the original contents and the class of the destination address
  (broadcast, multicast, other host, or unchanged when it is the receiver's own).
\<close>

theorem eth_frame_round_trip:
  assumes "skbs s i = Some b" "devs s d = Some nd" "addr_len nd = 6" "wf_skb b" "14 \<le> skb_data b"
    "6 \<le> length sa" "6 \<le> length da"
    and "skbs s' j = Some b'" "devs s' d' = Some nd'" "6 \<le> length (dev_addr nd')"
    "6 \<le> length (broadcast nd')" "wf_skb b'"
    and "eth_header i d type (Some da) (Some sa) len s = Inr (rc, t)" "skbs t i = Some c"
    "window b' = window c"
  shows "rc = 14 \<and> (\<exists>u r. eth_type_trans j d' s' = Inr (htons type, u) \<and> skbs u j = Some r \<and>
    window r = window b \<and> pkt_type r = eth_class nd' da (pkt_type b'))"
proof -
  let ?h = "take 6 da @ take 6 sa @ bytes16 (htons type)"
  have tx: "rc = 14" "window c = ?h @ window b"
    using assms eth_header_apply [OF assms(1-5), of "Some sa" da type len] window_prepend [OF assms(4), of ?h]
    by auto
  have len: "14 \<le> unat (skb_len b')"
    using length_window [OF assms(12)] assms(6,7,15) by (simp add: tx(2))
  have w: "window b' = take 6 da @ take 6 sa @ bytes16 (htons type) @ window b" by (simp add: assms(15) tx(2))
  have "ld16 (window b') 12 = htons type" "drop 14 (window b') = window b"
      "eth_class nd' (window b') (pkt_type b') = eth_class nd' da (pkt_type b')"
    using assms(6,7) by (simp_all add: w ld16_def bytes16_def nth_append eth_class_def is_multicast_ether_addr_def)
  moreover have "14 \<le> skb_len b'" using len by (simp add: word_le_nat_alt)
  ultimately show ?thesis
    using tx eth_type_trans_apply [OF assms(8-12) len] window_pull [OF assms(12), of 14]
    by (simp add: window_def)
qed

definition example_tx_skb :: sk_buff where
  "example_tx_skb = zero_skb\<lparr>skb_data := 14, skb_tail := 16, skb_end := 16, skb_len := 2,
     skb_buf := replicate 14 0 @ [0x11, 0x22]\<rparr>"

definition example_rx_skb :: sk_buff where
  "example_rx_skb = zero_skb\<lparr>skb_data := 0, skb_tail := 16, skb_end := 16, skb_len := 16,
     skb_buf := [0, 0x59, 0x55, 0x53, 0x54, 0x4b, 2, 0, 0, 0, 0, 1, 8, 6, 0x11, 0x22]\<rparr>"

theorem eth_frame_round_trip_witness:
  "\<exists>u r. eth_type_trans 1 1 (example_devs\<lparr>skbs := [1 \<mapsto> example_rx_skb]\<rparr>) = Inr (htons ETH_P_ARP, u) \<and>
     skbs u 1 = Some r \<and> window r = [0x11, 0x22]"
proof -
  let ?s = "example_devs\<lparr>skbs := [0 \<mapsto> example_tx_skb]\<rparr>" and ?s' = "example_devs\<lparr>skbs := [1 \<mapsto> example_rx_skb]\<rparr>"
  let ?da = "[0, 0x59, 0x55, 0x53, 0x54, 0x4b] :: u8 list" and ?sa = "[2, 0, 0, 0, 0, 1] :: u8 list"
  let ?c = "prepend (take 6 ?da @ take 6 ?sa @ bytes16 (htons ETH_P_ARP)) example_tx_skb"
  have tx: "skbs ?s 0 = Some example_tx_skb" "devs ?s 1 = Some example_dev" "addr_len example_dev = 6"
      "wf_skb example_tx_skb" "14 \<le> skb_data example_tx_skb" "6 \<le> length ?sa" "6 \<le> length ?da"
    and rx: "skbs ?s' 1 = Some example_rx_skb" "devs ?s' 1 = Some example_dev"
      "6 \<le> length (dev_addr example_dev)" "6 \<le> length (broadcast example_dev)" "wf_skb example_rx_skb"
    by (simp_all add: example_devs_def example_dev_def ether_setup_def zero_dev_def example_tx_skb_def
        example_rx_skb_def wf_skb_def zero_skb_def)
  have wire: "eth_header 0 1 ETH_P_ARP (Some ?da) (Some ?sa) 2 ?s = Inr (14, ?s\<lparr>skbs := (skbs ?s)(0 \<mapsto> ?c)\<rparr>)"
    using eth_header_apply [OF tx(1-5), of "Some ?sa" ?da] by simp
  have w: "window example_rx_skb = window ?c"
    by (simp add: window_def example_rx_skb_def example_tx_skb_def zero_skb_def prepend_def put_bytes_def
        get_bytes_def bytes16_def htons_def)
  have "window example_tx_skb = [0x11, 0x22]"
    by (simp add: window_def example_tx_skb_def zero_skb_def get_bytes_def)
  then show ?thesis
    using eth_frame_round_trip [OF tx rx wire _ w] by auto
qed

end
