(* ===== verification/Dst.thy ===== *)
theory Dst
  imports Ethernet
begin

text \<open>
  Routes as the data path sees them: flow keys (\<^verbatim>\<open>struct flowi\<close>), destination entries
  (\<^verbatim>\<open>struct dst_entry\<close>) and the routing entries that embed them (\<^verbatim>\<open>struct rtable\<close>).
\<close>

record flowi =
  fl_oif :: int
  fl_iif :: int
  fl4_dst :: u32
  fl4_src :: u32
  fl4_tos :: u8
  fl4_scope :: u8
  fl_proto :: u8
  fl_ip_sport :: u16
  fl_ip_dport :: u16

definition zero_flowi :: flowi where
  "zero_flowi = \<lparr>fl_oif = 0, fl_iif = 0, fl4_dst = 0, fl4_src = 0, fl4_tos = 0, fl4_scope = 0,
     fl_proto = 0, fl_ip_sport = 0, fl_ip_dport = 0\<rparr>"

datatype dst_input_fn = Ip_local_deliver
datatype dst_output_fn = Ip_output | Ip_rt_bug

text \<open>
  A routing entry. The block comes from \<^verbatim>\<open>malloc\<close> and is not cleared: \<open>None\<close> in a function
  pointer or in \<open>rt_iif\<close> is a member the code has not assigned. The member \<open>neighbour\<close> is
  read before it is assigned; what it then reads as is given by the environment. The member
  \<open>idev\<close> is never used.
\<close>

record rtable =
  dst_dev :: "nat option"
  dst_neighbour :: "nat option"
  dst_input_ptr :: "dst_input_fn option"
  dst_output_ptr :: "dst_output_fn option"
  rt_iif :: "int option"
  rt_type :: u16
  rt_dst :: u32
  rt_src :: u32
  rt_gateway :: u32
  rt_fl :: flowi

record rt_store = dev_store +
  rtables :: "nat \<rightharpoonup> rtable"

definition get_rt :: "nat \<Rightarrow> ('z rt_store_scheme, rtable) comp" where
  "get_rt r = (\<lambda>s. case rtables s r of None \<Rightarrow> Inl Bad_pointer | Some rt \<Rightarrow> Inr (rt, s))"

definition set_rt :: "nat \<Rightarrow> rtable \<Rightarrow> ('z rt_store_scheme, unit) comp" where
  "set_rt r rt = modifyM (\<lambda>s. s\<lparr>rtables := (rtables s)(r \<mapsto> rt)\<rparr>)"

text \<open>The types of routes (\<^verbatim>\<open>include/rtnetlink.h\<close>) the sources use.\<close>

abbreviation (input) "RTN_UNICAST \<equiv> 1"
abbreviation (input) "RTN_LOCAL \<equiv> 2"
abbreviation (input) "RTN_BROADCAST \<equiv> 3"

lemma get_rt_apply [comp_simps]: "rtables s r = Some rt \<Longrightarrow> get_rt r s = Inr (rt, s)"
  by (simp add: get_rt_def)

lemma set_rt_apply [comp_simps]: "set_rt r rt s = Inr ((), s\<lparr>rtables := (rtables s)(r \<mapsto> rt)\<rparr>)"
  by (simp add: set_rt_def comp_simps)

lemma wp_get_rt [wp_simps]: "wp (get_rt r) Q s \<longleftrightarrow> (\<exists>rt. rtables s r = Some rt \<and> Q rt s)"
  by (auto simp: wp_def get_rt_def split: option.splits)

lemma wp_set_rt [wp_simps]: "wp (set_rt r rt) Q s = Q () (s\<lparr>rtables := (rtables s)(r \<mapsto> rt)\<rparr>)"
  by (simp add: set_rt_def wp_simps)

lemma memory_state_rt [simp]:
  "rtables (alloc_state s k b) = rtables s" "rtables (enq_state s q n) = rtables s" "rtables (deq_state s q n) = rtables s"
  by (simp_all add: alloc_state_def enq_state_def deq_state_def)

end
