(* ===== verification/Arp_Xmit.thy ===== *)
theory Arp_Xmit
  imports Ethernet
begin

text \<open>
  Building and sending ARP packets: \<^verbatim>\<open>arp_create\<close>, \<^verbatim>\<open>arp_xmit\<close> and \<^verbatim>\<open>arp_send\<close> of
  \<^verbatim>\<open>ipv4/arp.c\<close>. An ARP packet is the fixed header (\<^verbatim>\<open>struct arphdr\<close>, 8 bytes) followed by
  sender hardware and protocol address and target hardware and protocol address.
\<close>

abbreviation (input) "ARPOP_REQUEST \<equiv> (1 :: u16)"
abbreviation (input) "ARPOP_REPLY \<equiv> (2 :: u16)"
abbreviation (input) "sizeof_arphdr \<equiv> 8"

definition arp_len :: "net_device \<Rightarrow> u32" where
  "arp_len nd = sizeof_arphdr + 2 * (ucast (addr_len nd) + 4)"

text \<open>The payload written after the link-level header is in place.\<close>

definition arp_fill :: "nat \<Rightarrow> int \<Rightarrow> net_device \<Rightarrow> u16 \<Rightarrow> u32 \<Rightarrow> u32 \<Rightarrow> u8 list \<Rightarrow> u8 list option \<Rightarrow>
    ('z dev_store_scheme, unit) comp" where
  "arp_fill skb arp nd type dest_ip src_ip src_hw target_hw =
     bindM (store_bytes skb arp (bytes16 (htons (dev_type nd)))) (\<lambda>_.
     bindM (store_bytes skb (arp + 2) (bytes16 (htons ETH_P_IP))) (\<lambda>_.
     bindM (store_bytes skb (arp + 4) [addr_len nd]) (\<lambda>_.
     bindM (store_bytes skb (arp + 5) [4]) (\<lambda>_.
     bindM (store_bytes skb (arp + 6) (bytes16 (htons type))) (\<lambda>_.
     let n = unat (addr_len nd); arp_ptr = arp + sizeof_arphdr in
     bindM (copy_from src_hw n) (\<lambda>sa.
     bindM (store_bytes skb arp_ptr sa) (\<lambda>_.
     bindM (store_bytes skb (arp_ptr + int n) (bytes32 src_ip)) (\<lambda>_.
     bindM (case target_hw of
         Some a \<Rightarrow> copy_from a n
       | None \<Rightarrow> returnM (replicate n 0)) (\<lambda>ta.
     bindM (store_bytes skb (arp_ptr + int n + 4) ta) (\<lambda>_.
     store_bytes skb (arp_ptr + int n + 4 + int n) (bytes32 dest_ip)))))))))))"

definition arp_create :: "u16 \<Rightarrow> u16 \<Rightarrow> u32 \<Rightarrow> nat \<Rightarrow> u32 \<Rightarrow> u8 list option \<Rightarrow> u8 list option \<Rightarrow>
    u8 list option \<Rightarrow> ('z dev_store_scheme, nat option) comp" where
  "arp_create type ptype dest_ip dev src_ip dest_hw src_hw target_hw =
     bindM (get_dev dev) (\<lambda>nd.
     bindM (alloc_skb (arp_len nd + ucast (hard_header_len nd))) (\<lambda>p. case p of
         None \<Rightarrow> returnM None
       | Some skb \<Rightarrow>
           bindM (on_skb skb (skb_reserve (uint (hard_header_len nd)))) (\<lambda>_.
           bindM (upd_skb skb (\<lambda>b. b\<lparr>nh_raw := Some (skb_data b)\<rparr>)) (\<lambda>_.
           bindM (on_skb skb (skb_put (arp_len nd))) (\<lambda>arp.
           bindM (upd_skb skb (\<lambda>b. b\<lparr>skb_dev := Some dev, skb_protocol := htons ETH_P_ARP\<rparr>)) (\<lambda>_.
           let src = (case src_hw of None \<Rightarrow> dev_addr nd | Some a \<Rightarrow> a);
               dst = (case dest_hw of None \<Rightarrow> broadcast nd | Some a \<Rightarrow> a) in
           bindM (get_skb skb) (\<lambda>b.
           bindM (case hard_header nd of
               None \<Rightarrow> returnM 0
             | Some f \<Rightarrow> call_hard_header f skb dev ptype (Some dst) (Some src) (skb_len b)) (\<lambda>err.
           if err < 0 then bindM (kfree_skb skb) (\<lambda>_. returnM None)
           else
             bindM (nonnull arp) (\<lambda>a.
             bindM (arp_fill skb a nd type dest_ip src_ip src target_hw) (\<lambda>_.
             returnM (Some skb)))))))))))"

definition arp_xmit :: "nat \<Rightarrow> ('z dev_store_scheme, unit) comp" where
  "arp_xmit skb = bindM (dev_queue_xmit skb) (\<lambda>_. returnM ())"

definition arp_send :: "u16 \<Rightarrow> u16 \<Rightarrow> u32 \<Rightarrow> nat \<Rightarrow> u32 \<Rightarrow> u8 list option \<Rightarrow> u8 list option \<Rightarrow>
    u8 list option \<Rightarrow> ('z dev_store_scheme, unit) comp" where
  "arp_send type ptype dest_ip dev src_ip dest_hw src_hw target_hw =
     bindM (arp_create type ptype dest_ip dev src_ip dest_hw src_hw target_hw) (\<lambda>p. case p of
         None \<Rightarrow> returnM ()
       | Some skb \<Rightarrow> arp_xmit skb)"

section \<open>The frame an ARP packet travels in\<close>

text \<open>
  The packet of RFC 826 for Ethernet and IP, the frame around it, and the buffer that carries
  it. Hardware addresses that are not given default to the device's own.
\<close>

definition arp_packet :: "u16 \<Rightarrow> u8 list \<Rightarrow> u32 \<Rightarrow> u8 list \<Rightarrow> u32 \<Rightarrow> u8 list" where
  "arp_packet op sha sip tha tip = bytes16 (htons ARPHRD_ETHER) @ bytes16 (htons ETH_P_IP) @ [6, 4] @
     bytes16 (htons op) @ sha @ bytes32 sip @ tha @ bytes32 tip"

definition arp_skb :: "nat \<Rightarrow> u8 list \<Rightarrow> sk_buff" where
  "arp_skb d frame = zero_skb\<lparr>skb_dev := Some d, nh_raw := Some 14, skb_protocol := htons ETH_P_ARP,
     skb_len := 42, skb_tail := 42, skb_end := 42, skb_buf := frame\<rparr>"

definition hw_of :: "u8 list option \<Rightarrow> u8 list \<Rightarrow> u8 list" where
  "hw_of a dflt = take 6 (case a of None \<Rightarrow> dflt | Some x \<Rightarrow> x)"

definition arp_frame :: "net_device \<Rightarrow> u16 \<Rightarrow> u16 \<Rightarrow> u32 \<Rightarrow> u32 \<Rightarrow> u8 list option \<Rightarrow> u8 list option \<Rightarrow> u8 list option \<Rightarrow> u8 list" where
  "arp_frame nd type ptype dest_ip src_ip dest_hw src_hw target_hw =
     eth_frame (hw_of dest_hw (broadcast nd)) (hw_of src_hw (dev_addr nd)) ptype
       (arp_packet type (hw_of src_hw (dev_addr nd)) src_ip (hw_of target_hw (replicate 6 0)) dest_ip)"

lemma length_hw_of: "6 \<le> length dflt \<Longrightarrow> (\<And>x. a = Some x \<Longrightarrow> 6 \<le> length x) \<Longrightarrow> length (hw_of a dflt) = 6"
  by (auto simp: hw_of_def split: option.split)

lemma arp_fill_apply:
  assumes s: "skbs s i = Some b" "in_block b a 28" and nd: "addr_len nd = 6" "dev_type nd = ARPHRD_ETHER"
    and hw: "6 \<le> length sha" "\<And>x. tha = Some x \<Longrightarrow> 6 \<le> length x"
  shows "arp_fill i a nd op tip sip sha tha s = Inr ((), s\<lparr>skbs := (skbs s)(i \<mapsto>
    b\<lparr>skb_buf := put_bytes (skb_buf b) (nat a) (arp_packet op (take 6 sha) sip (hw_of tha (replicate 6 0)) tip)\<rparr>)\<rparr>)"
proof -
  have ta: "(case tha of None \<Rightarrow> returnM (replicate 6 0) | Some a \<Rightarrow> copy_from a 6) t
    = Inr (hw_of tha (replicate 6 0), t)" for t :: "'a dev_store_scheme"
    using hw(2) by (auto simp: hw_of_def comp_simps split: option.split)
  have len: "length (hw_of tha (replicate 6 0)) = 6" using hw(2) by (intro length_hw_of) auto
  have a: "0 \<le> a" "nat a + 28 \<le> length (skb_buf b)" using s(2) by (auto simp: in_block_def)
  show ?thesis
    using s a hw nd
    by (simp add: arp_fill_def comp_simps in_block_def Let_def ta len nat_add_distrib
        put_bytes_append_put_bytes arp_packet_def)
qed

lemma arp_create_apply:
  assumes d: "devs s d = Some nd" "eth_dev nd" and m: "malloc_ok (os s) (brk s)" "malloc_ok (os s) (brk s + 1)"
    and hw: "\<forall>a. dest_hw = Some a \<or> src_hw = Some a \<or> target_hw = Some a \<longrightarrow> 6 \<le> length a"
  shows "arp_create type ptype dest_ip d src_ip dest_hw src_hw target_hw s = Inr (Some (brk s),
    alloc_state s 2 (arp_skb d (arp_frame nd type ptype dest_ip src_ip dest_hw src_hw target_hw)))"
proof -
  let ?dst = "case dest_hw of None \<Rightarrow> broadcast nd | Some a \<Rightarrow> a"
  let ?src = "case src_hw of None \<Rightarrow> dev_addr nd | Some a \<Rightarrow> a"
  let ?hdr = "take 6 ?dst @ take 6 ?src @ bytes16 (htons ptype)"
  let ?i = "brk s"
  let ?b = "(new_skb s 42)\<lparr>skb_data := 14, nh_raw := Some 14, skb_tail := 42, skb_len := 28, skb_dev := Some d,
    skb_protocol := htons ETH_P_ARP\<rparr>"
  have len: "6 \<le> length ?dst" "6 \<le> length ?src" using hw d(2) by (auto simp: eth_dev_def split: option.splits)
  have wf: "wf_skb ?b" by (simp add: wf_skb_def new_skb_def zero_skb_def)
  have al: "arp_len nd = 28" using d(2) by (simp add: arp_len_def eth_dev_def)
  have hdr: "eth_header ?i d ptype (Some ?dst) (Some ?src) 28 t = Inr (14, t\<lparr>skbs := (skbs t)(?i \<mapsto> prepend ?hdr ?b)\<rparr>)"
    if "skbs t ?i = Some ?b" "devs t d = Some nd" for t :: "'a dev_store_scheme"
    using eth_header_apply [OF that _ wf, of "Some ?src" ?dst ptype 28] len d(2) by (simp add: eth_dev_def)
  let ?p = "arp_packet type (take 6 ?src) src_ip (hw_of target_hw (replicate 6 0)) dest_ip"
  have fill: "arp_fill ?i 14 nd type dest_ip src_ip ?src target_hw t = Inr ((), t\<lparr>skbs := (skbs t)(?i \<mapsto>
      (prepend ?hdr ?b)\<lparr>skb_buf := put_bytes (skb_buf (prepend ?hdr ?b)) 14 ?p\<rparr>)\<rparr>)"
    if "skbs t ?i = Some (prepend ?hdr ?b)" for t :: "'a dev_store_scheme"
    using arp_fill_apply [OF that, of 14 nd ?src target_hw type dest_ip src_ip] len hw d(2)
    by (simp add: eth_dev_def in_block_def prepend_def new_skb_def)
  have fin: "(prepend ?hdr ?b)\<lparr>skb_buf := put_bytes (skb_buf (prepend ?hdr ?b)) 14 ?p\<rparr> =
      arp_skb d (arp_frame nd type ptype dest_ip src_ip dest_hw src_hw target_hw)"
    using len length_hw_of [of "replicate 6 0" target_hw] hw
    by (simp add: prepend_def arp_skb_def arp_frame_def eth_frame_def new_skb_def zero_skb_def hw_of_def
        put_bytes_append_put_bytes put_bytes_all arp_packet_def)
  show ?thesis
    using d m by (simp add: arp_create_def comp_simps alloc_skb_apply al eth_dev_def skb_reserve_def skb_put_def
        Let_def call_hard_header_def hdr fill fin)
qed

lemma length_arp_frame:
  assumes "eth_dev nd" and "\<forall>a. dest_hw = Some a \<or> src_hw = Some a \<or> target_hw = Some a \<longrightarrow> 6 \<le> length a"
  shows "length (arp_frame nd type ptype dest_ip src_ip dest_hw src_hw target_hw) = 42"
proof -
  have "length (hw_of dest_hw (broadcast nd)) = 6" "length (hw_of src_hw (dev_addr nd)) = 6"
      "length (hw_of target_hw (replicate 6 0)) = 6"
    using assms by (auto intro!: length_hw_of simp: eth_dev_def)
  then show ?thesis by (simp add: arp_frame_def eth_frame_def arp_packet_def)
qed

lemma arp_skb_simps:
  assumes "length f = 42"
  shows "wf_skb (arp_skb d f)" "window (arp_skb d f) = f" "skb_dev (arp_skb d f) = Some d"
  using assms by (simp_all add: arp_skb_def zero_skb_def wf_skb_def window_def get_bytes_def)

text \<open>Sending an ARP packet writes exactly one frame.\<close>

lemma arp_send_apply:
  assumes d: "devs s d = Some nd" "eth_dev nd" and m: "mem_ok s"
    and hw: "\<forall>a. dest_hw = Some a \<or> src_hw = Some a \<or> target_hw = Some a \<longrightarrow> 6 \<le> length a"
  shows "arp_send type ptype dest_ip d src_ip dest_hw src_hw target_hw s = Inr ((),
    (alloc_state s 2 (arp_skb d (arp_frame nd type ptype dest_ip src_ip dest_hw src_hw target_hw)))
      \<lparr>tap_out := tap_out s @ [arp_frame nd type ptype dest_ip src_ip dest_hw src_hw target_hw]\<rparr>)"
proof -
  let ?f = "arp_frame nd type ptype dest_ip src_ip dest_hw src_hw target_hw"
  note len = length_arp_frame [OF d(2) hw, of type ptype dest_ip src_ip]
  have "arp_create type ptype dest_ip d src_ip dest_hw src_hw target_hw s = Inr (Some (brk s), alloc_state s 2 (arp_skb d ?f))"
    using arp_create_apply [OF d _ _ hw] m by (simp add: mem_ok_def)
  moreover have "arp_xmit (brk s) (alloc_state s 2 (arp_skb d ?f)) =
      Inr ((), (alloc_state s 2 (arp_skb d ?f))\<lparr>tap_out := tap_out s @ [?f]\<rparr>)"
    using dev_queue_xmit_apply [of "alloc_state s 2 (arp_skb d ?f)" "brk s" "arp_skb d ?f" d nd] d arp_skb_simps [OF len, of d]
    by (simp add: arp_xmit_def comp_simps eth_dev_def)
  ultimately show ?thesis by (simp add: arp_send_def comp_simps)
qed

end
