(* ===== verification/Neighbour.thy ===== *)
theory Neighbour
  imports Dst Arp_Xmit
begin

text \<open>
  The neighbour table (\<^verbatim>\<open>core/neighbour.c\<close>, \<^verbatim>\<open>include/neighbour.h\<close>) and the ARP callbacks it
  is configured with (\<^verbatim>\<open>arp_solicit\<close>, \<^verbatim>\<open>arp_constructor\<close>, \<^verbatim>\<open>arp_bind_neighbour\<close> of
  \<^verbatim>\<open>ipv4/arp.c\<close>). A neighbour starts in state NONE; the first packet for it sends a
  request and makes it INCOMPLETE; packets wait in its queue until an answer makes it REACHABLE.
\<close>

section \<open>State\<close>

abbreviation (input) "NUD_NONE \<equiv> (0 :: u8)"
abbreviation (input) "NUD_INCOMPLETE \<equiv> (1 :: u8)"
abbreviation (input) "NUD_REACHABLE \<equiv> (2 :: u8)"
abbreviation (input) "AF_INET \<equiv> (2 :: int)"
abbreviation (input) "MAX_ADDR_LEN \<equiv> 32"

datatype ntbl = Arp_tbl
datatype neigh_output_fn = Neigh_blackhole | Neigh_resolve_output
datatype solicit_fn = Arp_solicit
datatype queue_xmit_fn = Dev_queue_xmit
datatype constructor_fn = Arp_constructor

record neigh_ops =
  ops_family :: int
  ops_solicit :: "solicit_fn option"
  ops_output :: "neigh_output_fn option"
  ops_queue_xmit :: "queue_xmit_fn option"

record neighbour =
  neigh_tbl :: ntbl
  neigh_dev :: "nat option"
  nud_state :: u8
  neigh_ha :: "u8 list"
  neigh_output :: "neigh_output_fn option"
  neigh_ops_ptr :: "neigh_ops option"
  primary_key :: "u8 list"

text \<open>The chain of a table's bucket is the list of its neighbours, newest first.\<close>

record neigh_table =
  tbl_family :: int
  key_len :: nat
  tbl_constructor :: "constructor_fn option"
  buckets :: "nat list"
  tbl_id :: string

record neigh_store = rt_store +
  neighs :: "nat \<rightharpoonup> neighbour"
  ntables :: "ntbl \<Rightarrow> neigh_table"
  neigh_tables :: "ntbl list"

definition get_neigh :: "nat \<Rightarrow> ('z neigh_store_scheme, neighbour) comp" where
  "get_neigh n = (\<lambda>s. case neighs s n of None \<Rightarrow> Inl Bad_pointer | Some x \<Rightarrow> Inr (x, s))"

definition upd_neigh :: "nat \<Rightarrow> (neighbour \<Rightarrow> neighbour) \<Rightarrow> ('z neigh_store_scheme, unit) comp" where
  "upd_neigh n f = bindM (get_neigh n) (\<lambda>x. modifyM (\<lambda>s. s\<lparr>neighs := (neighs s)(n \<mapsto> f x)\<rparr>))"

section \<open>The ARP callbacks\<close>

definition arp_generic_ops :: neigh_ops where
  "arp_generic_ops = \<lparr>ops_family = AF_INET, ops_solicit = Some Arp_solicit,
     ops_output = Some Neigh_resolve_output, ops_queue_xmit = Some Dev_queue_xmit\<rparr>"

definition arp_tbl :: neigh_table where
  "arp_tbl = \<lparr>tbl_family = AF_INET, key_len = 4, tbl_constructor = Some Arp_constructor,
     buckets = [], tbl_id = ''arp_cache''\<rparr>"

definition arp_solicit :: "nat \<Rightarrow> nat \<Rightarrow> ('z neigh_store_scheme, unit) comp" where
  "arp_solicit neigh skb =
     bindM (get_neigh neigh) (\<lambda>n.
     bindM (checkM (4 \<le> length (primary_key n)) Out_of_bounds) (\<lambda>_.
     let target = ld32 (primary_key n) 0 in
     bindM (get_skb skb) (\<lambda>b.
     bindM (nonnull (nh_raw b)) (\<lambda>iph.
     bindM (load32 skb (iph + 12)) (\<lambda>saddr.
     bindM (nonnull (neigh_dev n)) (\<lambda>dev.
     bindM (get_dev dev) (\<lambda>nd.
     arp_send ARPOP_REQUEST ETH_P_ARP target dev saddr None (Some (dev_addr nd)) None)))))))"

definition arp_constructor :: "nat \<Rightarrow> ('z neigh_store_scheme, int) comp" where
  "arp_constructor neigh =
     bindM (upd_neigh neigh (\<lambda>n. n\<lparr>neigh_ops_ptr := Some arp_generic_ops\<rparr>)) (\<lambda>_.
     bindM (upd_neigh neigh (\<lambda>n. n\<lparr>neigh_output := ops_output arp_generic_ops\<rparr>)) (\<lambda>_.
     returnM 0))"

section \<open>The table\<close>

definition neigh_table_init :: "ntbl \<Rightarrow> ('z neigh_store_scheme, unit) comp" where
  "neigh_table_init tbl = modifyM (\<lambda>s. s\<lparr>neigh_tables := tbl # neigh_tables s\<rparr>)"

definition neigh_blackhole :: "nat \<Rightarrow> ('z neigh_store_scheme, int) comp" where
  "neigh_blackhole skb = bindM (kfree_skb skb) (\<lambda>_. returnM 0)"

definition zero_neigh :: "ntbl \<Rightarrow> nat \<Rightarrow> neighbour" where
  "zero_neigh tbl klen = \<lparr>neigh_tbl = tbl, neigh_dev = None, nud_state = 0,
     neigh_ha = replicate MAX_ADDR_LEN 0, neigh_output = None, neigh_ops_ptr = None,
     primary_key = replicate klen 0\<rparr>"

definition neigh_alloc :: "ntbl \<Rightarrow> ('z neigh_store_scheme, nat option) comp" where
  "neigh_alloc tbl =
     bindM (getsM (\<lambda>s. key_len (ntables s tbl))) (\<lambda>klen.
     bindM malloc (\<lambda>p. case p of
         None \<Rightarrow> returnM None
       | Some n \<Rightarrow>
           bindM (modifyM (\<lambda>s. s\<lparr>neighs := (neighs s)(n \<mapsto> zero_neigh tbl klen)\<rparr>)) (\<lambda>_.
           bindM (skb_queue_head_init (Arp_queue n)) (\<lambda>_.
           bindM (upd_neigh n (\<lambda>x. x\<lparr>neigh_output := Some Neigh_blackhole, nud_state := NUD_NONE\<rparr>)) (\<lambda>_.
           returnM (Some n))))))"

definition neigh_create :: "ntbl \<Rightarrow> u8 list \<Rightarrow> nat \<Rightarrow> ('z neigh_store_scheme, nat option) comp" where
  "neigh_create tbl pkey dev =
     bindM (getsM (\<lambda>s. ntables s tbl)) (\<lambda>t.
     bindM (neigh_alloc tbl) (\<lambda>p. case p of
         None \<Rightarrow> returnM None
       | Some n \<Rightarrow>
           bindM (copy_from pkey (key_len t)) (\<lambda>key.
           bindM (upd_neigh n (\<lambda>x. x\<lparr>primary_key := put_bytes (primary_key x) 0 key\<rparr>)) (\<lambda>_.
           bindM (upd_neigh n (\<lambda>x. x\<lparr>neigh_dev := Some dev\<rparr>)) (\<lambda>_.
           bindM (case tbl_constructor t of
               None \<Rightarrow> returnM 0
             | Some Arp_constructor \<Rightarrow> arp_constructor n) (\<lambda>err.
           if err < 0 then returnM None
           else
             bindM (modifyM (\<lambda>s. s\<lparr>ntables := (ntables s)(tbl :=
               (ntables s tbl)\<lparr>buckets := n # buckets (ntables s tbl)\<rparr>)\<rparr>)) (\<lambda>_.
             returnM (Some n))))))))"

primrec neigh_lookup_loop :: "nat \<Rightarrow> u8 list \<Rightarrow> nat \<Rightarrow> nat list \<Rightarrow>
    ('z neigh_store_scheme, nat option) comp" where
  "neigh_lookup_loop klen pkey dev [] = returnM None"
| "neigh_lookup_loop klen pkey dev (i # is) = bindM (get_neigh i) (\<lambda>n.
     if Some dev = neigh_dev n \<and> take klen (primary_key n) = take klen pkey then returnM (Some i)
     else neigh_lookup_loop klen pkey dev is)"

definition neigh_lookup :: "ntbl \<Rightarrow> u8 list \<Rightarrow> nat \<Rightarrow> ('z neigh_store_scheme, nat option) comp" where
  "neigh_lookup tbl pkey dev =
     bindM (getsM (\<lambda>s. ntables s tbl)) (\<lambda>t. neigh_lookup_loop (key_len t) pkey dev (buckets t))"

definition neigh_lookup_errno :: "ntbl \<Rightarrow> u8 list \<Rightarrow> nat \<Rightarrow> ('z neigh_store_scheme, nat option) comp" where
  "neigh_lookup_errno tbl pkey dev = bindM (neigh_lookup tbl pkey dev) (\<lambda>n.
     if n \<noteq> None then returnM n else neigh_create tbl pkey dev)"

definition neigh_lookup_creat :: "ntbl \<Rightarrow> u8 list \<Rightarrow> nat \<Rightarrow> bool \<Rightarrow>
    ('z neigh_store_scheme, nat option) comp" where
  "neigh_lookup_creat tbl pkey dev creat = bindM (neigh_lookup tbl pkey dev) (\<lambda>n.
     if n \<noteq> None \<or> \<not> creat then returnM n else neigh_create tbl pkey dev)"

section \<open>Sending through a neighbour\<close>

definition neigh_event_send :: "nat \<Rightarrow> nat \<Rightarrow> ('z neigh_store_scheme, int) comp" where
  "neigh_event_send neigh skb =
     bindM (get_neigh neigh) (\<lambda>n.
     if nud_state n = NUD_REACHABLE then returnM 0
     else
       bindM (if nud_state n = NUD_NONE then
           bindM (nonnull (neigh_ops_ptr n)) (\<lambda>ops.
           bindM (nonnull (ops_solicit ops)) (\<lambda>f.
           bindM (case f of Arp_solicit \<Rightarrow> arp_solicit neigh skb) (\<lambda>_.
           upd_neigh neigh (\<lambda>n. n\<lparr>nud_state := NUD_INCOMPLETE\<rparr>))))
         else returnM ()) (\<lambda>_.
       bindM (get_neigh neigh) (\<lambda>n.
       if nud_state n = NUD_INCOMPLETE then
         bindM (skb_queue_tail (Arp_queue neigh) (Skb skb)) (\<lambda>_. returnM 1)
       else returnM 0)))"

definition neigh_resolve_output :: "nat \<Rightarrow> ('z neigh_store_scheme, int) comp" where
  "neigh_resolve_output skb =
     bindM (get_skb skb) (\<lambda>b.
     bindM (case skb_dst b of
         None \<Rightarrow> returnM None
       | Some dst \<Rightarrow> bindM (get_rt dst) (\<lambda>rt. returnM (dst_neighbour rt))) (\<lambda>p. case p of
         None \<Rightarrow> bindM (kfree_skb skb) (\<lambda>_. returnM (-1))
       | Some neigh \<Rightarrow>
           bindM (neigh_event_send neigh skb) (\<lambda>queued.
           if queued = 0 then
             bindM (get_neigh neigh) (\<lambda>n.
             bindM (nonnull (neigh_dev n)) (\<lambda>dev.
             bindM (get_dev dev) (\<lambda>nd.
             bindM (nonnull (hard_header nd)) (\<lambda>f.
             bindM (get_skb skb) (\<lambda>b.
             bindM (call_hard_header f skb dev (ntohs (skb_protocol b)) (Some (neigh_ha n)) None
               (skb_len b)) (\<lambda>err.
             if err \<ge> 0 then
               bindM (nonnull (neigh_ops_ptr n)) (\<lambda>ops.
               bindM (nonnull (ops_queue_xmit ops)) (\<lambda>g. case g of
                 Dev_queue_xmit \<Rightarrow> dev_queue_xmit skb))
             else bindM (kfree_skb skb) (\<lambda>_. returnM (-1))))))))
           else returnM 0)))"

definition call_neigh_output :: "nat \<Rightarrow> nat \<Rightarrow> ('z neigh_store_scheme, int) comp" where
  "call_neigh_output neigh skb = bindM (get_neigh neigh) (\<lambda>n.
     bindM (nonnull (neigh_output n)) (\<lambda>f. case f of
         Neigh_blackhole \<Rightarrow> neigh_blackhole skb
       | Neigh_resolve_output \<Rightarrow> neigh_resolve_output skb))"

section \<open>Learning an address\<close>

text \<open>The loop that hands the waiting packets to the neighbour's output function.\<close>

partial_function (option) neigh_flush :: "nat \<Rightarrow> ('z neigh_store_scheme) \<Rightarrow>
    (fault + (unit \<times> ('z neigh_store_scheme))) option" where
  "neigh_flush neigh s = (case dequeue_skb (Arp_queue neigh) s of
       Inl e \<Rightarrow> Some (Inl e)
     | Inr (p, t) \<Rightarrow> (case p of
           None \<Rightarrow> Some (Inr ((), t))
         | Some skb \<Rightarrow> (case call_neigh_output neigh skb t of
               Inl e \<Rightarrow> Some (Inl e)
             | Inr (rc, u) \<Rightarrow> neigh_flush neigh u)))"

declare neigh_flush.simps [code]

definition neigh_update :: "nat \<Rightarrow> u8 list option \<Rightarrow> u8 \<Rightarrow> ('z neigh_store_scheme, int) comp" where
  "neigh_update neigh lladdr new =
     bindM (get_neigh neigh) (\<lambda>n.
     bindM (upd_neigh neigh (\<lambda>x. x\<lparr>nud_state := new\<rparr>)) (\<lambda>_.
     bindM (nonnull (neigh_dev n)) (\<lambda>dev.
     bindM (get_dev dev) (\<lambda>nd.
     bindM (nonnull lladdr) (\<lambda>a.
     bindM (copy_from a (unat (addr_len nd))) (\<lambda>ha.
     bindM (checkM (length ha \<le> MAX_ADDR_LEN) Out_of_bounds) (\<lambda>_.
     bindM (upd_neigh neigh (\<lambda>x. x\<lparr>neigh_ha := put_bytes (neigh_ha x) 0 ha\<rparr>)) (\<lambda>_.
     bindM (if new AND NUD_REACHABLE \<noteq> 0 then loopM (neigh_flush neigh) else returnM ()) (\<lambda>_.
     returnM 0)))))))))"

definition neigh_event_ns :: "ntbl \<Rightarrow> u8 list option \<Rightarrow> u8 list \<Rightarrow> nat \<Rightarrow>
    ('z neigh_store_scheme, nat option) comp" where
  "neigh_event_ns tbl lladdr saddr dev =
     bindM (neigh_lookup_creat tbl saddr dev (lladdr \<noteq> None)) (\<lambda>p. case p of
         None \<Rightarrow> returnM None
       | Some neigh \<Rightarrow> bindM (neigh_update neigh lladdr NUD_REACHABLE) (\<lambda>_. returnM (Some neigh)))"

definition arp_bind_neighbour :: "nat \<Rightarrow> ('z neigh_store_scheme, int) comp" where
  "arp_bind_neighbour dst =
     bindM (get_rt dst) (\<lambda>rt. case dst_dev rt of
         None \<Rightarrow> returnM (-1)
       | Some dev \<Rightarrow>
           if dst_neighbour rt = None then
             bindM (neigh_lookup_errno Arp_tbl (bytes32 (rt_gateway rt)) dev) (\<lambda>p. case p of
                 None \<Rightarrow> returnM (-1)
               | Some n \<Rightarrow> bindM (get_rt dst) (\<lambda>rt.
                   bindM (set_rt dst (rt\<lparr>dst_neighbour := Some n\<rparr>)) (\<lambda>_. returnM 0)))
           else returnM 0)"

section \<open>Symbolic execution\<close>

lemma get_neigh_apply [comp_simps]: "neighs s n = Some x \<Longrightarrow> get_neigh n s = Inr (x, s)"
  by (simp add: get_neigh_def)

lemma upd_neigh_apply [comp_simps]:
  "neighs s n = Some x \<Longrightarrow> upd_neigh n f s = Inr ((), s\<lparr>neighs := (neighs s)(n \<mapsto> f x)\<rparr>)"
  by (simp add: upd_neigh_def comp_simps)

lemma wp_get_neigh [wp_simps]: "wp (get_neigh n) Q s \<longleftrightarrow> (\<exists>x. neighs s n = Some x \<and> Q x s)"
  by (auto simp: wp_def get_neigh_def split: option.splits)

lemma wp_upd_neigh [wp_simps]: "wp (upd_neigh n f) Q s \<longleftrightarrow>
    (\<exists>x. neighs s n = Some x \<and> Q () (s\<lparr>neighs := (neighs s)(n \<mapsto> f x)\<rparr>))"
  by (simp add: upd_neigh_def wp_simps)

lemma memory_state_neigh [simp]:
  "neighs (alloc_state s k b) = neighs s" "neighs (enq_state s q n) = neighs s" "neighs (deq_state s q n) = neighs s"
  "ntables (alloc_state s k b) = ntables s" "ntables (enq_state s q n) = ntables s" "ntables (deq_state s q n) = ntables s"
  "neigh_tables (alloc_state s k b) = neigh_tables s" "neigh_tables (enq_state s q n) = neigh_tables s"
  "neigh_tables (deq_state s q n) = neigh_tables s"
  by (simp_all add: alloc_state_def enq_state_def deq_state_def)

section \<open>The contract of a cache\<close>

text \<open>
  What the users of the neighbour table rely on: a lookup changes nothing and returns the entry
  of its key, entries of different keys are different, and creating an entry for a missing key
  changes the answer for that key only. Looking up with creation on demand then returns the
  same entry for the same key and different entries for different keys.
\<close>

locale lookup_create =
  fixes inv :: "'s \<Rightarrow> bool"
    and valid :: "'k \<Rightarrow> bool"
    and find :: "'s \<Rightarrow> 'k \<Rightarrow> nat option"
    and lookup :: "'k \<Rightarrow> ('s, nat option) comp"
    and create :: "'k \<Rightarrow> ('s, nat option) comp"
  assumes lookup_find: "inv s \<Longrightarrow> valid k \<Longrightarrow> lookup k s = Inr (find s k, s)"
    and find_inj: "inv s \<Longrightarrow> valid k \<Longrightarrow> valid k' \<Longrightarrow> find s k = Some n \<Longrightarrow> find s k' = Some n \<Longrightarrow> k = k'"
    and create_new: "inv s \<Longrightarrow> valid k \<Longrightarrow> find s k = None \<Longrightarrow>
      wp (create k) (\<lambda>r t. inv t \<and> (\<forall>k'. valid k' \<longrightarrow> find t k' = (if k' = k then r else find s k'))) s"
begin

definition get_or_create :: "'k \<Rightarrow> ('s, nat option) comp" where
  "get_or_create k = bindM (lookup k) (\<lambda>r. if r \<noteq> None then returnM r else create k)"

lemma get_or_create_spec:
  assumes "inv s" "valid k"
  shows "wp (get_or_create k) (\<lambda>r t. inv t \<and> find t k = r \<and>
    (\<forall>k'. valid k' \<longrightarrow> k' \<noteq> k \<longrightarrow> find t k' = find s k') \<and> (find s k \<noteq> None \<longrightarrow> r = find s k \<and> t = s)) s"
proof (cases "find s k")
  case None
  with create_new [OF assms None] lookup_find [OF assms] assms(2) show ?thesis
    by (auto simp: get_or_create_def wp_iff bindM_def)
next
  case (Some n)
  with lookup_find [OF assms] assms(1) show ?thesis
    by (simp add: get_or_create_def wp_def bindM_def comp_simps)
qed

lemma get_or_create_twice:
  assumes "inv s" "valid k" "valid k'"
  shows "wp (bindM (get_or_create k) (\<lambda>r. bindM (get_or_create k') (\<lambda>r'. returnM (r, r'))))
    (\<lambda>(r, r') t. inv t \<and> (r \<noteq> None \<and> r' \<noteq> None \<longrightarrow> (r = r' \<longleftrightarrow> k = k'))) s"
proof (rule wp_bindM_I [OF get_or_create_spec [OF assms(1,2)]])
  fix r t
  assume a: "inv t \<and> find t k = r \<and> (\<forall>k'. valid k' \<longrightarrow> k' \<noteq> k \<longrightarrow> find t k' = find s k') \<and>
    (find s k \<noteq> None \<longrightarrow> r = find s k \<and> t = s)"
  then have "inv t" by simp
  from get_or_create_spec [OF this assms(3)]
  show "wp (bindM (get_or_create k') (\<lambda>r'. returnM (r, r'))) (\<lambda>(r, r') t. inv t \<and> (r \<noteq> None \<and> r' \<noteq> None \<longrightarrow> (r = r' \<longleftrightarrow> k = k'))) t"
    unfolding wp_bindM
  proof (rule wp_mono)
    fix r' u
    assume b: "inv u \<and> find u k' = r' \<and> (\<forall>k. valid k \<longrightarrow> k \<noteq> k' \<longrightarrow> find u k = find t k) \<and>
      (find t k' \<noteq> None \<longrightarrow> r' = find t k' \<and> u = t)"
    have "r = r' \<longleftrightarrow> k = k'" if "r \<noteq> None" "r' \<noteq> None"
    proof
      assume "r = r'"
      show "k = k'"
      proof (rule ccontr)
        assume "k \<noteq> k'"
        with a b assms(2) have "find u k = r" "find u k' = r'" by auto
        with find_inj [of u k k'] b \<open>r = r'\<close> that assms \<open>k \<noteq> k'\<close> show False by auto
      qed
    qed (use a b that in auto)
    with b show "wp (returnM (r, r')) (\<lambda>(r, r') t. inv t \<and> (r \<noteq> None \<and> r' \<noteq> None \<longrightarrow> (r = r' \<longleftrightarrow> k = k'))) u"
      by (simp add: wp_simps)
  qed
qed

end

text \<open>The neighbour table keeps the contract; a key is an IP address in its four bytes and a device.\<close>

definition neigh_is :: "'z neigh_store_scheme \<Rightarrow> u8 list \<times> nat \<Rightarrow> nat \<Rightarrow> bool" where
  "neigh_is s k n \<longleftrightarrow> (\<exists>x. neighs s n = Some x \<and> neigh_dev x = Some (snd k) \<and> primary_key x = fst k)"

definition neigh_find :: "'z neigh_store_scheme \<Rightarrow> u8 list \<times> nat \<Rightarrow> nat option" where
  "neigh_find s k = find (neigh_is s k) (buckets (ntables s Arp_tbl))"

definition arp_neigh :: "neighbour \<Rightarrow> bool" where
  "arp_neigh x \<longleftrightarrow> length (primary_key x) = 4 \<and> length (neigh_ha x) = MAX_ADDR_LEN \<and>
     neigh_dev x \<noteq> None \<and> neigh_ops_ptr x = Some arp_generic_ops \<and> neigh_output x = Some Neigh_resolve_output"

definition neigh_inv :: "'z neigh_store_scheme \<Rightarrow> bool" where
  "neigh_inv s \<longleftrightarrow> key_len (ntables s Arp_tbl) = 4 \<and> tbl_constructor (ntables s Arp_tbl) = Some Arp_constructor \<and>
     (\<forall>n \<in> set (buckets (ntables s Arp_tbl)). n < brk s \<and> (\<exists>x. neighs s n = Some x \<and> arp_neigh x))"

lemma find_Some_in: "find P xs = Some x \<Longrightarrow> x \<in> set xs \<and> P x"
  by (auto simp: find_Some_iff)

lemma neigh_lookup_loop_find:
  "\<forall>n \<in> set ns. \<exists>x. neighs s n = Some x \<and> arp_neigh x \<Longrightarrow> length pkey = 4 \<Longrightarrow>
     neigh_lookup_loop 4 pkey d ns s = Inr (find (neigh_is s (pkey, d)) ns, s)"
  by (induction ns) (auto simp: comp_simps neigh_is_def arp_neigh_def)

lemma neigh_lookup_find:
  "neigh_inv s \<Longrightarrow> length (fst k) = 4 \<Longrightarrow> neigh_lookup Arp_tbl (fst k) (snd k) s = Inr (neigh_find s k, s)"
  by (auto simp: neigh_lookup_def comp_simps neigh_lookup_loop_find neigh_inv_def neigh_find_def)

definition new_neigh :: "u8 list \<Rightarrow> nat \<Rightarrow> neighbour" where
  "new_neigh pkey d = \<lparr>neigh_tbl = Arp_tbl, neigh_dev = Some d, nud_state = NUD_NONE,
     neigh_ha = replicate MAX_ADDR_LEN 0, neigh_output = Some Neigh_resolve_output,
     neigh_ops_ptr = Some arp_generic_ops, primary_key = pkey\<rparr>"

definition create_state :: "u8 list \<Rightarrow> nat \<Rightarrow> 'z neigh_store_scheme \<Rightarrow> 'z neigh_store_scheme" where
  "create_state pkey d s = s\<lparr>brk := brk s + 1, nxt := (nxt s)(Arp_queue (brk s) := Some (Arp_queue (brk s))),
     prv := (prv s)(Arp_queue (brk s) := Some (Arp_queue (brk s))), qlen := (qlen s)(Arp_queue (brk s) := 0),
     neighs := (neighs s)(brk s \<mapsto> new_neigh pkey d),
     ntables := (ntables s)(Arp_tbl := (ntables s Arp_tbl)\<lparr>buckets := brk s # buckets (ntables s Arp_tbl)\<rparr>)\<rparr>"

lemma neigh_create_apply:
  assumes "neigh_inv s" "length pkey = 4"
  shows "neigh_create Arp_tbl pkey d s =
    (if malloc_ok (os s) (brk s) then Inr (Some (brk s), create_state pkey d s) else Inr (None, s\<lparr>brk := brk s + 1\<rparr>))"
  using assms
  by (simp add: neigh_create_def neigh_alloc_def comp_simps neigh_inv_def skb_queue_head_init_def
      arp_constructor_def zero_neigh_def put_bytes_all create_state_def new_neigh_def arp_generic_ops_def)

lemma create_state_simps [simp]:
  "os (create_state pkey d s) = os s" "brk (create_state pkey d s) = brk s + 1" "skbs (create_state pkey d s) = skbs s"
  "devs (create_state pkey d s) = devs s" "tap_out (create_state pkey d s) = tap_out s"
  "neighs (create_state pkey d s) = (neighs s)(brk s \<mapsto> new_neigh pkey d)"
  "buckets (ntables (create_state pkey d s) Arp_tbl) = brk s # buckets (ntables s Arp_tbl)"
  "rtables (create_state pkey d s) = rtables s" "dev_base (create_state pkey d s) = dev_base s"
  by (simp_all add: create_state_def)

lemma neigh_inv_create_state: "neigh_inv s \<Longrightarrow> length pkey = 4 \<Longrightarrow> neigh_inv (create_state pkey d s)"
  by (auto simp: neigh_inv_def create_state_def new_neigh_def arp_neigh_def)

lemma neigh_find_create_state:
  assumes "neigh_inv s"
  shows "neigh_find (create_state pkey d s) k = (if k = (pkey, d) then Some (brk s) else neigh_find s k)"
proof -
  have "find (neigh_is (create_state pkey d s) k) ns = find (neigh_is s k) ns" if "\<forall>n \<in> set ns. n < brk s" for ns
    using that by (induction ns) (auto simp: neigh_is_def)
  with assms show ?thesis
    by (cases k) (auto simp: neigh_find_def neigh_inv_def, auto simp: neigh_is_def new_neigh_def)
qed

lemma neigh_brk [simp]: "neigh_find (s\<lparr>brk := k\<rparr>) = neigh_find s"
proof -
  have "neigh_is (s\<lparr>brk := k\<rparr>) = neigh_is s" by (simp add: neigh_is_def fun_eq_iff)
  then show ?thesis by (intro ext) (simp add: neigh_find_def)
qed

lemma neigh_inv_brk: "neigh_inv s \<Longrightarrow> brk s \<le> k \<Longrightarrow> neigh_inv (s\<lparr>brk := k\<rparr>)"
  by (fastforce simp: neigh_inv_def)

interpretation arp: lookup_create neigh_inv "\<lambda>k. length (fst k) = 4" neigh_find
  "\<lambda>k. neigh_lookup Arp_tbl (fst k) (snd k)" "\<lambda>k. neigh_create Arp_tbl (fst k) (snd k)"
proof
  show "k = k'" if "neigh_find s k = Some n" "neigh_find s k' = Some n" for s :: "'a neigh_store_scheme" and k k' n
    using that by (auto simp: neigh_find_def neigh_is_def prod_eq_iff dest!: find_Some_in)
  show "wp (neigh_create Arp_tbl (fst k) (snd k)) (\<lambda>r t. neigh_inv t \<and>
      (\<forall>k'. length (fst k') = 4 \<longrightarrow> neigh_find t k' = (if k' = k then r else neigh_find s k'))) s"
    if "neigh_inv s" "length (fst k) = 4" "neigh_find s k = None" for s :: "'a neigh_store_scheme" and k
    using that by (auto simp: wp_def neigh_create_apply neigh_inv_create_state neigh_find_create_state neigh_inv_brk)
qed (simp_all add: neigh_lookup_find)

text \<open>
  C25: the neighbour cache. From every well-formed table two lookups with creation on demand
  return without a fault and keep the table well formed, and when memory suffices they return
  the same neighbour exactly when address and device agree.
\<close>

theorem neigh_lookup_errno_cache:
  assumes "neigh_inv s" "length key = 4" "length key' = 4"
  shows "wp (bindM (neigh_lookup_errno Arp_tbl key d) (\<lambda>n. bindM (neigh_lookup_errno Arp_tbl key' d') (\<lambda>n'. returnM (n, n'))))
    (\<lambda>(n, n') t. neigh_inv t \<and> (n \<noteq> None \<and> n' \<noteq> None \<longrightarrow> (n = n' \<longleftrightarrow> key = key' \<and> d = d'))) s"
  using arp.get_or_create_twice [OF assms(1), of "(key, d)" "(key', d')"] assms
  by (simp add: arp.get_or_create_def neigh_lookup_errno_def cong: if_cong)

lemma neigh_lookup_errno_apply:
  assumes "neigh_inv s" "length key = 4"
  shows "neigh_lookup_errno Arp_tbl key d s = (case neigh_find s (key, d) of
      Some n \<Rightarrow> Inr (Some n, s)
    | None \<Rightarrow> if malloc_ok (os s) (brk s) then Inr (Some (brk s), create_state key d s)
        else Inr (None, s\<lparr>brk := brk s + 1\<rparr>))"
  using neigh_lookup_find [OF assms(1), of "(key, d)"] assms neigh_create_apply [OF assms]
  by (simp add: neigh_lookup_errno_def comp_simps split: option.split)

lemma neigh_rtables [simp]:
  "neigh_find (s\<lparr>rtables := f\<rparr>) k = neigh_find s k" "neigh_inv (s\<lparr>rtables := f\<rparr>) = neigh_inv s"
proof -
  have "neigh_is (s\<lparr>rtables := f\<rparr>) k = neigh_is s k" by (simp add: neigh_is_def fun_eq_iff)
  then show "neigh_find (s\<lparr>rtables := f\<rparr>) k = neigh_find s k" by (simp add: neigh_find_def)
qed (simp add: neigh_inv_def)

lemma create_state_rtables: "create_state key d (s\<lparr>rtables := f\<rparr>) = (create_state key d s)\<lparr>rtables := f\<rparr>"
  by (simp add: create_state_def)

section \<open>Sending through a resolved neighbour\<close>

text \<open>A buffer ready to be sent through neighbour \<open>n\<close>, and what is sent once it is resolved.\<close>

definition out_ready :: "'z neigh_store_scheme \<Rightarrow> nat \<Rightarrow> sk_buff \<Rightarrow> nat \<Rightarrow> neighbour \<Rightarrow> nat \<Rightarrow> net_device \<Rightarrow> bool" where
  "out_ready s i b n x d nd \<longleftrightarrow> skbs s i = Some b \<and> wf_skb b \<and> 14 \<le> skb_data b \<and> skb_dev b = Some d \<and>
     (\<exists>r rt. skb_dst b = Some r \<and> rtables s r = Some rt \<and> dst_neighbour rt = Some n) \<and>
     neighs s n = Some x \<and> arp_neigh x \<and> neigh_dev x = Some d \<and> devs s d = Some nd \<and> eth_dev nd"

definition neigh_frame :: "neighbour \<Rightarrow> net_device \<Rightarrow> sk_buff \<Rightarrow> u8 list" where
  "neigh_frame x nd b = eth_frame (take 6 (neigh_ha x)) (take 6 (dev_addr nd)) (ntohs (skb_protocol b)) (window b)"

definition framed :: "neighbour \<Rightarrow> net_device \<Rightarrow> sk_buff \<Rightarrow> sk_buff" where
  "framed x nd b = prepend (take 6 (neigh_ha x) @ take 6 (dev_addr nd) @ bytes16 (htons (ntohs (skb_protocol b)))) b"

lemma framed_simps:
  assumes "arp_neigh x" "eth_dev nd" "wf_skb b" "14 \<le> skb_data b"
  shows "wf_skb (framed x nd b)" "window (framed x nd b) = neigh_frame x nd b" "skb_dev (framed x nd b) = skb_dev b"
  using assms wf_skb_prepend [OF assms(3)] window_prepend [OF assms(3)]
  by (simp_all add: framed_def neigh_frame_def eth_frame_def arp_neigh_def eth_dev_def, simp_all add: prepend_def)

lemma neigh_output_reachable:
  assumes r: "out_ready s i b n x d nd" and st: "nud_state x = NUD_REACHABLE"
  shows "\<exists>rc. call_neigh_output n i s = Inr (rc, s\<lparr>skbs := (skbs s)(i \<mapsto> framed x nd b),
    tap_out := tap_out s @ [neigh_frame x nd b]\<rparr>)"
proof -
  from r obtain rt ro where s: "skbs s i = Some b" "skb_dst b = Some rt" "rtables s rt = Some ro"
      "dst_neighbour ro = Some n" "neighs s n = Some x" "neigh_dev x = Some d" "devs s d = Some nd"
      "skb_dev b = Some d"
    and w: "arp_neigh x" "eth_dev nd" "wf_skb b" "14 \<le> skb_data b" by (auto simp: out_ready_def)
  note f = framed_simps [OF w]
  let ?t = "s\<lparr>skbs := (skbs s)(i \<mapsto> framed x nd b)\<rparr>"
  have hdr: "eth_header i d (ntohs (skb_protocol b)) (Some (neigh_ha x)) None (skb_len b) s = Inr (14, ?t)"
    using eth_header_apply [OF s(1,7) _ w(3,4), of None "neigh_ha x"] w(1,2)
    by (simp add: framed_def eth_dev_def arp_neigh_def)
  have "\<exists>rc. dev_queue_xmit i ?t = Inr (rc, ?t\<lparr>tap_out := tap_out s @ [neigh_frame x nd b]\<rparr>)"
    using dev_queue_xmit_apply [of ?t i "framed x nd b" d nd] f s w(2) by (simp add: eth_dev_def)
  then show ?thesis
    using s w hdr st
    by (auto simp: call_neigh_output_def neigh_resolve_output_def neigh_event_send_def comp_simps arp_neigh_def
        call_hard_header_def eth_dev_def arp_generic_ops_def)
qed

lemma out_ready_other:
  assumes "out_ready s j c n x d nd" "j \<noteq> i"
  shows "out_ready ((deq_state s q i)\<lparr>skbs := (skbs s)(i \<mapsto> b), tap_out := o'\<rparr>) j c n x d nd"
  using assms by (simp add: out_ready_def)

text \<open>
  What sending the buffers \<open>I\<close> through neighbour \<open>n\<close> leaves alone: all other buffers and neighbours,
  the queues but that of \<open>n\<close> and those in \<open>Q\<close>, the routes, the devices and the upper layers.
\<close>

definition output_frame :: "node set \<Rightarrow> nat \<Rightarrow> nat set \<Rightarrow> 'z neigh_store_scheme \<Rightarrow> 'z neigh_store_scheme \<Rightarrow> bool" where
  "output_frame Q n I s t \<longleftrightarrow> mem_frame (insert (Arp_queue n) Q) I s t \<and> devs t = devs s \<and> dev_base t = dev_base s \<and> ptype_base t = ptype_base s \<and>
     rtables t = rtables s \<and> ntables t = ntables s \<and> neigh_store.more t = neigh_store.more s \<and> (\<forall>i \<in> I. skbs t i \<noteq> None) \<and>
     (\<forall>m. m \<noteq> n \<longrightarrow> neighs t m = neighs s m)"

lemma memory_state_more [simp]:
  "neigh_store.more (alloc_state s k b) = neigh_store.more s" "neigh_store.more (enq_state s q n) = neigh_store.more s"
  "neigh_store.more (deq_state s q n) = neigh_store.more s"
  by (simp_all add: alloc_state_def enq_state_def deq_state_def)

lemma output_frame_trans:
  assumes "output_frame Q n {i} s t" "output_frame Q n I t u" "i \<notin> I"
  shows "output_frame Q n (insert i I) s u"
proof -
  let ?Q = "insert (Arp_queue n) Q"
  have "mem_frame ?Q (insert i I) s t" "mem_frame ?Q (insert i I) t u"
    using assms mem_frame_mono [of ?Q "{i}" s t ?Q "insert i I"] mem_frame_mono [of ?Q I t u ?Q "insert i I"]
    by (auto simp: output_frame_def)
  then have "mem_frame ?Q (insert i I) s u" by (rule mem_frame_trans)
  moreover have "skbs u i \<noteq> None" using assms by (auto simp: output_frame_def mem_frame_def)
  ultimately show ?thesis using assms by (simp add: output_frame_def)
qed

text \<open>The flush of a resolved neighbour ends and sends the waiting packets in order.\<close>

lemma neigh_flush_sends:
  assumes "queue_rep s (Arp_queue n) xs" "nud_state x = NUD_REACHABLE"
    and "\<forall>i \<in> set xs. out_ready s i (bs i) n x d nd"
  shows "\<exists>t. neigh_flush n s = Some (Inr ((), t)) \<and> queue_rep t (Arp_queue n) [] \<and>
    tap_out t = tap_out s @ map (\<lambda>i. neigh_frame x nd (bs i)) xs \<and> neighs t = neighs s \<and> devs t = devs s \<and>
    output_frame {} n (set xs) s t"
  using assms
proof (induction xs arbitrary: s)
  case Nil
  then show ?case by (subst neigh_flush.simps) (simp add: dequeue_skb_empty output_frame_def mem_frame_same)
next
  case (Cons i xs)
  let ?s = "deq_state s (Arp_queue n) i"
  let ?t = "?s\<lparr>skbs := (skbs s)(i \<mapsto> framed x nd (bs i)), tap_out := tap_out s @ [neigh_frame x nd (bs i)]\<rparr>"
  have q: "queue_rep ?s (Arp_queue n) xs" "i \<notin> set xs"
    using deq_state_rep [OF Cons.prems(1)] Cons.prems(1) by (auto simp: queue_rep_def)
  have "out_ready ?s i (bs i) n x d nd" using Cons.prems(3) by (simp add: out_ready_def)
  from neigh_output_reachable [OF this Cons.prems(2)] obtain rc where
    out: "call_neigh_output n i ?s = Inr (rc, ?t)" by auto
  have "\<exists>t. neigh_flush n ?t = Some (Inr ((), t)) \<and> queue_rep t (Arp_queue n) [] \<and>
      tap_out t = tap_out ?t @ map (\<lambda>i. neigh_frame x nd (bs i)) xs \<and> neighs t = neighs ?t \<and> devs t = devs ?t \<and>
      output_frame {} n (set xs) ?t t"
  proof (rule Cons.IH)
    show "queue_rep ?t (Arp_queue n) xs" using queue_rep_skb_upd [OF q(1)] by simp
    show "\<forall>j \<in> set xs. out_ready ?t j (bs j) n x d nd"
      using Cons.prems(3) q(2) by (auto intro!: out_ready_other)
  qed (rule Cons.prems(2))
  moreover have "output_frame {} n {i} s ?t"
  proof -
    have "mem_frame {Arp_queue n} {i} ?s ?t" using Cons.prems(1) by (intro mem_frame_skb) (auto simp: queue_rep_def)
    then have "mem_frame {Arp_queue n} {i} s ?t" using mem_frame_deq [OF Cons.prems(1)] mem_frame_trans by blast
    then show ?thesis by (simp add: output_frame_def)
  qed
  ultimately show ?case using q(2)
    by (subst neigh_flush.simps) (auto simp: dequeue_skb_apply [OF Cons.prems(1)] out intro: output_frame_trans)
qed

end
