(* ===== verification/Fib.thy ===== *)
theory Fib
  imports Neighbour
begin

text \<open>
  The forwarding tables: \<^verbatim>\<open>ipv4/fib_hash.c\<close> (zones by prefix length, insertion, longest prefix
  first lookup) and \<^verbatim>\<open>ipv4/fib_frontend.c\<close> (the two tables, the routes of an interface
  address). Structures reachable from a table are only added at the front of their chains and
  never freed, so a table is a value: zones indexed by prefix length, each with its list of
  nodes.
\<close>

section \<open>State\<close>

abbreviation (input) "RT_TABLE_MAIN \<equiv> (254 :: u32)"
abbreviation (input) "RT_TABLE_LOCAL \<equiv> (255 :: u32)"
abbreviation (input) "RT_SCOPE_LINK \<equiv> (253 :: u8)"
abbreviation (input) "RT_SCOPE_HOST \<equiv> (254 :: u8)"
abbreviation (input) "RTM_NEWROUTE \<equiv> (24 :: int)"
abbreviation (input) "NETDEV_UP \<equiv> (1 :: int)"

record fib_config =
  fc_dst_len :: u8
  fc_scope :: u8
  fc_type :: u8
  fc_table :: u32
  fc_dst :: u32
  fc_gw :: u32
  fc_oif :: int
  fc_prefsrc :: u32

record fib_nh =
  nh_dev :: "nat option"
  nh_oif :: int
  nh_gw :: u32

record fib_info =
  fib_prefsrc :: u32
  fib_nh0 :: fib_nh

record fib_result =
  res_prefixlen :: u8
  res_type :: u8
  res_scope :: u8
  res_fi :: "fib_info option"

record fib_alias =
  fa_info :: "fib_info option"
  fa_type :: u8
  fa_scope :: u8

record fib_node =
  alias_list :: "fib_alias list"
  fn_key :: u32

record fn_zone =
  node_list :: "fib_node list"
  fz_order :: nat
  fz_mask :: u32

record fib_table =
  tb_id :: u32
  fn_zones :: "fn_zone option list"

datatype fib_tb = Local_table | Main_table

record fib_store = neigh_store +
  ip_fib_local_table :: "fib_table option"
  ip_fib_main_table :: "fib_table option"

fun table_of :: "fib_tb \<Rightarrow> 'z fib_store_scheme \<Rightarrow> fib_table option" where
  "table_of Local_table s = ip_fib_local_table s"
| "table_of Main_table s = ip_fib_main_table s"

fun set_table :: "fib_tb \<Rightarrow> fib_table \<Rightarrow> 'z fib_store_scheme \<Rightarrow> 'z fib_store_scheme" where
  "set_table Local_table t s = s\<lparr>ip_fib_local_table := Some t\<rparr>"
| "set_table Main_table t s = s\<lparr>ip_fib_main_table := Some t\<rparr>"

section \<open>The hash of zones\<close>

text \<open>
  \<^verbatim>\<open>inet_make_mask\<close>: the netmask of a prefix length in network byte order. For length 0 the
  macro shifts a 32 bit value by 32, which is undefined.
\<close>

definition netmask :: "nat \<Rightarrow> u32" where
  "netmask logmask = htonl (NOT (push_bit (32 - logmask) 1 - 1))"

definition inet_make_mask :: "nat \<Rightarrow> ('s, u32) comp" where
  "inet_make_mask logmask = (if logmask = 0 then failM Bad_shift else returnM (netmask logmask))"

definition fib_create_info :: "fib_config \<Rightarrow> ('z fib_store_scheme, fib_info option) comp" where
  "fib_create_info cfg = bindM malloc (\<lambda>fi. case fi of
       None \<Rightarrow> returnM None
     | Some _ \<Rightarrow> bindM (dev_get_by_index (fc_oif cfg)) (\<lambda>dev.
         returnM (Some \<lparr>fib_prefsrc = fc_prefsrc cfg,
           fib_nh0 = \<lparr>nh_dev = dev, nh_oif = fc_oif cfg, nh_gw = fc_gw cfg\<rparr>\<rparr>)))"

definition fn_new_zone :: "fib_tb \<Rightarrow> fib_table \<Rightarrow> nat \<Rightarrow> ('z fib_store_scheme, fn_zone option) comp" where
  "fn_new_zone tb table z = bindM malloc (\<lambda>fz. case fz of
       None \<Rightarrow> returnM None
     | Some _ \<Rightarrow> bindM (inet_make_mask z) (\<lambda>m.
         let zone = \<lparr>node_list = [], fz_order = z, fz_mask = m\<rparr> in
         bindM (modifyM (set_table tb (table\<lparr>fn_zones := (fn_zones table)[z := Some zone]\<rparr>))) (\<lambda>_.
         returnM (Some zone))))"

text \<open>Linking a new node in front of a zone.\<close>

definition link_node :: "fib_table \<Rightarrow> nat \<Rightarrow> fib_node \<Rightarrow> fib_table" where
  "link_node table z f = table\<lparr>fn_zones := (fn_zones table)[z :=
     map_option (\<lambda>fz. fz\<lparr>node_list := f # node_list fz\<rparr>) (fn_zones table ! z)]\<rparr>"

definition fn_hash_insert :: "fib_tb \<Rightarrow> fib_config \<Rightarrow> ('z fib_store_scheme, int) comp" where
  "fn_hash_insert tb cfg =
     bindM (getsM (table_of tb)) (\<lambda>p.
     bindM (nonnull p) (\<lambda>table.
     let z = unat (fc_dst_len cfg) in
     if z > 32 then returnM (-1)
     else
       bindM (case fn_zones table ! z of
           Some fz \<Rightarrow> returnM (Some fz)
         | None \<Rightarrow> fn_new_zone tb table z) (\<lambda>fz.
       if fz = None then returnM (-1)
       else
         bindM (fib_create_info cfg) (\<lambda>fi.
         bindM malloc (\<lambda>new_fa.
         if new_fa = None then returnM (-1)
         else bindM malloc (\<lambda>new_f.
           if new_f = None then returnM (-1)
           else
             bindM (inet_make_mask z) (\<lambda>m.
             let fa = \<lparr>fa_info = fi, fa_type = fc_type cfg, fa_scope = 0\<rparr>;
                 f = \<lparr>alias_list = [fa], fn_key = fc_dst cfg AND m\<rparr> in
             bindM (getsM (table_of tb)) (\<lambda>p.
             bindM (nonnull p) (\<lambda>table.
             bindM (modifyM (set_table tb (link_node table z f))) (\<lambda>_.
             returnM 0))))))))))"

definition fib_semantic_match :: "fib_alias list \<Rightarrow> nat \<Rightarrow> fault + fib_result" where
  "fib_semantic_match head prefixlen = (case head of
       [] \<Rightarrow> Inl Null_deref
     | fa # _ \<Rightarrow> Inr \<lparr>res_prefixlen = of_nat prefixlen, res_type = fa_type fa, res_scope = fa_scope fa,
         res_fi = fa_info fa\<rparr>)"

text \<open>The walk over the nodes of a zone, and over the zones from length 32 down to 0.\<close>

fun fn_find_node :: "u32 \<Rightarrow> fib_node list \<Rightarrow> fib_node option" where
  "fn_find_node key [] = None"
| "fn_find_node key (node # nodes) = (if fn_key node \<noteq> key then fn_find_node key nodes else Some node)"

fun fn_lookup_zones :: "fn_zone option list \<Rightarrow> u32 \<Rightarrow> nat \<Rightarrow> fault + fib_result option" where
  "fn_lookup_zones zs dst 0 = Inr None"
| "fn_lookup_zones zs dst (Suc i) = (case zs ! i of
       None \<Rightarrow> fn_lookup_zones zs dst i
     | Some fz \<Rightarrow> (case fn_find_node (dst AND fz_mask fz) (node_list fz) of
           None \<Rightarrow> fn_lookup_zones zs dst i
         | Some node \<Rightarrow> map_sum id Some (fib_semantic_match (alias_list node) (fz_order fz))))"

text \<open>\<open>Some res\<close>: the function returns 0 and has filled \<open>res\<close>; \<open>None\<close>: it returns 1.\<close>

definition fn_hash_lookup :: "fib_table \<Rightarrow> flowi \<Rightarrow> fault + fib_result option" where
  "fn_hash_lookup tb flp = fn_lookup_zones (fn_zones tb) (fl4_dst flp) 33"

definition fib_hash_init :: "fib_tb \<Rightarrow> u32 \<Rightarrow> ('z fib_store_scheme, unit) comp" where
  "fib_hash_init tb tid = bindM malloc (\<lambda>p. bindM (nonnull p) (\<lambda>_.
     modifyM (set_table tb \<lparr>tb_id = tid, fn_zones = replicate 33 None\<rparr>)))"

section \<open>The front end\<close>

definition ip_fib_init :: "('z fib_store_scheme, unit) comp" where
  "ip_fib_init = bindM (fib_hash_init Local_table RT_TABLE_LOCAL) (\<lambda>_.
     fib_hash_init Main_table RT_TABLE_MAIN)"

definition fib_get_table :: "u32 \<Rightarrow> fib_tb" where
  "fib_get_table tid = (if tid \<noteq> RT_TABLE_LOCAL then Main_table else Local_table)"

definition fib_new_table :: "u32 \<Rightarrow> fib_tb" where
  "fib_new_table tid = fib_get_table tid"

definition fib_magic :: "int \<Rightarrow> u8 \<Rightarrow> u32 \<Rightarrow> u8 \<Rightarrow> in_ifaddr \<Rightarrow> ('z fib_store_scheme, unit) comp" where
  "fib_magic cmd type dst dst_len ifa =
     bindM (nonnull (ifa_dev ifa)) (\<lambda>i.
     bindM (get_in_dev i) (\<lambda>in_dev.
     bindM (nonnull (indev_dev in_dev)) (\<lambda>d.
     bindM (get_dev d) (\<lambda>nd.
     let cfg = \<lparr>fc_dst_len = dst_len, fc_scope = 0, fc_type = type, fc_table = 0, fc_dst = dst,
           fc_gw = 0, fc_oif = ifindex nd, fc_prefsrc = ifa_address ifa\<rparr>;
         tb = (if type = RTN_UNICAST then fib_new_table RT_TABLE_MAIN else fib_new_table RT_TABLE_LOCAL) in
     bindM (getsM (table_of tb)) (\<lambda>p. case p of
         None \<Rightarrow> returnM ()
       | Some t \<Rightarrow>
           let cfg = cfg\<lparr>fc_table := tb_id t\<rparr>;
               cfg = (if type \<noteq> RTN_LOCAL then cfg\<lparr>fc_scope := RT_SCOPE_LINK\<rparr>
                      else cfg\<lparr>fc_scope := RT_SCOPE_HOST\<rparr>) in
           if cmd = RTM_NEWROUTE then bindM (fn_hash_insert tb cfg) (\<lambda>_. returnM ())
           else returnM ())))))"

definition fib_add_ifaddr :: "in_ifaddr \<Rightarrow> ('z fib_store_scheme, unit) comp" where
  "fib_add_ifaddr ifa =
     (let mask = ifa_mask ifa; addr = ifa_address ifa; prefix = ifa_address ifa AND mask in
      bindM (fib_magic RTM_NEWROUTE RTN_LOCAL addr 32 ifa) (\<lambda>_.
      bindM (fib_magic RTM_NEWROUTE RTN_UNICAST prefix (ifa_prefixlen ifa) ifa) (\<lambda>_.
      if ifa_prefixlen ifa < 31 then
        bindM (fib_magic RTM_NEWROUTE RTN_BROADCAST prefix 32 ifa) (\<lambda>_.
        fib_magic RTM_NEWROUTE RTN_BROADCAST (prefix OR NOT mask) 32 ifa)
      else returnM ())))"

primrec fib_add_ifaddrs :: "in_ifaddr list \<Rightarrow> ('z fib_store_scheme, unit) comp" where
  "fib_add_ifaddrs [] = returnM ()"
| "fib_add_ifaddrs (ifa # ifas) = bindM (fib_add_ifaddr ifa) (\<lambda>_. fib_add_ifaddrs ifas)"

definition fib_netdev_event :: "int \<Rightarrow> nat \<Rightarrow> ('z fib_store_scheme, int) comp" where
  "fib_netdev_event event dev =
     bindM (in_dev_get dev) (\<lambda>p. case p of
         None \<Rightarrow> returnM (-1)
       | Some i \<Rightarrow>
           bindM (if event = NETDEV_UP
             then bindM (get_in_dev i) (\<lambda>in_dev. fib_add_ifaddrs (ifa_list in_dev))
             else returnM ()) (\<lambda>_.
           returnM 0))"

text \<open>\<open>Some res\<close>: the function returns 0 with \<open>res\<close>; \<open>None\<close>: it returns -1.\<close>

definition liftE :: "fault + 'a \<Rightarrow> ('s, 'a) comp" where
  "liftE x = (case x of Inl e \<Rightarrow> failM e | Inr v \<Rightarrow> returnM v)"

definition fib_lookup :: "flowi \<Rightarrow> ('z fib_store_scheme, fib_result option) comp" where
  "fib_lookup flp =
     bindM (getsM ip_fib_local_table) (\<lambda>p.
     bindM (nonnull p) (\<lambda>local.
     bindM (liftE (fn_hash_lookup local flp)) (\<lambda>r. case r of
         Some res \<Rightarrow> returnM (Some res)
       | None \<Rightarrow>
           bindM (getsM ip_fib_main_table) (\<lambda>p.
           bindM (nonnull p) (\<lambda>main. liftE (fn_hash_lookup main flp))))))"

section \<open>The contract of a routing table\<close>

text \<open>
  Addresses are in network byte order; a destination lies in a prefix when the leading \<open>len\<close>
  bits of the two agree.
\<close>

definition in_prefix :: "nat \<Rightarrow> u32 \<Rightarrow> u32 \<Rightarrow> bool" where
  "in_prefix len key dst \<longleftrightarrow> drop_bit (32 - len) (ntohl key) = drop_bit (32 - len) (ntohl dst)"

lemma netmask_alt: "netmask len = htonl (NOT (mask (32 - len)))"
  by (simp add: netmask_def mask_eq_exp_minus_1)

lemma netmask_prefix: "(key AND netmask len) = (dst AND netmask len) \<longleftrightarrow> in_prefix len key dst"
proof -
  have "key AND netmask len = htonl (ntohl key AND NOT (mask (32 - len)))" for key
    by (simp add: netmask_alt htonl_and ntohl_def)
  then show ?thesis by (simp add: in_prefix_def and_not_mask_eq_iff)
qed

text \<open>
  A table answers a destination with the length and the content of a route. Inserting a route
  changes the answer exactly for the destinations in its prefix that had no longer match: the
  newest of the longest matches wins.
\<close>

definition better :: "nat \<Rightarrow> u32 \<Rightarrow> 'r \<Rightarrow> u32 \<Rightarrow> (nat \<times> 'r) option \<Rightarrow> (nat \<times> 'r) option" where
  "better len key r dst old =
     (if in_prefix len key dst \<and> (case old of None \<Rightarrow> True | Some (l, _) \<Rightarrow> l \<le> len) then Some (len, r) else old)"

locale longest_prefix_table =
  fixes inv :: "'t \<Rightarrow> bool"
    and empty :: 't
    and insert :: "nat \<Rightarrow> u32 \<Rightarrow> 'r \<Rightarrow> 't \<Rightarrow> 't"
    and lookup :: "'t \<Rightarrow> u32 \<Rightarrow> (nat \<times> 'r) option"
  assumes inv_empty: "inv empty"
    and inv_insert: "inv t \<Longrightarrow> 0 < len \<Longrightarrow> len \<le> 32 \<Longrightarrow> inv (insert len key r t)"
    and lookup_empty: "lookup empty dst = None"
    and lookup_insert: "inv t \<Longrightarrow> 0 < len \<Longrightarrow> len \<le> 32 \<Longrightarrow>
      lookup (insert len key r t) dst = better len key r dst (lookup t dst)"
begin

definition insert_all :: "(nat \<times> u32 \<times> 'r) list \<Rightarrow> 't" where
  "insert_all rs = foldr (\<lambda>(len, key, r). insert len key r) rs empty"

definition valid_routes :: "(nat \<times> u32 \<times> 'r) list \<Rightarrow> bool" where
  "valid_routes rs \<longleftrightarrow> (\<forall>(len, key, r) \<in> set rs. 0 < len \<and> len \<le> 32)"

lemma inv_insert_all: "valid_routes rs \<Longrightarrow> inv (insert_all rs)"
  by (induction rs) (auto simp: insert_all_def valid_routes_def inv_empty inv_insert)

lemma lookup_insert_all_Cons:
  "valid_routes ((len, key, r) # rs) \<Longrightarrow>
     lookup (insert_all ((len, key, r) # rs)) dst = better len key r dst (lookup (insert_all rs) dst)"
  using inv_insert_all [of rs] by (simp add: insert_all_def valid_routes_def lookup_insert)

lemma longest_prefix_match:
  assumes "valid_routes rs"
  shows "case lookup (insert_all rs) dst of
      None \<Rightarrow> \<forall>(len, key, r) \<in> set rs. \<not> in_prefix len key dst
    | Some (l, r) \<Rightarrow> (\<exists>key. (l, key, r) \<in> set rs \<and> in_prefix l key dst) \<and>
        (\<forall>(len, key, r) \<in> set rs. in_prefix len key dst \<longrightarrow> len \<le> l)"
  using assms
proof (induction rs)
  case Nil
  then show ?case by (simp add: insert_all_def lookup_empty)
next
  case (Cons a rs)
  obtain len key r where a: "a = (len, key, r)" by (cases a)
  with Cons have v: "valid_routes rs" by (simp add: valid_routes_def)
  note step = lookup_insert_all_Cons [OF Cons.prems [unfolded a], of dst]
  show ?case
  proof (cases "lookup (insert_all rs) dst")
    case None
    with Cons.IH [OF v] step show ?thesis by (auto simp: a better_def)
  next
    case (Some p)
    obtain l r' where "p = (l, r')" by (cases p)
    with Some Cons.IH [OF v] step show ?thesis by (fastforce simp: a better_def)
  qed
qed

end

section \<open>The zones keep the contract\<close>

text \<open>
  \<open>add_route\<close> is the effect of a successful \<^verbatim>\<open>fn_hash_insert\<close> on a table, \<open>fib_find\<close> the
  answer of \<^verbatim>\<open>fn_hash_lookup\<close> before it is written into a \<^verbatim>\<open>struct fib_result\<close>.
\<close>

definition new_zone :: "nat \<Rightarrow> fn_zone" where
  "new_zone z = \<lparr>node_list = [], fz_order = z, fz_mask = netmask z\<rparr>"

definition open_zone :: "nat \<Rightarrow> fib_table \<Rightarrow> fib_table" where
  "open_zone z t = (if fn_zones t ! z = None then t\<lparr>fn_zones := (fn_zones t)[z := Some (new_zone z)]\<rparr> else t)"

definition add_route :: "nat \<Rightarrow> u32 \<Rightarrow> fib_alias \<Rightarrow> fib_table \<Rightarrow> fib_table" where
  "add_route z key fa t = link_node (open_zone z t) z \<lparr>alias_list = [fa], fn_key = key AND netmask z\<rparr>"

definition wf_zone :: "nat \<Rightarrow> fn_zone \<Rightarrow> bool" where
  "wf_zone i fz \<longleftrightarrow> fz_order fz = i \<and> fz_mask fz = netmask i \<and> (\<forall>n \<in> set (node_list fz). alias_list n \<noteq> [])"

definition wf_fib :: "fib_table \<Rightarrow> bool" where
  "wf_fib t \<longleftrightarrow> length (fn_zones t) = 33 \<and> (\<forall>i < 33. \<forall>fz. fn_zones t ! i = Some fz \<longrightarrow> wf_zone i fz)"

definition empty_fib :: "u32 \<Rightarrow> fib_table" where
  "empty_fib tid = \<lparr>tb_id = tid, fn_zones = replicate 33 None\<rparr>"

definition route_at :: "fn_zone option list \<Rightarrow> u32 \<Rightarrow> nat \<Rightarrow> fib_node option" where
  "route_at zs dst i = (case zs ! i of None \<Rightarrow> None
     | Some fz \<Rightarrow> fn_find_node (dst AND fz_mask fz) (node_list fz))"

fun best_route :: "fn_zone option list \<Rightarrow> u32 \<Rightarrow> nat \<Rightarrow> (nat \<times> fib_alias) option" where
  "best_route zs dst 0 = None"
| "best_route zs dst (Suc i) = (case route_at zs dst i of
       None \<Rightarrow> best_route zs dst i
     | Some node \<Rightarrow> Some (i, hd (alias_list node)))"

definition fib_result_of :: "nat \<times> fib_alias \<Rightarrow> fib_result" where
  "fib_result_of r = \<lparr>res_prefixlen = of_nat (fst r), res_type = fa_type (snd r), res_scope = fa_scope (snd r),
     res_fi = fa_info (snd r)\<rparr>"

definition fib_find :: "fib_table \<Rightarrow> u32 \<Rightarrow> (nat \<times> fib_alias) option" where
  "fib_find t dst = best_route (fn_zones t) dst 33"

lemma fn_find_node_set: "fn_find_node key ns = Some n \<Longrightarrow> n \<in> set ns"
  by (induction ns) (auto split: if_splits)

lemma fn_lookup_zones_best:
  "wf_fib t \<Longrightarrow> n \<le> 33 \<Longrightarrow>
     fn_lookup_zones (fn_zones t) dst n = Inr (map_option fib_result_of (best_route (fn_zones t) dst n))"
proof (induction n)
  case (Suc n)
  show ?case
  proof (cases "fn_zones t ! n")
    case (Some fz)
    with Suc.prems have fz: "wf_zone n fz" by (simp add: wf_fib_def)
    show ?thesis
    proof (cases "fn_find_node (dst AND fz_mask fz) (node_list fz)")
      case (Some node)
      with fz have "alias_list node \<noteq> []" by (auto simp: wf_zone_def dest: fn_find_node_set)
      then obtain fa rest where "alias_list node = fa # rest" by (cases "alias_list node") auto
      with Some fz \<open>fn_zones t ! n = Some fz\<close> show ?thesis
        by (simp add: route_at_def fib_semantic_match_def fib_result_of_def wf_zone_def)
    qed (use Suc Some in \<open>simp add: route_at_def\<close>)
  qed (use Suc in \<open>simp add: route_at_def\<close>)
qed simp

lemma fn_hash_lookup_find:
  "wf_fib t \<Longrightarrow> fn_hash_lookup t flp = Inr (map_option fib_result_of (fib_find t (fl4_dst flp)))"
  by (simp add: fn_hash_lookup_def fib_find_def fn_lookup_zones_best)

lemma wf_open_zone: "wf_fib t \<Longrightarrow> z \<le> 32 \<Longrightarrow> wf_fib (open_zone z t)"
  by (auto simp: open_zone_def wf_fib_def wf_zone_def new_zone_def nth_list_update)

lemma open_zone_at: "wf_fib t \<Longrightarrow> z \<le> 32 \<Longrightarrow> \<exists>fz. fn_zones (open_zone z t) ! z = Some fz"
  by (auto simp: open_zone_def wf_fib_def)

lemma route_at_open_zone:
  "wf_fib t \<Longrightarrow> z \<le> 32 \<Longrightarrow> route_at (fn_zones (open_zone z t)) dst i = route_at (fn_zones t) dst i"
  by (auto simp: route_at_def open_zone_def wf_fib_def new_zone_def nth_list_update)

lemma wf_link_node: "wf_fib t \<Longrightarrow> z \<le> 32 \<Longrightarrow> alias_list f \<noteq> [] \<Longrightarrow> wf_fib (link_node t z f)"
  by (cases "fn_zones t ! z") (auto simp: link_node_def wf_fib_def wf_zone_def nth_list_update less_Suc_eq_le [symmetric])

lemma wf_add_route: "wf_fib t \<Longrightarrow> z \<le> 32 \<Longrightarrow> wf_fib (add_route z key fa t)"
  by (simp add: add_route_def wf_link_node wf_open_zone)

lemma route_at_add_route:
  assumes "wf_fib t" "z \<le> 32"
  shows "route_at (fn_zones (add_route z key fa t)) dst i =
    (if i = z \<and> in_prefix z key dst then Some \<lparr>alias_list = [fa], fn_key = key AND netmask z\<rparr>
     else route_at (fn_zones t) dst i)"
proof -
  obtain fz where fz: "fn_zones (open_zone z t) ! z = Some fz" using open_zone_at [OF assms] by auto
  have wf: "wf_fib (open_zone z t)" by (rule wf_open_zone [OF assms])
  with fz assms(2) have z: "fz_mask fz = netmask z" "z < length (fn_zones (open_zone z t))"
    by (auto simp: wf_fib_def wf_zone_def)
  have "route_at (fn_zones (add_route z key fa t)) dst i =
    (if i = z \<and> in_prefix z key dst then Some \<lparr>alias_list = [fa], fn_key = key AND netmask z\<rparr>
     else route_at (fn_zones (open_zone z t)) dst i)"
    using fz z by (auto simp: route_at_def add_route_def link_node_def nth_list_update netmask_prefix)
  then show ?thesis by (simp add: route_at_open_zone [OF assms])
qed

lemma best_route_less: "best_route zs dst n = Some (l, fa) \<Longrightarrow> l < n"
  by (induction n) (auto split: option.splits)

lemma best_route_add_route:
  assumes "wf_fib t" "z \<le> 32"
  shows "best_route (fn_zones (add_route z key fa t)) dst n =
    (if z < n then better z key fa dst (best_route (fn_zones t) dst n) else best_route (fn_zones t) dst n)"
proof (induction n)
  case (Suc n)
  then show ?case
    by (auto simp: route_at_add_route [OF assms] better_def less_Suc_eq split: option.splits dest: best_route_less)
qed simp

interpretation fib: longest_prefix_table wf_fib "empty_fib tid" add_route fib_find
proof
  show "wf_fib (empty_fib tid)" by (simp add: wf_fib_def empty_fib_def)
  have "best_route (replicate 33 None) dst n = None" if "n \<le> 33" for dst n
    using that by (induction n) (simp_all add: route_at_def)
  then show "fib_find (empty_fib tid) dst = None" for dst by (simp add: fib_find_def empty_fib_def)
qed (simp_all add: wf_add_route fib_find_def best_route_add_route)

lemma fib_find_open_zone:
  assumes "wf_fib t" "z \<le> 32"
  shows "fib_find (open_zone z t) dst = fib_find t dst"
proof -
  have "best_route (fn_zones (open_zone z t)) dst n = best_route (fn_zones t) dst n" for n
    by (induction n) (simp_all add: route_at_open_zone [OF assms] split: option.split)
  then show ?thesis by (simp add: fib_find_def)
qed

lemma in_prefix_32 [simp]: "in_prefix 32 key dst \<longleftrightarrow> key = dst"
  by (simp add: in_prefix_def ntohl_def)

lemma better_full:
  "better 32 key r dst (fib_find t dst) = (if key = dst then Some (32, r) else fib_find t dst)"
  using best_route_less [of "fn_zones t" dst 33] by (auto simp: better_def fib_find_def split: option.split)

lemma fib_find_add_route:
  "wf_fib t \<Longrightarrow> z \<le> 32 \<Longrightarrow> fib_find (add_route z key fa t) dst = better z key fa dst (fib_find t dst)"
  by (simp add: fib_find_def best_route_add_route)

section \<open>Effect of the operations on the tables\<close>

lemma table_of_set_table [simp]:
  "table_of tb (set_table tb' t s) = (if tb = tb' then Some t else table_of tb s)"
  by (cases tb; cases tb') simp_all

lemma table_of_brk [simp]: "table_of tb (s\<lparr>brk := n\<rparr>) = table_of tb s"
  by (cases tb) simp_all

lemma set_table_fields [simp]:
  "os (set_table tb t s) = os s" "brk (set_table tb t s) = brk s" "devs (set_table tb t s) = devs s"
  "dev_base (set_table tb t s) = dev_base s" "in_devs (set_table tb t s) = in_devs s"
  by (cases tb; simp)+

text \<open>The alias a configuration asks for; \<open>ok\<close> tells whether the route information could be allocated.\<close>

definition alias_of :: "fib_config \<Rightarrow> nat \<Rightarrow> bool \<Rightarrow> fib_alias" where
  "alias_of cfg d ok = \<lparr>fa_info = (if ok then Some \<lparr>fib_prefsrc = fc_prefsrc cfg,
     fib_nh0 = \<lparr>nh_dev = Some d, nh_oif = fc_oif cfg, nh_gw = fc_gw cfg\<rparr>\<rparr> else None),
     fa_type = fc_type cfg, fa_scope = 0\<rparr>"

lemma wp_fib_create_info:
  assumes "dev_base s = Some d" "devs s d = Some nd" "ifindex nd = fc_oif cfg"
  shows "wp (fib_create_info cfg) Q s \<longleftrightarrow>
    Q (fa_info (alias_of cfg d (malloc_ok (os s) (brk s)))) (s\<lparr>brk := brk s + 1\<rparr>)"
  using assms by (simp add: fib_create_info_def wp_simps wp_dev_get_by_index alias_of_def)

lemma set_table_brk: "set_table tb t (s\<lparr>brk := k\<rparr>) = (set_table tb t s)\<lparr>brk := k\<rparr>"
  by (cases tb) simp_all

lemma set_table_set_table [simp]: "set_table tb t' (set_table tb t s) = set_table tb t' s"
  by (cases tb) simp_all

lemma wp_fn_hash_insert:
  assumes s: "table_of tb s = Some t" "wf_fib t"
    and z: "z = unat (fc_dst_len cfg)" "0 < z" "z \<le> 32"
    and dev: "dev_base s = Some d" "devs s d = Some nd" "ifindex nd = fc_oif cfg"
    and fail: "\<And>k. \<not> mem_ok s \<Longrightarrow> brk s \<le> k \<Longrightarrow> Q (-1) (s\<lparr>brk := k\<rparr>)"
      "\<And>k. \<not> mem_ok s \<Longrightarrow> brk s \<le> k \<Longrightarrow> Q (-1) ((set_table tb (open_zone z t) s)\<lparr>brk := k\<rparr>)"
    and ok: "\<And>k ok. ok \<or> \<not> mem_ok s \<Longrightarrow> brk s \<le> k \<Longrightarrow> Q 0 ((set_table tb (add_route z (fc_dst cfg) (alias_of cfg d ok) t) s)\<lparr>brk := k\<rparr>)"
  shows "wp (fn_hash_insert tb cfg) Q s"
proof -
  have fa: "\<lparr>fa_info = fa_info (alias_of cfg d ok), fa_type = fc_type cfg, fa_scope = 0\<rparr> = alias_of cfg d ok" for ok
    by (simp add: alias_of_def)
  have bad: "malloc_ok (os s) k \<or> \<not> mem_ok s" for k by (auto dest: mem_okD)
  show ?thesis
  proof (cases "fn_zones t ! z")
    case None
    then have "t\<lparr>fn_zones := (fn_zones t)[z := Some \<lparr>node_list = [], fz_order = z, fz_mask = netmask z\<rparr>]\<rparr> = open_zone z t"
      by (simp add: open_zone_def new_zone_def)
    with None show ?thesis
      using s z dev fail ok
      by (simp add: fn_hash_insert_def fn_new_zone_def wp_simps wp_fib_create_info inet_make_mask_def Let_def fa add_route_def set_table_brk bad mem_okD)
  next
    case (Some fz)
    then have "t = open_zone z t" by (simp add: open_zone_def)
    with Some show ?thesis
      using s z dev fail ok
      by (simp add: fn_hash_insert_def fn_new_zone_def wp_simps wp_fib_create_info inet_make_mask_def Let_def fa add_route_def set_table_brk bad mem_okD)
  qed
qed

text \<open>The route of type \<open>type\<close> that an interface address contributes.\<close>

definition ifa_alias :: "u8 \<Rightarrow> in_ifaddr \<Rightarrow> nat \<Rightarrow> net_device \<Rightarrow> fib_alias" where
  "ifa_alias type ifa d nd = \<lparr>fa_info = Some \<lparr>fib_prefsrc = ifa_address ifa,
     fib_nh0 = \<lparr>nh_dev = Some d, nh_oif = ifindex nd, nh_gw = 0\<rparr>\<rparr>, fa_type = type, fa_scope = 0\<rparr>"

definition magic_table :: "u8 \<Rightarrow> fib_tb" where
  "magic_table type = (if type = RTN_UNICAST then Main_table else Local_table)"

lemma wp_fib_magic:
  assumes ifa: "ifa_dev ifa = Some i" "in_devs s i = Some x" "indev_dev x = Some d"
    and dev: "dev_base s = Some d" "devs s d = Some nd"
    and tb: "table_of (magic_table type) s = Some t" "wf_fib t"
    and len: "0 < dst_len" "dst_len \<le> 32" and "mem_ok s"
    and Q: "\<And>k. brk s \<le> k \<Longrightarrow> Q () ((set_table (magic_table type)
        (add_route (unat dst_len) dst (ifa_alias type ifa d nd) t) s)\<lparr>brk := k\<rparr>)"
  shows "wp (fib_magic RTM_NEWROUTE type dst dst_len ifa) Q s"
proof -
  have z: "0 < unat dst_len" "unat dst_len \<le> 32" using len by (simp_all add: word_less_nat_alt word_le_nat_alt)
  have tab: "(if type = RTN_UNICAST then fib_new_table RT_TABLE_MAIN else fib_new_table RT_TABLE_LOCAL) = magic_table type"
    by (simp add: magic_table_def fib_new_table_def fib_get_table_def)
  show ?thesis
    unfolding fib_magic_def
    using ifa dev tb z Q \<open>mem_ok s\<close>
    by (simp add: wp_simps tab Let_def)
      (intro conjI impI wp_fn_hash_insert [where z = "unat dst_len" and d = d and nd = nd and t = t];
       simp add: alias_of_def ifa_alias_def wp_simps)
qed

lemma mem_ok_set_table [simp]: "mem_ok (set_table tb t s) = mem_ok s"
  by (simp add: mem_ok_def)

definition ifa_ready :: "'z fib_store_scheme \<Rightarrow> in_ifaddr \<Rightarrow> nat \<Rightarrow> net_device \<Rightarrow> bool" where
  "ifa_ready s ifa d nd \<longleftrightarrow> mem_ok s \<and> dev_base s = Some d \<and> devs s d = Some nd \<and>
     (\<exists>i x. ifa_dev ifa = Some i \<and> in_devs s i = Some x \<and> indev_dev x = Some d)"

lemma ifa_ready_simps [simp]:
  "ifa_ready (s\<lparr>brk := k\<rparr>) ifa d nd = ifa_ready s ifa d nd"
  "ifa_ready (set_table tb t s) ifa d nd = ifa_ready s ifa d nd"
  by (simp_all add: ifa_ready_def)

text \<open>The two tables and their contents as functions from destinations to routes.\<close>

definition fib_rep :: "'z fib_store_scheme \<Rightarrow> (u32 \<Rightarrow> (nat \<times> fib_alias) option) \<Rightarrow>
    (u32 \<Rightarrow> (nat \<times> fib_alias) option) \<Rightarrow> bool" where
  "fib_rep s lcl mn \<longleftrightarrow> (\<exists>l m. table_of Local_table s = Some l \<and> table_of Main_table s = Some m \<and>
     wf_fib l \<and> wf_fib m \<and> fib_find l = lcl \<and> fib_find m = mn \<and>
     (\<forall>d r. lcl d = Some r \<longrightarrow> fst r \<le> 32))"

lemma fib_find_le: "fib_find t dst = Some r \<Longrightarrow> fst r \<le> 32"
  using best_route_less [of "fn_zones t" dst 33 "fst r" "snd r"] by (simp add: fib_find_def)

lemma fib_repI: "table_of Local_table s = Some l \<Longrightarrow> table_of Main_table s = Some m \<Longrightarrow>
  wf_fib l \<Longrightarrow> wf_fib m \<Longrightarrow> fib_find l = lcl \<Longrightarrow> fib_find m = mn \<Longrightarrow> fib_rep s lcl mn"
  using fib_find_le by (fastforce simp: fib_rep_def)

text \<open>Adding routes changes the two tables and takes memory.\<close>

definition fib_frame :: "'z fib_store_scheme \<Rightarrow> 'z fib_store_scheme \<Rightarrow> bool" where
  "fib_frame s t \<longleftrightarrow> (\<exists>k l m. brk s \<le> k \<and> t = s\<lparr>brk := k, ip_fib_local_table := l, ip_fib_main_table := m\<rparr>)"

lemma fib_frameI: "t = s\<lparr>brk := k, ip_fib_local_table := l, ip_fib_main_table := m\<rparr> \<Longrightarrow> brk s \<le> k \<Longrightarrow> fib_frame s t"
  by (auto simp: fib_frame_def)

lemma fib_frame_trans:
  assumes "fib_frame s t" "fib_frame t u"
  shows "fib_frame s u"
proof -
  from assms obtain k l m k' l' m' where "brk s \<le> k" "t = s\<lparr>brk := k, ip_fib_local_table := l, ip_fib_main_table := m\<rparr>"
    "k \<le> k'" "u = t\<lparr>brk := k', ip_fib_local_table := l', ip_fib_main_table := m'\<rparr>" by (auto simp: fib_frame_def)
  then show ?thesis by (intro fib_frameI [where k = k' and l = l' and m = m']) simp_all
qed

lemma fib_frame_set_table: "brk s \<le> k \<Longrightarrow> fib_frame s ((set_table tb t s)\<lparr>brk := k\<rparr>)"
  by (cases tb) (auto intro: fib_frameI [where k = k and l = "Some t" and m = "ip_fib_main_table s"]
    fib_frameI [where k = k and l = "ip_fib_local_table s" and m = "Some t"])

lemma wp_magic_local:
  assumes "fib_rep s lcl mn" "ifa_ready s ifa d nd" "type \<noteq> RTN_UNICAST"
    and Q: "\<And>s'. fib_rep s' (lcl(dst \<mapsto> (32, ifa_alias type ifa d nd))) mn \<Longrightarrow> ifa_ready s' ifa d nd \<Longrightarrow> fib_frame s s' \<Longrightarrow> Q () s'"
  shows "wp (fib_magic RTM_NEWROUTE type dst 32 ifa) Q s"
proof -
  from assms(1) obtain l m where t: "table_of Local_table s = Some l" "table_of Main_table s = Some m"
    "wf_fib l" "wf_fib m" "fib_find l = lcl" "fib_find m = mn" by (auto simp: fib_rep_def)
  from assms(2) obtain i x where r: "ifa_dev ifa = Some i" "in_devs s i = Some x" "indev_dev x = Some d"
    "dev_base s = Some d" "devs s d = Some nd" "mem_ok s" by (auto simp: ifa_ready_def)
  have tb: "magic_table type = Local_table" using assms(3) by (simp add: magic_table_def)
  show ?thesis
  proof (rule wp_fib_magic [OF r(1-5)])
    fix k assume k: "brk s \<le> k"
    let ?s = "(set_table (magic_table type) (add_route (unat (32::u8)) dst (ifa_alias type ifa d nd) l) s)\<lparr>brk := k\<rparr>"
    have "fib_rep ?s (lcl(dst \<mapsto> (32, ifa_alias type ifa d nd))) mn"
      using t by (intro fib_repI [where l = "add_route 32 dst (ifa_alias type ifa d nd) l" and m = m])
        (auto simp: tb fib_find_add_route better_full wf_add_route)
    moreover have "ifa_ready ?s ifa d nd" using assms(2) by simp
    ultimately show "Q () ?s" using fib_frame_set_table [OF k] by (rule Q)
  qed (use t r tb in simp_all)
qed

lemma wp_magic_main:
  assumes "fib_rep s lcl mn" "ifa_ready s ifa d nd" "0 < len" "len \<le> 32"
    and Q: "\<And>s'. fib_rep s' lcl (\<lambda>dst. better (unat len) key (ifa_alias RTN_UNICAST ifa d nd) dst (mn dst)) \<Longrightarrow>
      ifa_ready s' ifa d nd \<Longrightarrow> fib_frame s s' \<Longrightarrow> Q () s'"
  shows "wp (fib_magic RTM_NEWROUTE RTN_UNICAST key len ifa) Q s"
proof -
  from assms(1) obtain l m where t: "table_of Local_table s = Some l" "table_of Main_table s = Some m"
    "wf_fib l" "wf_fib m" "fib_find l = lcl" "fib_find m = mn" by (auto simp: fib_rep_def)
  from assms(2) obtain i x where r: "ifa_dev ifa = Some i" "in_devs s i = Some x" "indev_dev x = Some d"
    "dev_base s = Some d" "devs s d = Some nd" "mem_ok s" by (auto simp: ifa_ready_def)
  have tb: "magic_table RTN_UNICAST = Main_table" by (simp add: magic_table_def)
  have len: "unat len \<le> 32" using assms(4) by (simp add: word_le_nat_alt)
  show ?thesis
  proof (rule wp_fib_magic [OF r(1-5)])
    fix k assume k: "brk s \<le> k"
    let ?s = "(set_table (magic_table RTN_UNICAST) (add_route (unat len) key (ifa_alias RTN_UNICAST ifa d nd) m) s)\<lparr>brk := k\<rparr>"
    have "fib_rep ?s lcl (\<lambda>dst. better (unat len) key (ifa_alias RTN_UNICAST ifa d nd) dst (mn dst))"
      using t len by (intro fib_repI [where l = l and m = "add_route (unat len) key (ifa_alias RTN_UNICAST ifa d nd) m"])
        (auto simp: tb fib_find_add_route wf_add_route)
    moreover have "ifa_ready ?s ifa d nd" using assms(2) by simp
    ultimately show "Q () ?s" using fib_frame_set_table [OF k] by (rule Q)
  qed (use t r tb assms in simp_all)
qed

lemma liftE_Inr [comp_simps]: "liftE (Inr v) = returnM v" by (simp add: liftE_def)

text \<open>The local table is asked first.\<close>

definition fib_route :: "(u32 \<Rightarrow> (nat \<times> fib_alias) option) \<Rightarrow> (u32 \<Rightarrow> (nat \<times> fib_alias) option) \<Rightarrow> u32 \<Rightarrow> (nat \<times> fib_alias) option" where
  "fib_route lcl mn dst = (case lcl dst of Some r \<Rightarrow> Some r | None \<Rightarrow> mn dst)"

lemma fib_lookup_rep:
  assumes "fib_rep s lcl mn"
  shows "fib_lookup flp s = Inr (map_option fib_result_of (fib_route lcl mn (fl4_dst flp)), s)"
  using assms
  by (auto simp: fib_rep_def fib_lookup_def comp_simps fn_hash_lookup_find fib_route_def split: option.split)

lemma memory_state_fib [simp]:
  "ip_fib_local_table (alloc_state s k b) = ip_fib_local_table s" "ip_fib_main_table (alloc_state s k b) = ip_fib_main_table s"
  "ip_fib_local_table (enq_state s q n) = ip_fib_local_table s" "ip_fib_main_table (enq_state s q n) = ip_fib_main_table s"
  "ip_fib_local_table (deq_state s q n) = ip_fib_local_table s" "ip_fib_main_table (deq_state s q n) = ip_fib_main_table s"
  by (simp_all add: alloc_state_def enq_state_def deq_state_def)

section \<open>Properties\<close>

text \<open>
  C17: longest prefix match. Whatever routes were inserted into an empty table, \<^verbatim>\<open>fn_hash_lookup\<close>
  returns (it never faults), fails only when no inserted prefix contains the destination, and
  otherwise reports an inserted route whose prefix contains the destination and is the longest
  of those that do.
\<close>

theorem fn_hash_lookup_longest_prefix:
  assumes "\<forall>(len, key, fa) \<in> set rs. 0 < len \<and> len \<le> 32"
  shows "case fn_hash_lookup (foldr (\<lambda>(len, key, fa). add_route len key fa) rs (empty_fib tid)) flp of
      Inl e \<Rightarrow> False
    | Inr None \<Rightarrow> \<forall>(len, key, fa) \<in> set rs. \<not> in_prefix len key (fl4_dst flp)
    | Inr (Some res) \<Rightarrow> \<exists>len key fa. (len, key, fa) \<in> set rs \<and> in_prefix len key (fl4_dst flp) \<and>
        res = fib_result_of (len, fa) \<and>
        (\<forall>(len', key', fa') \<in> set rs. in_prefix len' key' (fl4_dst flp) \<longrightarrow> len' \<le> len)"
proof -
  have v: "fib.valid_routes rs" using assms by (simp add: fib.valid_routes_def)
  let ?t = "foldr (\<lambda>(len, key, fa). add_route len key fa) rs (empty_fib tid)"
  have t: "fib.insert_all tid rs = ?t" by (simp add: fib.insert_all_def)
  have "fn_hash_lookup ?t flp = Inr (map_option fib_result_of (fib_find ?t (fl4_dst flp)))"
    using fib.inv_insert_all [OF v, of tid] by (simp add: fn_hash_lookup_find t)
  with fib.longest_prefix_match [OF v, of "fl4_dst flp" tid] show ?thesis
    by (cases "fib_find ?t (fl4_dst flp)") (fastforce simp: t)+
qed

definition example_alias :: "u8 \<Rightarrow> fib_alias" where
  "example_alias type = \<lparr>fa_info = None, fa_type = type, fa_scope = 0\<rparr>"

theorem fn_hash_lookup_longest_prefix_witness:
  "\<exists>res. fn_hash_lookup (add_route 24 0x0000000a (example_alias 1) (add_route 8 0x0000000a (example_alias 2) (empty_fib 254)))
     (zero_flowi\<lparr>fl4_dst := 0x0500000a\<rparr>) = Inr (Some res) \<and> res_type res = 1"
proof -
  let ?rs = "[(24, 0x0000000a, example_alias 1), (8, 0x0000000a, example_alias 2)]"
  have "in_prefix 24 0x0000000a 0x0500000a" by (simp add: in_prefix_def ntohl_def htonl_def)
  then show ?thesis
    using fn_hash_lookup_longest_prefix [of ?rs "zero_flowi\<lparr>fl4_dst := 0x0500000a\<rparr>" 254]
    by (force simp: fib_result_of_def example_alias_def split: sum.splits option.splits)
qed

text \<open>
  C23: \<^verbatim>\<open>fn_hash_insert\<close> of a route of length 1 to 32 through the registered device always returns
  and keeps the table well formed. When it returns 0 the lookups answer with the new route
  exactly for the destinations in its prefix that had no longer match; when it returns -1,
  which takes a failed allocation, every lookup answers as before.
\<close>

theorem fn_hash_insert_correct:
  assumes "table_of tb s = Some t" "wf_fib t" "0 < fc_dst_len cfg" "fc_dst_len cfg \<le> 32"
    and "dev_base s = Some d" "devs s d = Some nd" "ifindex nd = fc_oif cfg"
  shows "wp (fn_hash_insert tb cfg) (\<lambda>rc s'. \<exists>t'. table_of tb s' = Some t' \<and> wf_fib t' \<and>
      (rc = 0 \<and> (\<exists>ok. fib_find t' = (\<lambda>dst. better (unat (fc_dst_len cfg)) (fc_dst cfg) (alias_of cfg d ok) dst (fib_find t dst)) \<and>
         (mem_ok s \<longrightarrow> ok)) \<or>
       rc = -1 \<and> fib_find t' = fib_find t \<and> \<not> mem_ok s)) s"
proof -
  have z: "0 < unat (fc_dst_len cfg)" "unat (fc_dst_len cfg) \<le> 32"
    using assms(3,4) by (auto simp: word_less_nat_alt word_le_nat_alt)
  show ?thesis
    using assms z by (intro wp_fn_hash_insert [where z = "unat (fc_dst_len cfg)" and t = t and d = d and nd = nd])
      (auto simp: fun_eq_iff fib_find_add_route fib_find_open_zone wf_add_route wf_open_zone)
qed

definition example_fib :: fib_store where
  "example_fib = \<lparr>os = example_env, brk = 4, skbs = Map.empty, nxt = (\<lambda>_. None), prv = (\<lambda>_. None),
     qlen = (\<lambda>_. 0), devs = [1 \<mapsto> example_dev],
     in_devs = [2 \<mapsto> \<lparr>indev_dev = Some 1, ifa_list = []\<rparr>], dev_base = Some 1,
     last_ifindex = 1, ptype_base = [], tap_out = [], rtables = Map.empty, neighs = Map.empty,
     ntables = (\<lambda>_. arp_tbl), neigh_tables = [], ip_fib_local_table = Some (empty_fib RT_TABLE_LOCAL),
     ip_fib_main_table = Some (empty_fib RT_TABLE_MAIN)\<rparr>"

definition example_ifa :: in_ifaddr where
  "example_ifa = \<lparr>ifa_dev = Some 2, ifa_address = FIXED_IP_ADDR, ifa_mask = FIXED_NETMASK,
     ifa_broadcast = 0, ifa_scope = 0, ifa_prefixlen = FIXED_IP_PREFIXLEN\<rparr>"

definition example_cfg :: fib_config where
  "example_cfg = \<lparr>fc_dst_len = 24, fc_scope = 0, fc_type = RTN_UNICAST, fc_table = 0, fc_dst = 0x0000000a,
           fc_gw = 0, fc_oif = 0, fc_prefsrc = FIXED_IP_ADDR\<rparr>"

lemma example_fib_facts:
  "table_of Main_table example_fib = Some (empty_fib RT_TABLE_MAIN)"
  "table_of Local_table example_fib = Some (empty_fib RT_TABLE_LOCAL)"
  "dev_base example_fib = Some 1" "devs example_fib 1 = Some example_dev" "ifindex example_dev = 0" "mem_ok example_fib"
  by (simp_all add: example_fib_def example_dev_def ether_setup_def zero_dev_def mem_ok_def example_env_def)

theorem fn_hash_insert_correct_witness:
  "wp (fn_hash_insert Main_table example_cfg) (\<lambda>rc s'. rc = 0 \<and> fib_find (the (table_of Main_table s')) 0x0500000a =
      Some (24, alias_of example_cfg 1 True)) example_fib"
proof -
  have "in_prefix 24 0x0000000a 0x0500000a" by (simp add: in_prefix_def ntohl_def htonl_def)
  moreover have "wp (fn_hash_insert Main_table example_cfg) (\<lambda>rc s'. \<exists>t'. table_of Main_table s' = Some t' \<and> wf_fib t' \<and>
      (rc = 0 \<and> (\<exists>ok. fib_find t' = (\<lambda>dst. better (unat (fc_dst_len example_cfg)) (fc_dst example_cfg)
           (alias_of example_cfg 1 ok) dst (fib_find (empty_fib RT_TABLE_MAIN) dst)) \<and> (mem_ok example_fib \<longrightarrow> ok)) \<or>
       rc = -1 \<and> fib_find t' = fib_find (empty_fib RT_TABLE_MAIN) \<and> \<not> mem_ok example_fib)) example_fib"
    by (rule fn_hash_insert_correct [OF example_fib_facts(1) fib.inv_empty _ _ example_fib_facts(3,4)])
      (simp_all add: example_fib_facts example_cfg_def)
  ultimately show ?thesis
    by (elim wp_mono) (auto simp: example_fib_facts better_def fib.lookup_empty example_cfg_def)
qed

lemma fib_add_ifaddr_step:
  assumes "fib_rep s lcl mn" "ifa_ready s ifa d nd" "0 < ifa_prefixlen ifa" "ifa_prefixlen ifa < 31"
  shows "wp (fib_add_ifaddr ifa) (\<lambda>_ s'. fib_frame s s' \<and> fib_rep s'
      (lcl(ifa_address ifa \<mapsto> (32, ifa_alias RTN_LOCAL ifa d nd),
           ifa_address ifa AND ifa_mask ifa \<mapsto> (32, ifa_alias RTN_BROADCAST ifa d nd),
           ifa_address ifa AND ifa_mask ifa OR NOT (ifa_mask ifa) \<mapsto> (32, ifa_alias RTN_BROADCAST ifa d nd)))
      (\<lambda>dst. better (unat (ifa_prefixlen ifa)) (ifa_address ifa AND ifa_mask ifa)
         (ifa_alias RTN_UNICAST ifa d nd) dst (mn dst))) s"
proof -
  have p: "0 < ifa_prefixlen ifa" "ifa_prefixlen ifa \<le> 32" using assms(3,4) by (auto simp: word_less_nat_alt word_le_nat_alt)
  show ?thesis
    unfolding fib_add_ifaddr_def Let_def wp_bindM
    by (rule wp_magic_local [OF assms(1,2)], simp, rule wp_magic_main, assumption, assumption, rule p, rule p)
      (use assms(4) in \<open>auto simp: wp_simps elim!: wp_magic_local intro: fib_frame_trans\<close>)
qed


lemma example_fib_rep: "fib_rep example_fib (\<lambda>_. None) (\<lambda>_. None)"
  by (rule fib_repI [OF example_fib_facts(2,1) fib.inv_empty fib.inv_empty]) (simp_all add: fib.lookup_empty fun_eq_iff)

lemma example_ifa_ready: "ifa_ready example_fib example_ifa 1 example_dev"
  unfolding ifa_ready_def by (simp add: example_fib_facts) (simp add: example_fib_def example_ifa_def)


text \<open>
  A default route (length 0) cannot be inserted: the netmask of length 0 shifts by the width of
  the operand.
\<close>

lemma fn_hash_insert_default_route:
  assumes "table_of tb s = Some t" "fc_dst_len cfg = 0" "fn_zones t ! 0 = None" "malloc_ok (os s) (brk s)"
  shows "fn_hash_insert tb cfg s = Inl Bad_shift"
  using assms by (simp add: fn_hash_insert_def fn_new_zone_def inet_make_mask_def comp_simps)

end
