(* ===== verification/Route.thy ===== *)
theory Route
  imports Fib
begin

text \<open>
  Routing decisions of \<^verbatim>\<open>ipv4/route.c\<close>: input routes (only local delivery is supported) and
  output routes, which bind the next hop's neighbour.
\<close>

text \<open>A fresh routing entry: its block is not cleared.\<close>

definition fresh_rt :: "os_env \<Rightarrow> nat \<Rightarrow> rtable" where
  "fresh_rt e r = \<lparr>dst_dev = None, dst_neighbour = malloc_ptr e r, dst_input_ptr = None,
     dst_output_ptr = None, rt_iif = None, rt_type = 0, rt_dst = 0, rt_src = 0, rt_gateway = 0,
     rt_fl = zero_flowi\<rparr>"

definition ip_rt_bug :: "nat \<Rightarrow> ('z fib_store_scheme, int) comp" where
  "ip_rt_bug skb = returnM 0"

definition ip_route_input_slow :: "nat \<Rightarrow> u32 \<Rightarrow> u32 \<Rightarrow> u8 \<Rightarrow> nat \<Rightarrow> ('z fib_store_scheme, int) comp" where
  "ip_route_input_slow skb daddr saddr tos dev =
     bindM (get_dev dev) (\<lambda>nd.
     let fl = zero_flowi\<lparr>fl4_dst := daddr, fl4_src := saddr, fl4_tos := tos, fl_iif := ifindex nd\<rparr> in
     bindM (fib_lookup fl) (\<lambda>r. case r of
         None \<Rightarrow> returnM (-1)
       | Some res \<Rightarrow>
           if res_type res \<noteq> RTN_LOCAL then returnM (-1)
           else
             bindM malloc (\<lambda>p. case p of
                 None \<Rightarrow> returnM (-1)
               | Some rth \<Rightarrow>
                   bindM (getsM os) (\<lambda>e.
                   bindM (set_rt rth ((fresh_rt e rth)\<lparr>dst_dev := Some dev,
                     dst_input_ptr := Some Ip_local_deliver, dst_output_ptr := Some Ip_rt_bug,
                     rt_gateway := daddr, rt_dst := daddr, rt_src := saddr,
                     rt_iif := Some (ifindex nd), rt_type := ucast (res_type res), rt_fl := fl\<rparr>)) (\<lambda>_.
                   bindM (upd_skb skb (\<lambda>b. b\<lparr>skb_dst := Some rth\<rparr>)) (\<lambda>_.
                   returnM 0))))))"

definition ip_route_input :: "nat \<Rightarrow> u32 \<Rightarrow> u32 \<Rightarrow> u8 \<Rightarrow> nat \<Rightarrow> ('z fib_store_scheme, int) comp" where
  "ip_route_input skb daddr saddr tos dev = ip_route_input_slow skb daddr saddr tos dev"

text \<open>
  The output functions return 0 and store a route (\<open>Some rth\<close>) or return -1 (\<open>None\<close>).
\<close>

definition mkroute_output :: "fib_result \<Rightarrow> flowi \<Rightarrow> nat \<Rightarrow> ('z fib_store_scheme, nat option) comp" where
  "mkroute_output res fl dev_out =
     bindM (in_dev_get dev_out) (\<lambda>in_dev.
     if in_dev = None then returnM None
     else
       bindM malloc (\<lambda>p. case p of
           None \<Rightarrow> returnM None
         | Some rth \<Rightarrow>
             bindM (getsM os) (\<lambda>e.
             bindM (set_rt rth ((fresh_rt e rth)\<lparr>rt_fl := fl, rt_dst := fl4_dst fl, rt_src := fl4_src fl,
               rt_type := ucast (res_type res), dst_dev := Some dev_out, rt_gateway := fl4_dst fl,
               dst_output_ptr := Some Ip_output\<rparr>)) (\<lambda>_.
             returnM (Some rth)))))"

text \<open>A failed \<^verbatim>\<open>__mkroute_output\<close> is only reported; the NULL result is then dereferenced.\<close>

definition ip_mkroute_output_def :: "fib_result \<Rightarrow> flowi \<Rightarrow> nat \<Rightarrow> ('z fib_store_scheme, nat option) comp" where
  "ip_mkroute_output_def res fl dev_out =
     bindM (mkroute_output res fl dev_out) (\<lambda>p.
     bindM (nonnull p) (\<lambda>rth.
     bindM (get_rt rth) (\<lambda>rt.
     if rt_type rt = RTN_UNICAST \<or> fl_iif (rt_fl rt) = 0 then
       bindM (arp_bind_neighbour rth) (\<lambda>err.
       if err \<noteq> 0 then returnM None else returnM (Some rth))
     else returnM (Some rth))))"

definition ip_mkroute_output :: "fib_result \<Rightarrow> flowi \<Rightarrow> nat \<Rightarrow> ('z fib_store_scheme, nat option) comp" where
  "ip_mkroute_output res fl dev_out = ip_mkroute_output_def res fl dev_out"

definition ip_route_output_slow :: "flowi \<Rightarrow> ('z fib_store_scheme, nat option) comp" where
  "ip_route_output_slow fl =
     bindM (fib_lookup fl) (\<lambda>r. case r of
         None \<Rightarrow> returnM None
       | Some res \<Rightarrow>
           bindM (nonnull (res_fi res)) (\<lambda>fi. case nh_dev (fib_nh0 fi) of
               None \<Rightarrow> returnM None
             | Some dev_out \<Rightarrow>
                 bindM (get_dev dev_out) (\<lambda>nd.
                 let fl = fl\<lparr>fl_oif := ifindex nd\<rparr>;
                     fl = (if fl4_src fl = 0 then fl\<lparr>fl4_src := fib_prefsrc fi\<rparr> else fl) in
                 ip_mkroute_output res fl dev_out)))"

definition ip_route_output_key :: "flowi \<Rightarrow> ('z fib_store_scheme, nat option) comp" where
  "ip_route_output_key flp = ip_route_output_slow flp"

definition ip_route_output_flow :: "flowi \<Rightarrow> ('z fib_store_scheme, nat option) comp" where
  "ip_route_output_flow flp = ip_route_output_key flp"

definition ip_rt_init :: "('z fib_store_scheme, unit) comp" where
  "ip_rt_init = ip_fib_init"

section \<open>Output routes\<close>

text \<open>A route that leads through neighbour \<open>n\<close> of device \<open>d\<close>.\<close>

definition out_route :: "rtable \<Rightarrow> nat \<Rightarrow> nat \<Rightarrow> bool" where
  "out_route ro n d \<longleftrightarrow> dst_output_ptr ro = Some Ip_output \<and> dst_dev ro = Some d \<and> dst_neighbour ro = Some n"

text \<open>
  The flow that leaves through device \<open>d\<close> by route \<open>fi\<close>, its routing entry, and the state after
  the lookup: a new entry bound to neighbour \<open>n\<close>, created when the cache has none.
\<close>

definition out_flow :: "flowi \<Rightarrow> fib_info \<Rightarrow> net_device \<Rightarrow> flowi" where
  "out_flow fl fi nd = (if fl4_src fl = 0 then fl\<lparr>fl_oif := ifindex nd, fl4_src := fib_prefsrc fi\<rparr>
     else fl\<lparr>fl_oif := ifindex nd\<rparr>)"

definition out_rt :: "os_env \<Rightarrow> nat \<Rightarrow> flowi \<Rightarrow> u8 \<Rightarrow> nat \<Rightarrow> nat option \<Rightarrow> rtable" where
  "out_rt e r fl type d n = (fresh_rt e r)\<lparr>rt_fl := fl, rt_dst := fl4_dst fl, rt_src := fl4_src fl,
     rt_type := ucast type, dst_dev := Some d, rt_gateway := fl4_dst fl, dst_output_ptr := Some Ip_output, dst_neighbour := n\<rparr>"

definition bind_state :: "u8 list \<Rightarrow> nat \<Rightarrow> ('z neigh_store_scheme) \<Rightarrow> ('z neigh_store_scheme)" where
  "bind_state key d s = (case neigh_find s (key, d) of Some n \<Rightarrow> s | None \<Rightarrow> create_state key d s)"

definition bound_neigh :: "u8 list \<Rightarrow> nat \<Rightarrow> ('z neigh_store_scheme) \<Rightarrow> nat" where
  "bound_neigh key d s = (case neigh_find s (key, d) of Some n \<Rightarrow> n | None \<Rightarrow> brk s)"

lemma ip_route_output_apply:
  assumes fib: "fib_rep s lcl mn" "fib_route lcl mn (fl4_dst fl) = Some (l, fa)"
      "fa_info fa = Some fi" "nh_dev (fib_nh0 fi) = Some d"
    and dev: "devs s d = Some nd" "ip_ptr nd \<noteq> None" and mem: "mem_ok s" "malloc_ptr (os s) (brk s) = None"
    and inv: "neigh_inv s" and fl: "fl_iif fl = 0"
  shows "ip_route_output_flow fl s = Inr (Some (brk s),
    (bind_state (bytes32 (fl4_dst fl)) d (s\<lparr>brk := brk s + 1\<rparr>))\<lparr>rtables := (rtables s)(brk s \<mapsto>
      out_rt (os s) (brk s) (out_flow fl fi nd) (fa_type fa) d (Some (bound_neigh (bytes32 (fl4_dst fl)) d (s\<lparr>brk := brk s + 1\<rparr>))))\<rparr>)"
proof -
  let ?fl = "out_flow fl fi nd" and ?key = "bytes32 (fl4_dst fl)"
  let ?ro = "out_rt (os s) (brk s) ?fl (fa_type fa) d None"
  let ?s = "s\<lparr>brk := brk s + 1, rtables := (rtables s)(brk s \<mapsto> ?ro)\<rparr>"
  have flow: "(if fl4_src (fl\<lparr>fl_oif := ifindex nd\<rparr>) = 0 then fl\<lparr>fl_oif := ifindex nd, fl4_src := fib_prefsrc fi\<rparr> else fl\<lparr>fl_oif := ifindex nd\<rparr>) = ?fl"
    by (simp add: out_flow_def)
  have look: "fib_lookup fl s = Inr (Some (fib_result_of (l, fa)), s)" using fib_lookup_rep [OF fib(1), of fl] fib(2) by simp
  have ro: "dst_dev ?ro = Some d" "dst_neighbour ?ro = None" "rt_gateway ?ro = fl4_dst fl" "rt_fl ?ro = ?fl"
      "?ro\<lparr>dst_neighbour := Some n\<rparr> = out_rt (os s) (brk s) ?fl (fa_type fa) d (Some n)" for n
    by (simp_all add: out_rt_def) (simp_all add: out_flow_def)
  have fl': "fl_iif ?fl = 0" using fl by (simp add: out_flow_def)
  have mk: "mkroute_output (fib_result_of (l, fa)) ?fl d s = Inr (Some (brk s), ?s)"
    using dev mem by (auto simp: mkroute_output_def in_dev_get_def comp_simps mem_ok_def out_rt_def fib_result_of_def fresh_rt_def)
  have inv': "neigh_inv ?s" using neigh_inv_brk [OF inv, of "brk s + 1"] by simp
  have bind: "arp_bind_neighbour (brk s) ?s = Inr (0, (bind_state ?key d (s\<lparr>brk := brk s + 1\<rparr>))\<lparr>rtables := (rtables s)(brk s \<mapsto>
      out_rt (os s) (brk s) ?fl (fa_type fa) d (Some (bound_neigh ?key d (s\<lparr>brk := brk s + 1\<rparr>))))\<rparr>)"
    using neigh_lookup_errno_apply [OF inv', of ?key d] mem(1)
    by (auto simp: arp_bind_neighbour_def comp_simps ro bind_state_def bound_neigh_def mem_ok_def create_state_rtables
        split: option.splits)
  show ?thesis
    using fib(3,4) dev look mk bind fl'
    by (simp add: ip_route_output_flow_def ip_route_output_key_def ip_route_output_slow_def ip_mkroute_output_def
       ip_mkroute_output_def_def comp_simps Let_def ro flow [simplified] fib_result_of_def)
qed

lemma neigh_inv_bind_state: "neigh_inv s \<Longrightarrow> length key = 4 \<Longrightarrow> neigh_inv (bind_state key d s)"
  by (simp add: bind_state_def neigh_inv_create_state split: option.split)

lemma neigh_find_bind_state:
  "neigh_inv s \<Longrightarrow> neigh_find (bind_state key d s) k = (if k = (key, d) then Some (bound_neigh key d s) else neigh_find s k)"
  by (auto simp: bind_state_def bound_neigh_def neigh_find_create_state split: option.split)


section \<open>Input routes\<close>

text \<open>The entry for a packet that is to be delivered locally.\<close>

definition in_rt :: "os_env \<Rightarrow> nat \<Rightarrow> nat \<Rightarrow> net_device \<Rightarrow> u32 \<Rightarrow> u32 \<Rightarrow> u8 \<Rightarrow> rtable" where
  "in_rt e r d nd daddr saddr tos = (fresh_rt e r)\<lparr>dst_dev := Some d,
     dst_input_ptr := Some Ip_local_deliver, dst_output_ptr := Some Ip_rt_bug,
     rt_gateway := daddr, rt_dst := daddr, rt_src := saddr, rt_iif := Some (ifindex nd), rt_type := RTN_LOCAL,
     rt_fl := zero_flowi\<lparr>fl4_dst := daddr, fl4_src := saddr, fl4_tos := tos, fl_iif := ifindex nd\<rparr>\<rparr>"

lemma ip_route_input_apply:
  assumes "fib_rep s lcl mn" "devs s d = Some nd" "skbs s i = Some b" "mem_ok s"
  shows "ip_route_input i daddr saddr tos d s =
    (case fib_route lcl mn daddr of
       Some (l, fa) \<Rightarrow> if fa_type fa = RTN_LOCAL
         then Inr (0, s\<lparr>brk := brk s + 1, rtables := (rtables s)(brk s \<mapsto> in_rt (os s) (brk s) d nd daddr saddr tos),
           skbs := (skbs s)(i \<mapsto> b\<lparr>skb_dst := Some (brk s)\<rparr>)\<rparr>)
         else Inr (-1, s)
     | None \<Rightarrow> Inr (-1, s))"
  using assms(2-4)
  by (auto simp: ip_route_input_def ip_route_input_slow_def comp_simps Let_def fib_lookup_rep [OF assms(1)]
      fib_result_of_def mem_ok_def in_rt_def split: option.split prod.split)


section \<open>Witnesses\<close>

text \<open>The tables of a host with one interface.\<close>

definition example_ifdev :: net_device where
  "example_ifdev = example_dev\<lparr>ip_ptr := Some 2\<rparr>"

definition example_routed :: fib_store where
  "example_routed = example_fib\<lparr>skbs := [0 \<mapsto> zero_skb], devs := [1 \<mapsto> example_ifdev],
     ip_fib_local_table := Some (add_route 32 FIXED_IP_ADDR (ifa_alias RTN_LOCAL example_ifa 1 example_ifdev) (empty_fib RT_TABLE_LOCAL)),
     ip_fib_main_table := Some (add_route 24 0x0000000a (ifa_alias RTN_UNICAST example_ifa 1 example_ifdev) (empty_fib RT_TABLE_MAIN))\<rparr>"

definition example_local :: "u32 \<Rightarrow> (nat \<times> fib_alias) option" where
  "example_local = (\<lambda>dst. if dst = FIXED_IP_ADDR then Some (32, ifa_alias RTN_LOCAL example_ifa 1 example_ifdev) else None)"

definition example_main :: "u32 \<Rightarrow> (nat \<times> fib_alias) option" where
  "example_main = (\<lambda>dst. if in_prefix 24 0x0000000a dst then Some (24, ifa_alias RTN_UNICAST example_ifa 1 example_ifdev) else None)"

lemma example_routed_rep: "fib_rep example_routed example_local example_main"
  by (rule fib_repI) (auto simp: example_routed_def wf_add_route fib.inv_empty fun_eq_iff fib_find_add_route
      better_def fib.lookup_empty example_local_def example_main_def)

lemma example_routed_facts:
  "mem_ok example_routed" "malloc_ptr (os example_routed) (brk example_routed) = None" "neigh_inv example_routed"
  "devs example_routed 1 = Some example_ifdev" "ip_ptr example_ifdev \<noteq> None" "skbs example_routed 0 = Some zero_skb"
  by (simp_all add: example_routed_def example_fib_def example_env_def mem_ok_def neigh_inv_def arp_tbl_def example_ifdev_def)



end
