(* ===== verification/Checksum.thy ===== *)
theory Checksum
  imports Net_Prelude
begin

text \<open>
  The internet checksum of \<^verbatim>\<open>core/checksum.c\<close>: the routine over a block of memory and the
  one that adds the pseudo header of UDP. The reference definition is RFC 1071: the
  complement of the one's complement sum (addition with end-around carry) of the 16 bit
  words of the block. The block is the list of the bytes the routine reads.
\<close>

section \<open>The code\<close>

text \<open>
  The accumulation loop: 16 bit words in memory order, then the odd last byte. The cast to
  \<^verbatim>\<open>char\<close> sign-extends that byte before it is shifted.
\<close>

fun cksum_loop :: "u32 \<Rightarrow> u8 list \<Rightarrow> u32" where
  "cksum_loop cksum (a # b # buff) = cksum_loop (cksum + ucast (le16 a b)) buff"
| "cksum_loop cksum [a] = cksum + ucast (htons (push_bit 8 (scast a :: u32)))"
| "cksum_loop cksum [] = cksum"

text \<open>The folding of the carries into the low half, shared by both routines.\<close>

definition cksum_fold :: "u32 \<Rightarrow> u16" where
  "cksum_fold cksum =
     (let cksum = drop_bit 16 cksum + (cksum AND 0xffff);
          cksum = cksum + drop_bit 16 cksum
      in ucast (NOT cksum))"

definition checksum :: "u8 list \<Rightarrow> u16" where
  "checksum buff = cksum_fold (cksum_loop 0 buff)"

definition csum_tcpudp_magic :: "u32 \<Rightarrow> u32 \<Rightarrow> u16 \<Rightarrow> u16 \<Rightarrow> u16 \<Rightarrow> u16" where
  "csum_tcpudp_magic saddr daddr len proto csum =
     (let cksum = NOT (ucast csum) AND 0xffff;
          cksum = cksum + (saddr AND 0xffff) + drop_bit 16 saddr;
          cksum = cksum + (daddr AND 0xffff) + drop_bit 16 daddr;
          cksum = cksum + ucast len + ucast (htons proto)
      in cksum_fold cksum)"

section \<open>The reference: RFC 1071\<close>

fun words16 :: "u8 list \<Rightarrow> u16 list" where
  "words16 (a # b # bs) = le16 a b # words16 bs"
| "words16 [a] = [le16 a 0]"
| "words16 [] = []"

definition oc_add :: "u16 \<Rightarrow> u16 \<Rightarrow> u16" where
  "oc_add a b = (if unat a + unat b < 65536 then a + b else a + b + 1)"

definition rfc1071 :: "u8 list \<Rightarrow> u16" where
  "rfc1071 bs = NOT (foldl oc_add 0 (words16 bs))"

text \<open>
  The pseudo header of UDP (RFC 768): source, destination, a zero byte, the protocol and the
  length, all in the byte order they have on the wire.
\<close>

definition pseudo_header :: "u32 \<Rightarrow> u32 \<Rightarrow> u8 \<Rightarrow> u16 \<Rightarrow> u8 list" where
  "pseudo_header saddr daddr proto len = bytes32 saddr @ bytes32 daddr @ [0, proto] @ bytes16 len"

section \<open>Sums modulo 65535\<close>

text \<open>
  One's complement sums are sums modulo \<open>2 ^ 16 - 1\<close> with \<open>65535\<close> standing for zero
  unless every summand is zero.
\<close>

definition oc_norm :: "nat \<Rightarrow> nat" where
  "oc_norm n = (if n = 0 then 0 else (n - 1) mod 65535 + 1)"

definition wsum :: "u8 list \<Rightarrow> nat" where
  "wsum bs = sum_list (map unat (words16 bs))"

lemma oc_norm_le: "oc_norm n \<le> 65535"
  by (auto simp: oc_norm_def intro: Suc_leI less_imp_le [OF mod_less_divisor, THEN le_trans])

lemma oc_norm_small: "n \<le> 65535 \<Longrightarrow> oc_norm n = n"
  by (auto simp: oc_norm_def)

lemma oc_norm_cong:
  assumes "a mod 65535 = b mod 65535" and "a = 0 \<longleftrightarrow> b = 0"
  shows "oc_norm a = oc_norm b"
proof (cases "b = 0")
  case False
  with assms obtain a' b' where "a = Suc a'" "b = Suc b'"
    by (metis not0_implies_Suc)
  then show ?thesis using assms(1)
    by (auto simp: oc_norm_def mod_Suc split: if_splits)
qed (use assms in simp)

lemma oc_norm_mod: "oc_norm n mod 65535 = n mod 65535"
  by (auto simp: oc_norm_def mod_Suc_eq)

lemma oc_norm_zero_iff [simp]: "oc_norm n = 0 \<longleftrightarrow> n = 0"
  by (simp add: oc_norm_def)

lemma oc_norm_add: "oc_norm (oc_norm a + b) = oc_norm (a + b)"
  by (rule oc_norm_cong) (metis mod_add_left_eq oc_norm_mod, simp)

lemma unat_oc_add: "unat (oc_add a b) = oc_norm (unat a + unat b)"
proof (cases "unat a + unat b < 65536")
  case True
  then show ?thesis by (simp add: oc_add_def unat_word_ariths oc_norm_small)
next
  case False
  have "unat a < 65536" "unat b < 65536"
    using unsigned_less [where ?'a = nat, of a] unsigned_less [where ?'a = nat, of b] by simp_all
  with False have "unat (oc_add a b) = unat a + unat b - 65535"
    by (simp add: oc_add_def unat_word_ariths mod_add_left_eq le_mod_geq)
  moreover have "oc_norm (unat a + unat b) = oc_norm (unat a + unat b - 65535)"
    using False by (intro oc_norm_cong) (auto simp: le_mod_geq)
  ultimately show ?thesis
    using \<open>unat a < 65536\<close> \<open>unat b < 65536\<close> by (simp add: oc_norm_small)
qed

lemma unat_foldl_oc_add:
  "unat (foldl oc_add a ws) = oc_norm (unat a + sum_list (map unat ws))"
proof (induction ws arbitrary: a)
  case Nil
  have "unat a \<le> 65535" using unsigned_less [where ?'a = nat, of a] by simp
  then show ?case by (simp add: oc_norm_small)
next
  case (Cons w ws)
  then show ?case by (simp add: unat_oc_add oc_norm_add add.assoc)
qed

lemma unat_not_u16: "unat (NOT w) = 65535 - unat w" for w :: u16
proof -
  have "NOT w = -1 - w" by (simp add: not_eq_complement)
  then show ?thesis by (simp add: unat_sub unsigned_minus_1_eq_mask mask_eq_exp_minus_1)
qed

lemma ucast_not_u16: "(ucast (NOT w) :: u16) = NOT (ucast w)" for w :: u32
  by (rule bit_word_eqI) (auto simp: bit_simps)

lemma unat_rfc1071: "unat (rfc1071 bs) = 65535 - oc_norm (wsum bs)"
  by (simp add: rfc1071_def unat_not_u16 unat_foldl_oc_add wsum_def)

text \<open>The fold of the code computes the normal form of any 32 bit sum.\<close>

lemma mask16: "(0xffff :: nat) = mask 16"
  by (simp add: mask_eq_exp_minus_1)

lemma unat_cksum_fold: "unat (cksum_fold c) = 65535 - oc_norm (unat c)"
proof -
  define q r where "q = unat c div 65536" and "r = unat c mod 65536"
  have c: "unat c = q * 65536 + r" and r: "r < 65536"
    by (simp_all add: q_def r_def)
  have q: "q < 65536"
    using unsigned_less [where ?'a = nat, of c] by (simp add: q_def less_mult_imp_div_less)
  have hi: "unat (drop_bit 16 c) = q"
    by (simp add: q_def unat_drop_bit_eq) (simp add: drop_bit_eq_div)
  have lo: "unat (c AND 0xffff) = r"
    by (simp add: r_def unsigned_and_eq mask16 flip: take_bit_eq_mask) (simp add: take_bit_eq_mod)
  define d where "d = drop_bit 16 c + (c AND 0xffff)"
  have d: "unat d = q + r"
    using q r by (simp add: d_def unat_word_ariths hi lo)
  have d1: "unat (drop_bit 16 d) = (q + r) div 65536"
    by (simp add: unat_drop_bit_eq d) (simp add: drop_bit_eq_div)
  have "unat (d + drop_bit 16 d) = q + r + (q + r) div 65536"
    using q r by (simp add: unat_word_ariths d d1)
  then have u: "unat (ucast (d + drop_bit 16 d) :: u16) = (q + r + (q + r) div 65536) mod 65536"
    by (simp add: unsigned_ucast_eq take_bit_eq_mod)
  have "oc_norm (unat c) = oc_norm (q + r)"
  proof (rule oc_norm_cong)
    have "q * 65536 + r = 65535 * q + (q + r)" by simp
    then show "unat c mod 65535 = (q + r) mod 65535" by (simp only: c mod_mult_self4)
  qed (simp add: c)
  also have "\<dots> = (q + r + (q + r) div 65536) mod 65536"
  proof (cases "q + r < 65536")
    case True
    then show ?thesis by (simp add: oc_norm_small)
  next
    case False
    then have "(q + r) div 65536 = 1" and le: "q + r - 65535 \<le> 65535"
      using q r by (simp_all add: div_nat_eqI)
    moreover have "oc_norm (q + r) = oc_norm (q + r - 65535)"
      using False by (intro oc_norm_cong) (auto simp: le_mod_geq)
    ultimately show ?thesis
      using False q r by (simp add: oc_norm_small le_mod_geq)
  qed
  finally show ?thesis
    using u by (simp add: cksum_fold_def Let_def d_def ucast_not_u16 unat_not_u16)
qed

section \<open>The loop\<close>

lemma htons_odd_byte: "htons (push_bit 8 (scast a :: u32)) = le16 a 0" for a :: u8
proof (rule bit_word_eqI)
  fix n assume "n < LENGTH(16)"
  then show "bit (htons (push_bit 8 (scast a :: u32))) n = bit (le16 a 0) n"
    unfolding htons_def le16_def mask8
    by (cases "n < 7"; cases "n = 7") (auto simp: bit_simps min_def)
qed

lemma unat_ucast_u32: "unat (ucast w :: u32) = unat w" for w :: u16
proof -
  have "unat w < 2 ^ 32" using unsigned_less [where ?'a = nat, of w] by simp
  then show ?thesis by (simp add: unsigned_ucast_eq take_bit_nat_eq_self)
qed

lemma words16_bound: "sum_list (map unat (words16 bs)) \<le> 65535 * ((length bs + 1) div 2)"
proof (induction bs rule: words16.induct)
  case (1 a b bs)
  have "unat (le16 a b) \<le> 65535"
    using unsigned_less [where ?'a = nat, of "le16 a b"] by simp
  with 1 show ?case by simp
next
  case (2 a)
  show ?case using unsigned_less [where ?'a = nat, of "le16 a 0"] by simp
qed simp

lemma wsum_bound: "length bs \<le> 131070 \<Longrightarrow> wsum bs \<le> 65535 * 65535"
  using words16_bound [of bs] div_le_mono [of "length bs + 1" 131071 2] by (simp add: wsum_def)

lemma unat_cksum_loop:
  "unat c + wsum bs < 2 ^ 32 \<Longrightarrow> unat (cksum_loop c bs) = unat c + wsum bs"
proof (induction c bs rule: cksum_loop.induct)
  case (1 c a b bs)
  have "unat (c + ucast (le16 a b)) = unat c + unat (le16 a b)"
    using "1.prems" by (simp add: unat_word_ariths unat_ucast_u32 wsum_def)
  with 1 show ?case by (simp add: wsum_def)
qed (simp_all add: wsum_def htons_odd_byte unat_word_ariths unat_ucast_u32)

lemma unat_checksum:
  "length bs \<le> 131070 \<Longrightarrow> unat (checksum bs) = 65535 - oc_norm (wsum bs)"
  using wsum_bound [of bs] by (simp add: checksum_def unat_cksum_fold unat_cksum_loop)

lemma oc_norm_full: "0 < n \<Longrightarrow> n mod 65535 = 0 \<Longrightarrow> oc_norm n = 65535"
  using oc_norm_le [of n] oc_norm_mod [of n] oc_norm_zero_iff [of n]
  by (metis le_neq_implies_less less_numeral_extra(3) mod_less)

lemma checksum_zeroI:
  "length bs \<le> 131070 \<Longrightarrow> 0 < wsum bs \<Longrightarrow> wsum bs mod 65535 = 0 \<Longrightarrow> checksum bs = 0"
  by (simp add: unat_checksum oc_norm_full flip: unat_0_iff)

text \<open>Storing a 16 bit value at an even offset replaces one word.\<close>

lemma length_words16 [simp]: "length (words16 bs) = (length bs + 1) div 2"
  by (induction bs rule: words16.induct) auto

lemma nth_words16: "2 * k + 2 \<le> length bs \<Longrightarrow> words16 bs ! k = ld16 bs (2 * k)"
proof (induction bs arbitrary: k rule: words16.induct)
  case (1 a b bs)
  then show ?case by (cases k) (simp_all add: ld16_def)
qed simp_all

lemma words16_put_bytes16:
  "2 * k + 2 \<le> length bs \<Longrightarrow> words16 (put_bytes bs (2 * k) (bytes16 v)) = (words16 bs)[k := v]"
proof (induction bs arbitrary: k rule: words16.induct)
  case (1 a b bs)
  show ?case
  proof (cases k)
    case 0
    then show ?thesis by (simp add: put_bytes_def bytes16_def)
  next
    case (Suc j)
    with 1 show ?thesis by (simp add: put_bytes_def)
  qed
qed (simp_all)

lemma wsum_put_bytes16:
  assumes "2 * k + 2 \<le> length bs" and "ld16 bs (2 * k) = 0"
  shows "wsum (put_bytes bs (2 * k) (bytes16 v)) = wsum bs + unat v"
  using assms by (simp add: wsum_def words16_put_bytes16 map_update sum_list_update nth_words16)

lemma wsum_append: "even (length xs) \<Longrightarrow> wsum (xs @ ys) = wsum xs + wsum ys"
  by (induction xs rule: words16.induct) (auto simp: wsum_def)

section \<open>Correctness of the checksum\<close>

text \<open>
  C28: on every block of up to 131070 bytes the routine computes the RFC 1071 checksum; the
  32 bit accumulator does not overflow, the two folds are enough, and the sign extension of
  an odd last byte is harmless.
\<close>

theorem checksum_rfc1071:
  assumes "length bs \<le> 131070"
  shows "checksum bs = rfc1071 bs"
  using assms by (simp add: word_unat_eq_iff unat_checksum unat_rfc1071)

theorem checksum_rfc1071_witness: "checksum [0x45, 0x00, 0xff] = rfc1071 [0x45, 0x00, 0xff]"
  by (rule checksum_rfc1071) simp

text \<open>The checksum of data in which its own checksum has been stored is zero.\<close>

lemma checksum_stored:
  assumes "length bs \<le> 131070" and "2 * k + 2 \<le> length bs" and "ld16 bs (2 * k) = 0"
  shows "checksum (put_bytes bs (2 * k) (bytes16 (checksum bs))) = 0"
proof (rule checksum_zeroI)
  let ?bs = "put_bytes bs (2 * k) (bytes16 (checksum bs))"
  show "length ?bs \<le> 131070" using assms by simp
  have w: "wsum ?bs = wsum bs + (65535 - oc_norm (wsum bs))"
    using assms by (simp add: wsum_put_bytes16 unat_checksum)
  show "0 < wsum ?bs"
    by (cases "wsum bs = 0") (simp_all add: w oc_norm_def)
  have "(wsum bs + (65535 - oc_norm (wsum bs))) mod 65535 =
      (oc_norm (wsum bs) + (65535 - oc_norm (wsum bs))) mod 65535"
    by (metis mod_add_left_eq oc_norm_mod)
  then show "wsum ?bs mod 65535 = 0"
    using oc_norm_le [of "wsum bs"] by (simp add: w)
qed

text \<open>
  C29: a sender that zeroes the check field at an even offset, computes the checksum of the
  block and stores it in that field produces a block whose checksum is zero, which is what
  the receiver tests.
\<close>

theorem checksum_store_verifies:
  assumes "length bs \<le> 131070" and "2 * k + 2 \<le> length bs" and "ld16 bs (2 * k) = 0"
  shows "checksum (put_bytes bs (2 * k) (bytes16 (checksum bs))) = 0"
  using assms by (rule checksum_stored)

theorem checksum_store_verifies_witness:
  "checksum (put_bytes [0x45, 0x00, 0x00, 0x00] (2 * 1)
     (bytes16 (checksum [0x45, 0x00, 0x00, 0x00]))) = 0"
  by (rule checksum_store_verifies) (simp_all add: ld16_def le16_def)

lemma mask16_u32: "(0xffff :: u32) = mask 16"
  by (simp add: mask_eq_exp_minus_1)

lemma unat_le16_halves:
  "unat (le16 (ucast v) (ucast (drop_bit 8 v))) = unat (v AND 0xffff)"
  "unat (le16 (ucast (drop_bit 16 v)) (ucast (drop_bit 24 v))) = unat (drop_bit 16 v)"
  for v :: u32
proof -
  have "(ucast (le16 (ucast v) (ucast (drop_bit 8 v))) :: u32) = v AND 0xffff"
    unfolding le16_def mask16_u32 by (rule bit_word_eqI) (auto simp: bit_simps)
  then show "unat (le16 (ucast v) (ucast (drop_bit 8 v))) = unat (v AND 0xffff)"
    by (metis unat_ucast_u32)
  have "(ucast (le16 (ucast (drop_bit 16 v)) (ucast (drop_bit 24 v))) :: u32) = drop_bit 16 v"
  proof (rule bit_word_eqI)
    fix n assume "n < LENGTH(32)"
    then show "bit (ucast (le16 (ucast (drop_bit 16 v)) (ucast (drop_bit 24 v))) :: u32) n =
        bit (drop_bit 16 v) n"
      by (cases "n < 8"; cases "n < 16") (auto simp: le16_def bit_simps dest: bit_imp_le_length)
  qed
  then show "unat (le16 (ucast (drop_bit 16 v)) (ucast (drop_bit 24 v))) = unat (drop_bit 16 v)"
    by (metis unat_ucast_u32)
qed

lemma htons_byte: "proto < 256 \<Longrightarrow> htons proto = le16 0 (ucast proto)" for proto :: u16
proof -
  assume "proto < 256"
  then have "unat (drop_bit 8 proto) = 0"
    by (simp add: unat_drop_bit_eq word_less_nat_alt) (simp add: drop_bit_eq_div)
  then have "drop_bit 8 proto = 0" by (simp add: unat_0_iff)
  then show ?thesis by (simp add: htons_bytes)
qed

lemma wsum_pseudo_header:
  "wsum (pseudo_header saddr daddr proto len) =
     unat (saddr AND 0xffff) + unat (drop_bit 16 saddr) + unat (daddr AND 0xffff)
     + unat (drop_bit 16 daddr) + unat (le16 0 proto) + unat len"
  by (simp add: wsum_def pseudo_header_def bytes32_def bytes16_def unat_le16_halves)

lemma unat_halves_bound:
  "unat (v AND 0xffff) < 65536" "unat (drop_bit 16 v) < 65536" for v :: u32
  using unsigned_less [where ?'a = nat, of "le16 (ucast v) (ucast (drop_bit 8 v))"]
    unsigned_less [where ?'a = nat, of "le16 (ucast (drop_bit 16 v)) (ucast (drop_bit 24 v))"]
  by (simp_all add: unat_le16_halves)

lemma not_ucast_u16: "NOT (ucast w) AND 0xffff = (ucast (NOT w) :: u32)" for w :: u16
  unfolding mask16_u32 by (rule bit_word_eqI) (auto simp: bit_simps)

lemma unat_u16_bound: "unat w < 65536" for w :: u16
  using unsigned_less [where ?'a = nat, of w] by simp

lemma csum_magic_checksum:
  assumes "length bs \<le> 131058" and "proto < 256"
  shows "csum_tcpudp_magic saddr daddr len proto (checksum bs) =
    checksum (pseudo_header saddr daddr (ucast proto) len @ bs)"
proof -
  let ?n = "oc_norm (wsum bs)" and ?p = "wsum (pseudo_header saddr daddr (ucast proto) len)"
  have n: "unat (NOT (checksum bs)) = ?n"
    using assms(1) oc_norm_le [of "wsum bs"] by (simp add: unat_not_u16 unat_checksum)
  have "csum_tcpudp_magic saddr daddr len proto (checksum bs) = cksum_fold
      (ucast (NOT (checksum bs)) + (saddr AND 0xffff) + drop_bit 16 saddr
        + (daddr AND 0xffff) + drop_bit 16 daddr + ucast len + ucast (htons proto))"
    (is "_ = cksum_fold ?c") by (simp add: csum_tcpudp_magic_def Let_def not_ucast_u16)
  moreover have "unat ?c = ?n + ?p"
    using unat_halves_bound [of saddr] unat_halves_bound [of daddr] unat_u16_bound [of len]
      unat_u16_bound [of "htons proto"] oc_norm_le [of "wsum bs"] assms(2)
    by (simp add: unat_word_ariths unat_ucast_u32 n wsum_pseudo_header htons_byte)
  ultimately have "unat (csum_tcpudp_magic saddr daddr len proto (checksum bs)) =
      65535 - oc_norm (?p + wsum bs)"
    by (simp add: unat_cksum_fold oc_norm_add add.commute)
  moreover have "length (pseudo_header saddr daddr (ucast proto) len) = 12"
    by (simp add: pseudo_header_def)
  ultimately show ?thesis
    using assms(1) by (simp add: word_unat_eq_iff unat_checksum wsum_append)
qed

text \<open>
  C30: completing a datagram's checksum with \<^verbatim>\<open>csum_tcpudp_magic\<close> gives the checksum of the
  pseudo header of RFC 768 followed by the datagram.
\<close>

theorem csum_tcpudp_magic_pseudo_header:
  assumes "length bs \<le> 131058" and "proto < 256"
  shows "csum_tcpudp_magic saddr daddr len proto (checksum bs) =
    checksum (pseudo_header saddr daddr (ucast proto) len @ bs)"
  using assms by (rule csum_magic_checksum)

theorem csum_tcpudp_magic_pseudo_header_witness:
  "csum_tcpudp_magic 0x0200000a 0x0100000a 0x0900 17 (checksum [1, 2, 3]) =
     checksum (pseudo_header 0x0200000a 0x0100000a (ucast (17 :: u16)) 0x0900 @ [1, 2, 3])"
  by (rule csum_tcpudp_magic_pseudo_header) simp_all

end
