(* ===== verification/Sock.thy ===== *)
theory Sock
  imports Route Checksum
begin

text \<open>
  Sockets below the system calls: \<^verbatim>\<open>core/sock.c\<close>, \<^verbatim>\<open>core/datagram.c\<close>, the structures of
  \<^verbatim>\<open>include/sock.h\<close>, \<^verbatim>\<open>inet_sock.h\<close>, \<^verbatim>\<open>udp.h\<close>, \<^verbatim>\<open>net.h\<close>, \<^verbatim>\<open>socket.h\<close>, \<^verbatim>\<open>in.h\<close>,
  \<^verbatim>\<open>protocol.h\<close>, and the global tables of the socket layer.
\<close>

section \<open>Structures\<close>

abbreviation (input) "PF_INET \<equiv> (2 :: int)"
abbreviation (input) "SOCK_STREAM \<equiv> (1 :: int)"
abbreviation (input) "SOCK_DGRAM \<equiv> (2 :: int)"
abbreviation (input) "SOCK_RAW \<equiv> (3 :: int)"
abbreviation (input) "SOCK_MAX \<equiv> (4 :: int)"
abbreviation (input) "NPROTO \<equiv> 32"
abbreviation (input) "IPPROTO_IP \<equiv> 0"
abbreviation (input) "IPPROTO_ICMP \<equiv> 1"
abbreviation (input) "IPPROTO_UDP \<equiv> 17"
abbreviation (input) "MAX_SOCK_ADDR \<equiv> 128"

text \<open>
  The functions that the tables of the socket layer point to, and the tables: \<^verbatim>\<open>struct proto\<close>, \<^verbatim>\<open>struct proto_ops\<close> and \<^verbatim>\<open>struct net_proto_family\<close>.
  A member that an initialiser leaves out is null. The member \<^verbatim>\<open>obj_size\<close> is the \<^verbatim>\<open>sizeof\<close> of a structure. The structures
  are static: a pointer to one is its name.
\<close>

datatype sendmsg_fn = Udp_sendmsg
datatype recvmsg_fn = Udp_recvmsg
datatype get_port_fn = Udp_v4_get_port
datatype sizeof_struct = Sizeof_udp_sock | Sizeof_raw_sock

record proto =
  prot_name :: string
  obj_size :: sizeof_struct
  prot_sendmsg :: "sendmsg_fn option"
  prot_recvmsg :: "recvmsg_fn option"
  prot_get_port :: "get_port_fn option"

definition udp_prot :: proto where
  "udp_prot = \<lparr>prot_name = ''UDP'', obj_size = Sizeof_udp_sock, prot_sendmsg = Some Udp_sendmsg,
     prot_recvmsg = Some Udp_recvmsg, prot_get_port = Some Udp_v4_get_port\<rparr>"

definition raw_prot :: proto where
  "raw_prot = \<lparr>prot_name = ''RAW'', obj_size = Sizeof_raw_sock, prot_sendmsg = None, prot_recvmsg = None, prot_get_port = None\<rparr>"

datatype proto_ptr = Udp_prot | Raw_prot

fun proto_at :: "proto_ptr \<Rightarrow> proto" where
  "proto_at Udp_prot = udp_prot"
| "proto_at Raw_prot = raw_prot"

datatype ops_sendmsg_fn = Inet_sendmsg
datatype ops_recvmsg_fn = Sock_common_recvmsg
datatype ops_bind_fn = Inet_bind

record proto_ops =
  ops_family :: int
  ops_sendmsg :: "ops_sendmsg_fn option"
  ops_recvmsg :: "ops_recvmsg_fn option"
  ops_bind :: "ops_bind_fn option"

definition inet_dgram_ops :: proto_ops where
  "inet_dgram_ops = \<lparr>ops_family = PF_INET, ops_sendmsg = Some Inet_sendmsg, ops_recvmsg = Some Sock_common_recvmsg, ops_bind = Some Inet_bind\<rparr>"

datatype proto_ops_ptr = Inet_dgram_ops

fun proto_ops_at :: "proto_ops_ptr \<Rightarrow> proto_ops" where
  "proto_ops_at Inet_dgram_ops = inet_dgram_ops"

datatype create_fn = Inet_create

record net_proto_family =
  pf_family :: int
  pf_create :: "create_fn option"

definition inet_family_ops :: net_proto_family where
  "inet_family_ops = \<lparr>pf_family = PF_INET, pf_create = Some Inet_create\<rparr>"

datatype family_ptr = Inet_family_ops

fun family_at :: "family_ptr \<Rightarrow> net_proto_family" where
  "family_at Inet_family_ops = inet_family_ops"

lemma proto_members [simp]:
  "prot_sendmsg udp_prot = Some Udp_sendmsg" "prot_recvmsg udp_prot = Some Udp_recvmsg" "prot_get_port udp_prot = Some Udp_v4_get_port"
  "prot_sendmsg raw_prot = None" "prot_recvmsg raw_prot = None" "prot_get_port raw_prot = None"
  "ops_sendmsg inet_dgram_ops = Some Inet_sendmsg" "ops_recvmsg inet_dgram_ops = Some Sock_common_recvmsg" "ops_bind inet_dgram_ops = Some Inet_bind"
  "pf_family inet_family_ops = PF_INET" "pf_create inet_family_ops = Some Inet_create"
  by (simp_all add: udp_prot_def raw_prot_def inet_dgram_ops_def inet_family_ops_def)

lemma only_family [simp]: "family_at p = inet_family_ops"
  by (cases p) simp

datatype inet_handler = Icmp_rcv | Udp_rcv

text \<open>
  \<^verbatim>\<open>struct udp_sock\<close> begins with \<^verbatim>\<open>struct inet_sock\<close>, which begins with \<^verbatim>\<open>struct sock\<close>: record
  extension. The two queues of a sock are list heads of the store. A raw sock has no
  \<open>udp_len\<close>; nothing but UDP reads that member. The member \<open>cork.fl\<close> is never used.
\<close>

record sock =
  sk_family :: u16
  sk_protocol :: u8
  sk_prot :: proto_ptr

record inet_sock = sock +
  inet_id :: u16
  inet_daddr :: u32
  inet_rcv_saddr :: u32
  inet_dport :: u16
  inet_num :: u16
  inet_saddr :: u32
  inet_sport :: u16
  cork_rt :: "nat option"

record udp_sock = inet_sock +
  udp_len :: u16

record socket =
  sock_ops :: "proto_ops_ptr option"
  socket_sk :: "nat option"
  sock_type :: int

record net_protocol =
  np_protocol :: u8
  np_handler :: inet_handler

record sockaddr_in =
  sin_family :: u16
  sin_port :: u16
  sin_addr :: u32

text \<open>A user buffer is its bytes; \<open>iov_len\<close> is the 16 bit member that describes it.\<close>

record iovec =
  iov_base :: "u8 list"
  iov_len :: u16

record msghdr =
  msg_name :: "sockaddr_in option"
  msg_namelen :: int
  msg_iov :: iovec
  msg_iovlen :: u16

section \<open>State\<close>

text \<open>
  The arrays \<open>socket_maps\<close> and \<open>udptable\<close> have 512 entries of a pointer and a flag; an access
  checks its index.
\<close>

abbreviation (input) "MAXSOCKETNUM \<equiv> 512"
abbreviation (input) "MAXUDPSOCKNUM \<equiv> 512"

record sk_map =
  map_sk :: "nat option"
  map_used :: bool

record sock_store = fib_store +
  socks :: "nat \<rightharpoonup> udp_sock"
  sockets :: "nat \<rightharpoonup> socket"
  net_families :: "nat \<Rightarrow> family_ptr option"
  socket_maps :: "nat \<Rightarrow> sk_map"
  udptable :: "nat \<Rightarrow> sk_map"
  icmp_socket :: "nat option"
  inet_protos :: "net_protocol list"

definition get_sock :: "nat \<Rightarrow> ('z sock_store_scheme, udp_sock) comp" where
  "get_sock k = (\<lambda>s. case socks s k of None \<Rightarrow> Inl Bad_pointer | Some x \<Rightarrow> Inr (x, s))"

definition upd_sock :: "nat \<Rightarrow> (udp_sock \<Rightarrow> udp_sock) \<Rightarrow> ('z sock_store_scheme, unit) comp" where
  "upd_sock k f = bindM (get_sock k) (\<lambda>x. modifyM (\<lambda>s. s\<lparr>socks := (socks s)(k \<mapsto> f x)\<rparr>))"

definition get_socket :: "nat \<Rightarrow> ('z sock_store_scheme, socket) comp" where
  "get_socket k = (\<lambda>s. case sockets s k of None \<Rightarrow> Inl Bad_pointer | Some x \<Rightarrow> Inr (x, s))"

definition upd_socket :: "nat \<Rightarrow> (socket \<Rightarrow> socket) \<Rightarrow> ('z sock_store_scheme, unit) comp" where
  "upd_socket k f = bindM (get_socket k) (\<lambda>x. modifyM (\<lambda>s. s\<lparr>sockets := (sockets s)(k \<mapsto> f x)\<rparr>))"

text \<open>Reading and writing an entry of one of the two 512-entry arrays.\<close>

definition read_map :: "('s \<Rightarrow> nat \<Rightarrow> sk_map) \<Rightarrow> int \<Rightarrow> ('s, sk_map) comp" where
  "read_map f k = (if 0 \<le> k \<and> k < 512 then getsM (\<lambda>s. f s (nat k)) else failM Out_of_bounds)"

section \<open>Socks\<close>

definition zero_sock :: "proto_ptr \<Rightarrow> udp_sock" where
  "zero_sock prot = \<lparr>sk_family = 0, sk_protocol = 0, sk_prot = prot, inet_id = 0, inet_daddr = 0,
     inet_rcv_saddr = 0, inet_dport = 0, inet_num = 0, inet_saddr = 0, inet_sport = 0,
     cork_rt = None, udp_len = 0\<rparr>"

definition sk_alloc :: "int \<Rightarrow> proto_ptr \<Rightarrow> ('z sock_store_scheme, nat option) comp" where
  "sk_alloc family prot = bindM malloc (\<lambda>p. case p of
       None \<Rightarrow> returnM None
     | Some sk \<Rightarrow>
         bindM (modifyM (\<lambda>s. s\<lparr>socks := (socks s)(sk \<mapsto> (zero_sock prot)\<lparr>sk_family := word_of_int family\<rparr>)\<rparr>))
         (\<lambda>_. returnM (Some sk)))"

definition sock_init_data :: "nat option \<Rightarrow> nat \<Rightarrow> ('z sock_store_scheme, unit) comp" where
  "sock_init_data sock sk =
     bindM (skb_queue_head_init (Write_queue sk)) (\<lambda>_.
     bindM (skb_queue_head_init (Receive_queue sk)) (\<lambda>_.
     case sock of
       Some k \<Rightarrow> upd_socket k (\<lambda>x. x\<lparr>socket_sk := Some sk\<rparr>)
     | None \<Rightarrow> returnM ()))"

definition sock_queue_rcv_skb :: "nat \<Rightarrow> nat \<Rightarrow> ('z sock_store_scheme, int) comp" where
  "sock_queue_rcv_skb sk skb = bindM (skb_queue_tail (Receive_queue sk) (Skb skb)) (\<lambda>_. returnM 0)"

section \<open>Datagrams\<close>

definition skb_copy_datagram_iovec :: "nat \<Rightarrow> u32 \<Rightarrow> iovec \<Rightarrow> int \<Rightarrow> ('z sock_store_scheme, int \<times> iovec) comp" where
  "skb_copy_datagram_iovec skb offset to len =
     bindM (on_skb skb (skb_pull offset)) (\<lambda>_.
     bindM (get_skb skb) (\<lambda>b.
     bindM (load_bytes skb (skb_data b) (unat (skb_len b))) (\<lambda>bytes.
     bindM (checkM (length bytes \<le> length (iov_base to)) Out_of_bounds) (\<lambda>_.
     returnM (0, to\<lparr>iov_base := put_bytes (iov_base to) 0 bytes, iov_len := ucast (skb_len b)\<rparr>)))))"

text \<open>The wait for a datagram: the queue is polled until it is not empty.\<close>

partial_function (option) skb_recv_datagram_loop :: "nat \<Rightarrow> ('z sock_store_scheme) \<Rightarrow>
    (fault + (nat \<times> ('z sock_store_scheme))) option" where
  "skb_recv_datagram_loop sk s = (case dequeue_skb (Receive_queue sk) s of
       Inl e \<Rightarrow> Some (Inl e)
     | Inr (p, t) \<Rightarrow> (case p of
           Some skb \<Rightarrow> Some (Inr (skb, t))
         | None \<Rightarrow> skb_recv_datagram_loop sk t))"

declare skb_recv_datagram_loop.simps [code]

definition skb_recv_datagram :: "nat \<Rightarrow> ('z sock_store_scheme, nat) comp" where
  "skb_recv_datagram sk = loopM (skb_recv_datagram_loop sk)"

section \<open>Symbolic execution\<close>

lemma get_sock_apply [comp_simps]: "socks s k = Some x \<Longrightarrow> get_sock k s = Inr (x, s)"
  by (simp add: get_sock_def)

lemma upd_sock_apply [comp_simps]:
  "socks s k = Some x \<Longrightarrow> upd_sock k f s = Inr ((), s\<lparr>socks := (socks s)(k \<mapsto> f x)\<rparr>)"
  by (simp add: upd_sock_def comp_simps)

lemma get_socket_apply [comp_simps]: "sockets s k = Some x \<Longrightarrow> get_socket k s = Inr (x, s)"
  by (simp add: get_socket_def)

lemma upd_socket_apply [comp_simps]:
  "sockets s k = Some x \<Longrightarrow> upd_socket k f s = Inr ((), s\<lparr>sockets := (sockets s)(k \<mapsto> f x)\<rparr>)"
  by (simp add: upd_socket_def comp_simps)

lemma skb_recv_datagram_apply:
  assumes "queue_rep s (Receive_queue sk) (i # is)"
  shows "skb_recv_datagram sk s = Inr (i, deq_state s (Receive_queue sk) i)"
  using dequeue_skb_apply [OF assms] by (simp add: skb_recv_datagram_def loopM_def skb_recv_datagram_loop.simps)

lemma skb_recv_datagram_waits:
  assumes "queue_rep s (Receive_queue sk) []"
  shows "skb_recv_datagram sk s = Inl Diverges"
proof -
  have "\<not> queue_rep s (Receive_queue sk) []" if "skb_recv_datagram_loop sk s = Some y" for y
    using that
  proof (rule skb_recv_datagram_loop.raw_induct [rotated])
    fix loop sk s y assume 1: "\<And>sk s y. loop sk s = Some y \<Longrightarrow> \<not> queue_rep s (Receive_queue sk) []"
      "(case dequeue_skb (Receive_queue sk) s of Inl e \<Rightarrow> Some (Inl e) | Inr (p, t) \<Rightarrow>
        (case p of Some skb \<Rightarrow> Some (Inr (skb, t)) | None \<Rightarrow> loop sk t)) = Some y"
    show "\<not> queue_rep s (Receive_queue sk) []"
    proof
      assume q: "queue_rep s (Receive_queue sk) []"
      then show False using 1 dequeue_skb_empty [OF q] by simp
    qed
  qed
  with assms have "skb_recv_datagram_loop sk s = None" by (cases "skb_recv_datagram_loop sk s") auto
  then show ?thesis by (simp add: skb_recv_datagram_def loopM_def)
qed

lemma memory_state_sock [simp]:
  "socks (alloc_state s k b) = socks s" "socks (enq_state s q n) = socks s" "socks (deq_state s q n) = socks s"
  "sockets (alloc_state s k b) = sockets s" "sockets (enq_state s q n) = sockets s" "sockets (deq_state s q n) = sockets s"
  "icmp_socket (alloc_state s k b) = icmp_socket s" "icmp_socket (enq_state s q n) = icmp_socket s"
  "icmp_socket (deq_state s q n) = icmp_socket s"
  "udptable (alloc_state s k b) = udptable s" "udptable (enq_state s q n) = udptable s" "udptable (deq_state s q n) = udptable s"
  "socket_maps (alloc_state s k b) = socket_maps s" "socket_maps (enq_state s q n) = socket_maps s"
  "socket_maps (deq_state s q n) = socket_maps s"
  "inet_protos (alloc_state s k b) = inet_protos s" "inet_protos (enq_state s q n) = inet_protos s"
  "inet_protos (deq_state s q n) = inet_protos s"
  "net_families (alloc_state s k b) = net_families s" "net_families (enq_state s q n) = net_families s"
  "net_families (deq_state s q n) = net_families s"
  by (simp_all add: alloc_state_def enq_state_def deq_state_def)

end
