(* ===== verification/Arp_Resolution.thy ===== *)
theory Arp_Resolution
  imports Neighbour
begin

text \<open>
  Address resolution as a state machine. The automaton \<open>rstep\<close> is what the neighbour layer
  promises to the sender of packets: the first packet for an unresolved neighbour causes one
  request, packets wait while the answer is outstanding, an answer releases them in order, and
  from then on packets pass at once. \<^verbatim>\<open>neigh->output\<close> and \<^verbatim>\<open>neigh_update\<close> implement its steps.
\<close>

section \<open>The specification\<close>

text \<open>A packet is the type of its contents and the contents.\<close>

type_synonym packet = "u16 \<times> u8 list"

datatype resolution = Unresolved | Asking | Resolved "u8 list"

datatype wire_event = Request u32 | Data "u8 list" packet

datatype resolver_action = Send u32 packet | Learn "u8 list"

record resolver =
  phase :: resolution
  waiting :: "packet list"
  wire :: "wire_event list"

inductive rstep :: "resolver \<Rightarrow> resolver_action \<Rightarrow> resolver \<Rightarrow> bool" where
  send_first: "phase r = Unresolved \<Longrightarrow>
    rstep r (Send src p) (r\<lparr>phase := Asking, waiting := waiting r @ [p], wire := wire r @ [Request src]\<rparr>)"
| send_wait: "phase r = Asking \<Longrightarrow> rstep r (Send src p) (r\<lparr>waiting := waiting r @ [p]\<rparr>)"
| send_now: "phase r = Resolved a \<Longrightarrow> rstep r (Send src p) (r\<lparr>wire := wire r @ [Data a p]\<rparr>)"
| learn: "rstep r (Learn a) (r\<lparr>phase := Resolved a, waiting := [], wire := wire r @ map (Data a) (waiting r)\<rparr>)"

inductive_cases rstep_SendE: "rstep r (Send src p) r'"
inductive_cases rstep_LearnE: "rstep r (Learn a) r'"

inductive run :: "resolver_action list \<Rightarrow> resolver \<Rightarrow> bool" where
  init: "run [] \<lparr>phase = Unresolved, waiting = [], wire = []\<rparr>"
| step: "run as r \<Longrightarrow> rstep r a r' \<Longrightarrow> run (as @ [a]) r'"

fun sent_packets :: "resolver_action list \<Rightarrow> packet list" where
  "sent_packets [] = []"
| "sent_packets (Send src p # as) = p # sent_packets as"
| "sent_packets (Learn a # as) = sent_packets as"

fun delivered :: "wire_event list \<Rightarrow> packet list" where
  "delivered [] = []"
| "delivered (Request src # es) = delivered es"
| "delivered (Data a p # es) = p # delivered es"

fun requests :: "wire_event list \<Rightarrow> u32 list" where
  "requests [] = []"
| "requests (Request src # es) = src # requests es"
| "requests (Data a p # es) = requests es"

lemma sent_packets_append [simp]: "sent_packets (as @ bs) = sent_packets as @ sent_packets bs"
  by (induction as rule: sent_packets.induct) simp_all

lemma delivered_append [simp]: "delivered (xs @ ys) = delivered xs @ delivered ys"
  by (induction xs rule: delivered.induct) simp_all

lemma requests_append [simp]: "requests (xs @ ys) = requests xs @ requests ys"
  by (induction xs rule: requests.induct) simp_all

lemma wire_of_map_Data [simp]: "delivered (map (Data a) ps) = ps" "requests (map (Data a) ps) = []"
  by (induction ps) simp_all

text \<open>The packets sent are those delivered followed by those still waiting, and one request is enough.\<close>

lemma run_invariant:
  "run as r \<Longrightarrow> sent_packets as = delivered (wire r) @ waiting r \<and> (phase r \<noteq> Asking \<longrightarrow> waiting r = []) \<and>
     length (requests (wire r)) \<le> 1 \<and> (phase r = Unresolved \<longrightarrow> wire r = [])"
proof (induction rule: run.induct)
  case (step as r a r')
  then show ?case by (cases a) (auto elim!: rstep_SendE rstep_LearnE)
qed simp

section \<open>The representation\<close>

definition packet_of :: "sk_buff \<Rightarrow> packet" where
  "packet_of b = (ntohs (skb_protocol b), window b)"

definition ip_src :: "sk_buff \<Rightarrow> u32" where
  "ip_src b = ld32 (skb_buf b) (nat (the (nh_raw b) + 12))"

fun render :: "neighbour \<Rightarrow> net_device \<Rightarrow> wire_event \<Rightarrow> u8 list" where
  "render x nd (Request src) = arp_frame nd ARPOP_REQUEST ETH_P_ARP (ld32 (primary_key x) 0) src None (Some (dev_addr nd)) None"
| "render x nd (Data a p) = eth_frame a (take 6 (dev_addr nd)) (fst p) (snd p)"

definition phase_of :: "neighbour \<Rightarrow> resolution" where
  "phase_of x = (if nud_state x = NUD_NONE then Unresolved else if nud_state x = NUD_INCOMPLETE then Asking
     else Resolved (take 6 (neigh_ha x)))"

definition resolver_rep :: "'z neigh_store_scheme \<Rightarrow> nat \<Rightarrow> nat \<Rightarrow> net_device \<Rightarrow> u8 list list \<Rightarrow> resolver \<Rightarrow> bool" where
  "resolver_rep s n d nd before r \<longleftrightarrow> (\<exists>x xs bs. neighs s n = Some x \<and> arp_neigh x \<and> neigh_dev x = Some d \<and>
     devs s d = Some nd \<and> eth_dev nd \<and> nud_state x \<in> {NUD_NONE, NUD_INCOMPLETE, NUD_REACHABLE} \<and>
     queue_rep s (Arp_queue n) xs \<and> (\<forall>i \<in> set xs. out_ready s i (bs i) n x d nd) \<and>
     phase r = phase_of x \<and> waiting r = map (\<lambda>i. packet_of (bs i)) xs \<and>
     tap_out s = before @ map (render x nd) (wire r))"

lemma out_ready_memory:
  assumes "out_ready s i b n x d nd" "skbs t i = skbs s i" "rtables t = rtables s" "devs t = devs s" "neighs t n = Some y"
    "arp_neigh y" "neigh_dev y = Some d"
  shows "out_ready t i b n y d nd"
  using assms by (auto simp: out_ready_def)

lemma arp_solicit_apply:
  assumes x: "neighs s n = Some x" "arp_neigh x" "neigh_dev x = Some d" and d: "devs s d = Some nd" "eth_dev nd"
    and b: "skbs s i = Some b" "nh_raw b = Some h" "in_block b (h + 12) 4" and m: "mem_ok s"
  shows "arp_solicit n i s = Inr ((),
    (alloc_state s 2 (arp_skb d (render x nd (Request (ip_src b)))))\<lparr>tap_out := tap_out s @ [render x nd (Request (ip_src b))]\<rparr>)"
proof -
  have "arp_send ARPOP_REQUEST ETH_P_ARP (ld32 (primary_key x) 0) d (ip_src b) None (Some (dev_addr nd)) None s =
    Inr ((), (alloc_state s 2 (arp_skb d (render x nd (Request (ip_src b)))))\<lparr>tap_out := tap_out s @ [render x nd (Request (ip_src b))]\<rparr>)"
    using arp_send_apply [OF d m, of None "Some (dev_addr nd)" None] d(2) by (simp add: eth_dev_def)
  then show ?thesis
    using x d b by (simp add: arp_solicit_def comp_simps load_defs arp_neigh_def ip_src_def)
qed

lemma resolver_repD:
  assumes "resolver_rep s n d nd before r" "neighs s n = Some x"
  obtains xs bs where "nud_state x \<in> {NUD_NONE, NUD_INCOMPLETE, NUD_REACHABLE}" "queue_rep s (Arp_queue n) xs"
    "\<forall>i \<in> set xs. out_ready s i (bs i) n x d nd" "phase r = phase_of x"
    "waiting r = map (\<lambda>i. packet_of (bs i)) xs" "tap_out s = before @ map (render x nd) (wire r)"
  using assms by (auto simp: resolver_rep_def)

lemma out_readyD:
  assumes "out_ready s i b n x d nd"
  shows "neighs s n = Some x" "arp_neigh x" "neigh_dev x = Some d" "devs s d = Some nd" "eth_dev nd" "skbs s i = Some b"
  using assms by (auto simp: out_ready_def)

lemmas neigh_output_unfold = call_neigh_output_def neigh_resolve_output_def neigh_event_send_def comp_simps
  arp_neigh_def arp_generic_ops_def

lemma render_nud_state [simp]: "render (x\<lparr>nud_state := st\<rparr>) nd = render x nd"
proof
  show "render (x\<lparr>nud_state := st\<rparr>) nd e = render x nd e" for e by (cases e) simp_all
qed

lemma out_ready_route:
  assumes "out_ready s i b n x d nd"
  obtains rt ro where "skb_dst b = Some rt" "rtables s rt = Some ro" "dst_neighbour ro = Some n"
  using assms by (auto simp: out_ready_def)

lemma resolver_rep_frame:
  assumes "resolver_rep s n d nd before r" "neighs t n = neighs s n" "devs t = devs s" "rtables s \<subseteq>\<^sub>m rtables t"
    "tap_out t = tap_out s"
    and "\<And>xs. queue_rep s (Arp_queue n) xs \<Longrightarrow> queue_rep t (Arp_queue n) xs"
    and "\<And>xs j. queue_rep s (Arp_queue n) xs \<Longrightarrow> j \<in> set xs \<Longrightarrow> skbs t j = skbs s j"
  shows "resolver_rep t n d nd before r"
proof -
  from assms(1) obtain x xs bs where x: "neighs s n = Some x" "arp_neigh x" "neigh_dev x = Some d"
     "devs s d = Some nd" "eth_dev nd" "nud_state x \<in> {NUD_NONE, NUD_INCOMPLETE, NUD_REACHABLE}"
     "queue_rep s (Arp_queue n) xs" "\<forall>i \<in> set xs. out_ready s i (bs i) n x d nd"
     "phase r = phase_of x" "waiting r = map (\<lambda>i. packet_of (bs i)) xs"
     "tap_out s = before @ map (render x nd) (wire r)"
    by (auto simp: resolver_rep_def)
  moreover have "\<forall>i \<in> set xs. out_ready t i (bs i) n x d nd"
    using x(8) assms(2-4) assms(7) [OF x(7)] by (fastforce simp: out_ready_def map_le_def dom_def)
  ultimately show ?thesis
    unfolding resolver_rep_def using assms by (intro exI [of _ x] exI [of _ xs] exI [of _ bs]) auto
qed

section \<open>Learning\<close>

lemma neigh_update_step:
  assumes "resolver_rep s n d nd before r" "6 \<le> length a"
  shows "wp (neigh_update n (Some a) NUD_REACHABLE) (\<lambda>rc t. rc = 0 \<and>
    (\<exists>xs. queue_rep s (Arp_queue n) xs \<and> output_frame {} n (set xs) s t) \<and>
    (\<exists>r'. rstep r (Learn (take 6 a)) r' \<and> resolver_rep t n d nd before r')) s"
proof -
  from assms(1) obtain x xs bs where s: "neighs s n = Some x" "arp_neigh x" "neigh_dev x = Some d"
     "devs s d = Some nd" "eth_dev nd" and q: "queue_rep s (Arp_queue n) xs" "\<forall>i \<in> set xs. out_ready s i (bs i) n x d nd"
    and r: "waiting r = map (\<lambda>i. packet_of (bs i)) xs" "tap_out s = before @ map (render x nd) (wire r)"
    by (auto simp: resolver_rep_def)
  let ?x = "x\<lparr>nud_state := NUD_REACHABLE, neigh_ha := put_bytes (neigh_ha x) 0 (take 6 a)\<rparr>"
  let ?s = "s\<lparr>neighs := (neighs s)(n \<mapsto> ?x)\<rparr>"
  let ?r = "r\<lparr>phase := Resolved (take 6 a), waiting := [], wire := wire r @ map (Data (take 6 a)) (waiting r)\<rparr>"
  have x: "arp_neigh ?x" "take 6 (neigh_ha ?x) = take 6 a" using s(2) assms(2) by (auto simp: arp_neigh_def put_bytes_def)
  have "queue_rep ?s (Arp_queue n) xs" using q(1) by (simp add: queue_rep_def)
  moreover have "\<forall>i \<in> set xs. out_ready ?s i (bs i) n ?x d nd" using q(2) s x(1) by (auto simp: out_ready_def)
  ultimately obtain t where t: "neigh_flush n ?s = Some (Inr ((), t))" "queue_rep t (Arp_queue n) []"
      "tap_out t = tap_out s @ map (\<lambda>i. neigh_frame ?x nd (bs i)) xs" "neighs t = neighs ?s" "devs t = devs ?s"
      "output_frame {} n (set xs) ?s t"
    using neigh_flush_sends [of ?s n xs ?x bs d nd] by auto
  have run: "neigh_update n (Some a) NUD_REACHABLE s = Inr (0, t)"
    using s assms(2) t(1) by (simp add: neigh_update_def comp_simps eth_dev_def loopM_def)
  have "render ?x nd = render x nd"
  proof
    show "render ?x nd e = render x nd e" for e by (cases e) simp_all
  qed
  then have "tap_out t = before @ map (render ?x nd) (wire ?r)"
    using t(3) r x(2) by (simp add: neigh_frame_def packet_of_def)
  then have "resolver_rep t n d nd before ?r"
    unfolding resolver_rep_def using t(2,4,5) s x by (intro exI [of _ ?x] exI [of _ "[]"]) (auto simp: phase_of_def)
  moreover have "rstep r (Learn (take 6 a)) ?r" by (rule learn)
  moreover have "output_frame {} n (set xs) s t"
    using mem_frame_trans [OF mem_frame_same [of ?s s "{Arp_queue n}" "set xs"]] t(4,6) by (simp add: output_frame_def)
  ultimately show ?thesis using run q(1) by (auto intro: wpI)
qed

text \<open>
  C11: \<^verbatim>\<open>neigh_update\<close> with a hardware address implements the step \<open>Learn\<close>: its loop ends, the waiting
  packets are written to the device in the order of their arrival, framed with the new address,
  and the neighbour is reachable with an empty queue.
\<close>

theorem neigh_update_learns:
  assumes "resolver_rep s n d nd before r" "6 \<le> length a"
  shows "wp (neigh_update n (Some a) NUD_REACHABLE) (\<lambda>rc t. rc = 0 \<and>
    (\<exists>r'. rstep r (Learn (take 6 a)) r' \<and> resolver_rep t n d nd before r')) s"
  by (rule wp_mono [OF neigh_update_step [OF assms]]) auto

section \<open>Sending\<close>

lemma neigh_output_unresolved:
  assumes rep: "resolver_rep s n d nd before r" and h: "heap_ok s" "mem_ok s"
    and i: "out_ready s i b n x d nd" "nh_raw b = Some nh" "in_block b (nh + 12) 4"
    and new: "\<And>xs. queue_rep s (Arp_queue n) xs \<Longrightarrow> i \<notin> set xs" and st: "nud_state x = NUD_NONE"
  shows "wp (call_neigh_output n i) (\<lambda>rc t. output_frame {} n {i} s t \<and> (\<exists>r'. rstep r (Send (ip_src b) (packet_of b)) r' \<and>
    resolver_rep t n d nd before r')) s"
proof -
  note x = out_readyD [OF i(1)]
  from resolver_repD [OF rep x(1)] obtain xs bs where q: "queue_rep s (Arp_queue n) xs"
    "\<forall>i \<in> set xs. out_ready s i (bs i) n x d nd" and r: "phase r = phase_of x"
    "waiting r = map (\<lambda>i. packet_of (bs i)) xs" "tap_out s = before @ map (render x nd) (wire r)" .
  note inew = new [OF q(1)]
  from out_ready_route [OF i(1)] obtain rt ro where
    route: "skb_dst b = Some rt" "rtables s rt = Some ro" "dst_neighbour ro = Some n" .
  let ?req = "render x nd (Request (ip_src b))" and ?x = "x\<lparr>nud_state := NUD_INCOMPLETE\<rparr>"
  let ?a = "(alloc_state s 2 (arp_skb d ?req))\<lparr>tap_out := tap_out s @ [?req], neighs := (neighs s)(n \<mapsto> ?x)\<rparr>"
  let ?t = "enq_state ?a (Arp_queue n) i"
  let ?r = "r\<lparr>phase := Asking, waiting := waiting r @ [packet_of b], wire := wire r @ [Request (ip_src b)]\<rparr>"
  have qa: "queue_rep ?a (Arp_queue n) xs"
    using queue_rep_alloc_state [OF q(1) h(1), of 2] by (simp add: queue_rep_def)
  have live: "skbs ?a i = Some b" using heap_okD [OF h(1) x(6)] x(6) by simp
  have run: "call_neigh_output n i s = Inr (0, ?t)"
    using x route st arp_solicit_apply [OF x(1-6) i(2,3) h(2)] skb_queue_tail_apply [OF qa, of i] live
    by (simp add: neigh_output_unfold)
  have "out_ready ?t j c n ?x d nd" if "out_ready s j c n x d nd" for j c
    using x heap_okD [OF h(1) out_readyD(6) [OF that]] by (intro out_ready_memory [OF that]) (auto simp: arp_neigh_def)
  then have "\<forall>j \<in> set (xs @ [i]). out_ready ?t j ((bs(i := b)) j) n ?x d nd" using inew q(2) i(1) by auto
  moreover have "queue_rep ?t (Arp_queue n) (xs @ [i])" using enq_state_rep [OF qa, of i] live inew by simp
  ultimately have "resolver_rep ?t n d nd before ?r"
    unfolding resolver_rep_def using x r inew
    by (intro exI [of _ ?x] exI [of _ "xs @ [i]"] exI [of _ "bs(i := b)"]) (auto simp: phase_of_def arp_neigh_def)
  moreover have "rstep r (Send (ip_src b) (packet_of b)) ?r"
    using r(1) st by (intro send_first) (simp add: phase_of_def)
  moreover have "output_frame {} n {i} s ?t"
  proof -
    have "mem_frame {Arp_queue n} {i} s (alloc_state s 2 (arp_skb d ?req))" using h(1) by (rule mem_frame_alloc) simp
    moreover have "mem_frame {Arp_queue n} {i} (alloc_state s 2 (arp_skb d ?req)) ?a" by (rule mem_frame_same) simp_all
    ultimately have "mem_frame {Arp_queue n} {i} s ?t" using mem_frame_enq [OF qa, of i] by (blast intro: mem_frame_trans)
    then show ?thesis using live by (simp add: output_frame_def)
  qed
  ultimately show ?thesis using run by (auto intro: wpI)
qed

lemma neigh_output_asking:
  assumes rep: "resolver_rep s n d nd before r" and i: "out_ready s i b n x d nd"
    and new: "\<And>xs. queue_rep s (Arp_queue n) xs \<Longrightarrow> i \<notin> set xs" and st: "nud_state x = NUD_INCOMPLETE"
  shows "wp (call_neigh_output n i) (\<lambda>rc t. output_frame {} n {i} s t \<and>
    (\<exists>r'. rstep r (Send src (packet_of b)) r' \<and> resolver_rep t n d nd before r')) s"
proof -
  note x = out_readyD [OF i]
  from resolver_repD [OF rep x(1)] obtain xs bs where q: "queue_rep s (Arp_queue n) xs"
    "\<forall>i \<in> set xs. out_ready s i (bs i) n x d nd" and r: "phase r = phase_of x"
    "waiting r = map (\<lambda>i. packet_of (bs i)) xs" "tap_out s = before @ map (render x nd) (wire r)" .
  note inew = new [OF q(1)]
  from out_ready_route [OF i] obtain rt ro where
    route: "skb_dst b = Some rt" "rtables s rt = Some ro" "dst_neighbour ro = Some n" .
  let ?t = "enq_state s (Arp_queue n) i" and ?r = "r\<lparr>waiting := waiting r @ [packet_of b]\<rparr>"
  have run: "call_neigh_output n i s = Inr (0, ?t)"
    using x route st skb_queue_tail_apply [OF q(1), of i] by (simp add: neigh_output_unfold)
  have "\<forall>j \<in> set (xs @ [i]). out_ready ?t j ((bs(i := b)) j) n x d nd"
    using inew q(2) i x(1-3) by (auto simp: out_ready_def)
  moreover have "queue_rep ?t (Arp_queue n) (xs @ [i])" using enq_state_rep [OF q(1), of i] x(6) inew by simp
  ultimately have "resolver_rep ?t n d nd before ?r"
    unfolding resolver_rep_def using x r inew st
    by (intro exI [of _ x] exI [of _ "xs @ [i]"] exI [of _ "bs(i := b)"]) (auto simp: phase_of_def)
  moreover have "rstep r (Send src (packet_of b)) ?r" using r(1) st by (intro send_wait) (simp add: phase_of_def)
  moreover have "output_frame {} n {i} s ?t"
    using x(6) mem_frame_enq [OF q(1), of i] by (simp add: output_frame_def)
  ultimately show ?thesis using run by (auto intro: wpI)
qed

lemma neigh_output_resolved:
  assumes rep: "resolver_rep s n d nd before r" and i: "out_ready s i b n x d nd"
    and new: "\<And>xs. queue_rep s (Arp_queue n) xs \<Longrightarrow> i \<notin> set xs" and st: "nud_state x = NUD_REACHABLE"
  shows "wp (call_neigh_output n i) (\<lambda>rc t. output_frame {} n {i} s t \<and>
    (\<exists>r'. rstep r (Send src (packet_of b)) r' \<and> resolver_rep t n d nd before r')) s"
proof -
  note x = out_readyD [OF i]
  from resolver_repD [OF rep x(1)] obtain xs bs where q: "queue_rep s (Arp_queue n) xs"
    "\<forall>i \<in> set xs. out_ready s i (bs i) n x d nd" and r: "phase r = phase_of x"
    "waiting r = map (\<lambda>i. packet_of (bs i)) xs" "tap_out s = before @ map (render x nd) (wire r)" .
  let ?t = "s\<lparr>skbs := (skbs s)(i \<mapsto> framed x nd b), tap_out := tap_out s @ [neigh_frame x nd b]\<rparr>"
  let ?r = "r\<lparr>wire := wire r @ [Data (take 6 (neigh_ha x)) (packet_of b)]\<rparr>"
  obtain rc where run: "call_neigh_output n i s = Inr (rc, ?t)" using neigh_output_reachable [OF i st] by auto
  have "\<forall>j \<in> set xs. out_ready ?t j (bs j) n x d nd" using q(2) new [OF q(1)] by (auto simp: out_ready_def)
  moreover have "queue_rep ?t (Arp_queue n) xs" using queue_rep_skb_upd [OF q(1)] by simp
  ultimately have "resolver_rep ?t n d nd before ?r"
    unfolding resolver_rep_def using x r st
    by (intro exI [of _ x] exI [of _ xs] exI [of _ bs]) (auto simp: neigh_frame_def packet_of_def)
  moreover have "rstep r (Send src (packet_of b)) ?r" using r(1) st by (intro send_now) (simp add: phase_of_def)
  moreover have "output_frame {} n {i} s ?t"
    using x(6) mem_frame_skb [of ?t s i] by (simp add: output_frame_def)
  ultimately show ?thesis using run by (auto intro: wpI)
qed

lemma neigh_output_step:
  assumes rep: "resolver_rep s n d nd before r" and h: "heap_ok s" "mem_ok s"
    and i: "out_ready s i b n x d nd" "nh_raw b = Some nh" "in_block b (nh + 12) 4"
    and new: "\<And>xs. queue_rep s (Arp_queue n) xs \<Longrightarrow> i \<notin> set xs"
  shows "wp (call_neigh_output n i) (\<lambda>rc t. output_frame {} n {i} s t \<and> (\<exists>r'. rstep r (Send (ip_src b) (packet_of b)) r' \<and>
    resolver_rep t n d nd before r')) s"
proof -
  have "nud_state x \<in> {NUD_NONE, NUD_INCOMPLETE, NUD_REACHABLE}" by (rule resolver_repD [OF rep out_readyD(1) [OF i(1)]])
  then show ?thesis
    using neigh_output_unresolved [OF assms] neigh_output_asking [OF rep i(1) new] neigh_output_resolved [OF rep i(1) new] by auto
qed

text \<open>
  C10: the output function of a neighbour implements the step \<open>Send\<close>. From every state of a
  neighbour it returns without a fault: an unresolved neighbour broadcasts one ARP request for
  its address with the packet's source and queues the packet, a neighbour that waits for the
  answer queues it, and a reachable neighbour writes the packet in a frame to its address.
\<close>

theorem neigh_output_sends:
  assumes rep: "resolver_rep s n d nd before r" and h: "heap_ok s" "mem_ok s"
    and i: "out_ready s i b n x d nd" "nh_raw b = Some nh" "in_block b (nh + 12) 4"
    and new: "\<And>xs. queue_rep s (Arp_queue n) xs \<Longrightarrow> i \<notin> set xs"
  shows "wp (call_neigh_output n i) (\<lambda>rc t. \<exists>r'. rstep r (Send (ip_src b) (packet_of b)) r' \<and>
    resolver_rep t n d nd before r') s"
  by (rule wp_mono [OF neigh_output_step [OF rep h i]]) (use new in auto)

section \<open>The life of a neighbour\<close>

text \<open>
  The life of a neighbour in the running stack: packets are handed to its output function,
  answers to \<^verbatim>\<open>neigh_update\<close>, and in between other parts of the stack change whatever does not
  concern it. \<open>neigh_history n d nd before ps s\<close>: after the packets \<open>ps\<close> the store is \<open>s\<close>.
\<close>

inductive neigh_history :: "nat \<Rightarrow> nat \<Rightarrow> net_device \<Rightarrow> u8 list list \<Rightarrow> packet list \<Rightarrow> ('z neigh_store_scheme) \<Rightarrow> bool"
  for n d nd before where
  start: "resolver_rep s n d nd before \<lparr>phase = Unresolved, waiting = [], wire = []\<rparr> \<Longrightarrow>
    neigh_history n d nd before [] s"
| sent: "neigh_history n d nd before ps s \<Longrightarrow> heap_ok s \<Longrightarrow> mem_ok s \<Longrightarrow> out_ready s i b n x d nd \<Longrightarrow>
    nh_raw b = Some nh \<Longrightarrow> in_block b (nh + 12) 4 \<Longrightarrow> (\<forall>xs. queue_rep s (Arp_queue n) xs \<longrightarrow> i \<notin> set xs) \<Longrightarrow>
    call_neigh_output n i s = Inr (rc, t) \<Longrightarrow> neigh_history n d nd before (ps @ [packet_of b]) t"
| learned: "neigh_history n d nd before ps s \<Longrightarrow> 6 \<le> length a \<Longrightarrow>
    neigh_update n (Some a) NUD_REACHABLE s = Inr (rc, t) \<Longrightarrow> neigh_history n d nd before ps t"
| other: "neigh_history n d nd before ps s \<Longrightarrow> neighs t n = neighs s n \<Longrightarrow> devs t = devs s \<Longrightarrow> rtables s \<subseteq>\<^sub>m rtables t \<Longrightarrow>
    tap_out t = tap_out s \<Longrightarrow>
    (\<forall>xs. queue_rep s (Arp_queue n) xs \<longrightarrow> queue_rep t (Arp_queue n) xs \<and> (\<forall>j \<in> set xs. skbs t j = skbs s j)) \<Longrightarrow>
    neigh_history n d nd before ps t"

lemma neigh_history_run:
  "neigh_history n d nd before ps s \<Longrightarrow> \<exists>as r. run as r \<and> ps = sent_packets as \<and> resolver_rep s n d nd before r"
proof (induction rule: neigh_history.induct)
  case (start s)
  then show ?case using run.init by (intro exI [of _ "[]"]) auto
next
  case (sent ps s i b x nh rc t)
  then obtain as r where r: "run as r" "ps = sent_packets as" "resolver_rep s n d nd before r" by blast
  from neigh_output_step [OF r(3) sent.hyps(2-6)] sent.hyps(7,8) obtain r' where
    "rstep r (Send (ip_src b) (packet_of b)) r'" "resolver_rep t n d nd before r'"
    by (auto simp: wp_def)
  with r run.step [OF r(1)] show ?case by fastforce
next
  case (learned ps s a rc t)
  then obtain as r where r: "run as r" "ps = sent_packets as" "resolver_rep s n d nd before r" by blast
  from neigh_update_step [OF r(3) learned.hyps(2)] learned.hyps(3) obtain r' where
    "rstep r (Learn (take 6 a)) r'" "resolver_rep t n d nd before r'" by (auto simp: wp_def)
  with r run.step [OF r(1)] show ?case by fastforce
next
  case (other ps s t)
  then show ?case using resolver_rep_frame by blast
qed


section \<open>Witnesses\<close>

text \<open>A device, a route through an unresolved neighbour and a packet for it.\<close>

definition example_route :: rtable where
  "example_route = \<lparr>dst_dev = Some 1, dst_neighbour = Some 3, dst_input_ptr = None, dst_output_ptr = Some Ip_output,
     rt_iif = None, rt_type = 1, rt_dst = 0x0100000a, rt_src = 0x0200000a, rt_gateway = 0x0100000a, rt_fl = zero_flowi\<rparr>"

definition example_out_skb :: sk_buff where
  "example_out_skb = zero_skb\<lparr>skb_dev := Some 1, skb_dst := Some 2, nh_raw := Some 14, skb_data := 14, skb_tail := 34,
     skb_end := 34, skb_len := 20, skb_protocol := htons ETH_P_IP, skb_buf := replicate 34 0\<rparr>"

definition example_neigh :: neigh_store where
  "example_neigh = \<lparr>os = example_env, brk = 4, skbs = [0 \<mapsto> example_out_skb],
     nxt = (\<lambda>_. None)(Arp_queue 3 := Some (Arp_queue 3)), prv = (\<lambda>_. None)(Arp_queue 3 := Some (Arp_queue 3)),
     qlen = (\<lambda>_. 0), devs = [1 \<mapsto> example_dev], in_devs = Map.empty, dev_base = Some 1,
     last_ifindex = 1, ptype_base = [], tap_out = [], rtables = [2 \<mapsto> example_route],
     neighs = [3 \<mapsto> new_neigh (bytes32 0x0100000a) 1],
     ntables = (\<lambda>_. arp_tbl\<lparr>buckets := [3]\<rparr>), neigh_tables = []\<rparr>"

definition empty_resolver :: resolver where
  "empty_resolver = \<lparr>phase = Unresolved, waiting = [], wire = []\<rparr>"

lemma example_resolver_rep: "resolver_rep example_neigh 3 1 example_dev [] empty_resolver"
  unfolding resolver_rep_def
  by (intro exI [of _ "new_neigh (bytes32 0x0100000a) 1"] exI [of _ "[]"])
    (simp add: example_neigh_def new_neigh_def arp_neigh_def example_dev_def ether_setup_def zero_dev_def eth_dev_def
      queue_rep_def empty_resolver_def phase_of_def)

theorem neigh_update_learns_witness:
  "wp (neigh_update 3 (Some [2, 0, 0, 0, 0, 1]) NUD_REACHABLE) (\<lambda>rc t. rc = 0 \<and>
    (\<exists>r'. rstep empty_resolver (Learn [2, 0, 0, 0, 0, 1]) r' \<and> resolver_rep t 3 1 example_dev [] r')) example_neigh"
  using neigh_update_learns [OF example_resolver_rep, of "[2, 0, 0, 0, 0, 1]"] by simp

lemma example_out_ready:
  "out_ready example_neigh 0 example_out_skb 3 (new_neigh (bytes32 0x0100000a) 1) 1 example_dev"
  by (simp add: out_ready_def example_neigh_def example_out_skb_def wf_skb_def zero_skb_def example_route_def
      new_neigh_def arp_neigh_def example_dev_def ether_setup_def zero_dev_def eth_dev_def)

lemma example_not_queued: "queue_rep example_neigh (Arp_queue 3) xs \<Longrightarrow> 0 \<notin> set xs"
  using queue_rep_unique [of example_neigh "Arp_queue 3" xs "[]"] by (simp add: queue_rep_def example_neigh_def)

lemma example_neigh_facts:
  "heap_ok example_neigh" "mem_ok example_neigh" "nh_raw example_out_skb = Some 14"
  "in_block example_out_skb (14 + 12) 4" "ip_src example_out_skb = 0"
  "packet_of example_out_skb = (0x0800, replicate 20 0)"
  by (simp_all add: heap_ok_def mem_ok_def example_neigh_def example_env_def example_out_skb_def in_block_def ip_src_def
      ld32_def le32_def packet_of_def window_def get_bytes_def zero_skb_def)

theorem neigh_output_sends_witness:
  "wp (call_neigh_output 3 0) (\<lambda>rc t. \<exists>r'. rstep empty_resolver (Send 0 (0x0800, replicate 20 0)) r' \<and>
    resolver_rep t 3 1 example_dev [] r') example_neigh"
  using neigh_output_sends [OF example_resolver_rep example_neigh_facts(1,2) example_out_ready example_neigh_facts(3,4)
      example_not_queued] example_neigh_facts(5,6) by simp


lemma example_neigh_inv: "neigh_inv example_neigh"
  by (simp add: neigh_inv_def example_neigh_def arp_tbl_def new_neigh_def arp_neigh_def)

theorem neigh_lookup_errno_cache_witness:
  "wp (bindM (neigh_lookup_errno Arp_tbl (bytes32 0x0100000a) 1) (\<lambda>n. bindM (neigh_lookup_errno Arp_tbl (bytes32 0x0500000a) 1)
     (\<lambda>n'. returnM (n, n')))) (\<lambda>(n, n') t. neigh_inv t) example_neigh"
  by (rule wp_mono [OF neigh_lookup_errno_cache [OF example_neigh_inv, of "bytes32 0x0100000a" "bytes32 0x0500000a" 1 1]]) auto

end
