(* ===== verification/Ip_Output.thy ===== *)
theory Ip_Output
  imports Sock Arp_Resolution
begin

text \<open>
  The output path of \<^verbatim>\<open>ipv4/ip_output.c\<close>: building a datagram in a socket buffer on the
  socket's write queue, filling its IP header, and handing it to the next hop. The
  \<^verbatim>\<open>getfrag\<close> callback is one of the two functions the sources pass: \<^verbatim>\<open>ip_generic_getfrag\<close> with
  a user buffer, or \<^verbatim>\<open>icmp_glue_bits\<close> of \<^verbatim>\<open>ipv4/icmp.c\<close> with a reply under construction.
\<close>

section \<open>Constants and structures\<close>

abbreviation (input) "sizeof_iphdr \<equiv> 20"
abbreviation (input) "sizeof_icmphdr \<equiv> 8"
abbreviation (input) "sizeof_udphdr \<equiv> 8"

text \<open>
  \<^verbatim>\<open>struct icmp_bxm\<close>: the request, the header of the reply as its bytes, and the lengths. The
  members \<open>times\<close> and \<open>optbuf\<close> are never used.
\<close>

record icmp_bxm =
  bxm_skb :: nat
  bxm_offset :: int
  bxm_data_len :: int
  bxm_icmph :: "u8 list"
  bxm_head_len :: int

datatype getfrag = Ip_generic_getfrag iovec | Icmp_glue_bits icmp_bxm

text \<open>The checksum of \<open>len\<close> bytes of memory (a negative length reads nothing).\<close>

definition checksum_at :: "nat \<Rightarrow> int \<Rightarrow> int \<Rightarrow> ('z skb_store_scheme, u16) comp" where
  "checksum_at skb off len =
     (if len \<le> 0 then returnM (checksum [])
      else bindM (load_bytes skb off (nat len)) (\<lambda>bs. returnM (checksum bs)))"

section \<open>Handing a packet to the next hop\<close>

definition ip_finish_output2 :: "nat \<Rightarrow> ('z fib_store_scheme, int) comp" where
  "ip_finish_output2 skb =
     bindM (get_skb skb) (\<lambda>b.
     bindM (nonnull (skb_dst b)) (\<lambda>dst.
     bindM (get_rt dst) (\<lambda>rt. case dst_neighbour rt of
         Some n \<Rightarrow> bindM (call_neigh_output n skb) (\<lambda>_. returnM 0)
       | None \<Rightarrow> returnM (-1))))"

definition ip_finish_output :: "nat \<Rightarrow> ('z fib_store_scheme, int) comp" where
  "ip_finish_output skb = ip_finish_output2 skb"

definition ip_output :: "nat \<Rightarrow> ('z fib_store_scheme, int) comp" where
  "ip_output skb =
     bindM (get_skb skb) (\<lambda>b.
     bindM (nonnull (skb_dst b)) (\<lambda>dst.
     bindM (get_rt dst) (\<lambda>rt.
     bindM (upd_skb skb (\<lambda>b. b\<lparr>skb_dev := dst_dev rt, skb_protocol := htons ETH_P_IP\<rparr>)) (\<lambda>_.
     ip_finish_output skb))))"

definition dst_output :: "nat \<Rightarrow> ('z fib_store_scheme, int) comp" where
  "dst_output skb =
     bindM (get_skb skb) (\<lambda>b.
     bindM (nonnull (skb_dst b)) (\<lambda>dst.
     bindM (get_rt dst) (\<lambda>rt. case dst_output_ptr rt of
         None \<Rightarrow> failM Bad_pointer
       | Some Ip_output \<Rightarrow> ip_output skb
       | Some Ip_rt_bug \<Rightarrow> ip_rt_bug skb)))"

section \<open>Building a datagram\<close>

definition ip_generic_getfrag :: "iovec \<Rightarrow> int \<Rightarrow> nat \<Rightarrow> nat \<Rightarrow> ('z sock_store_scheme, int) comp" where
  "ip_generic_getfrag iov to len skb =
     bindM (copy_from (iov_base iov) len) (\<lambda>bs.
     bindM (store_bytes skb to bs) (\<lambda>_. returnM 0))"

definition icmp_glue_bits :: "icmp_bxm \<Rightarrow> int \<Rightarrow> nat \<Rightarrow> nat \<Rightarrow> ('z sock_store_scheme, int) comp" where
  "icmp_glue_bits icmp_param to len skb =
     bindM (get_skb (bxm_skb icmp_param)) (\<lambda>req.
     bindM (load_bytes (bxm_skb icmp_param) (skb_data req) len) (\<lambda>payload.
     bindM (store_bytes skb to payload) (\<lambda>_.
     bindM (get_skb skb) (\<lambda>b.
     bindM (nonnull (h_raw b)) (\<lambda>icmph.
     bindM (copy_from (bxm_icmph icmp_param) (nat (bxm_head_len icmp_param))) (\<lambda>hd.
     bindM (store_bytes skb icmph hd) (\<lambda>_.
     bindM (store_bytes skb (icmph + 2) (bytes16 0)) (\<lambda>_.
     bindM (checksum_at skb icmph (sint (skb_len b))) (\<lambda>c.
     bindM (store_bytes skb (icmph + 2) (bytes16 c)) (\<lambda>_.
     bindM (on_skb skb (skb_push (word_of_int (bxm_head_len icmp_param)))) (\<lambda>_.
     returnM 0)))))))))))"

definition call_getfrag :: "getfrag \<Rightarrow> int \<Rightarrow> nat \<Rightarrow> nat \<Rightarrow> ('z sock_store_scheme, int) comp" where
  "call_getfrag f to len skb = (case f of
       Ip_generic_getfrag iov \<Rightarrow> ip_generic_getfrag iov to len skb
     | Icmp_glue_bits icmp_param \<Rightarrow> icmp_glue_bits icmp_param to len skb)"

definition ip_append_data :: "nat \<Rightarrow> getfrag \<Rightarrow> u32 \<Rightarrow> u32 \<Rightarrow> nat \<Rightarrow> ('z sock_store_scheme, int) comp" where
  "ip_append_data sk getfrag len transhdrlen rt =
     bindM (get_rt rt) (\<lambda>r.
     bindM (nonnull (dst_dev r)) (\<lambda>d.
     bindM (get_dev d) (\<lambda>nd.
     let hh_len = hard_header_len nd in
     bindM (upd_sock sk (\<lambda>x. x\<lparr>cork_rt := Some rt\<rparr>)) (\<lambda>_.
     let fragheaderlen = sizeof_iphdr; datalen = len;
         alloclen = datalen + fragheaderlen; fraglen = datalen + fragheaderlen in
     bindM (alloc_skb (alloclen + ucast hh_len)) (\<lambda>p. case p of
         None \<Rightarrow> returnM (-1)
       | Some skb \<Rightarrow>
           bindM (on_skb skb (skb_reserve (uint hh_len))) (\<lambda>_.
           bindM (on_skb skb (skb_put fraglen)) (\<lambda>data.
           bindM (upd_skb skb (\<lambda>b. b\<lparr>nh_raw := data\<rparr>)) (\<lambda>_.
           bindM (on_skb skb (skb_pull fragheaderlen)) (\<lambda>_.
           bindM (nonnull data) (\<lambda>data.
           let data = data + int sizeof_iphdr in
           bindM (upd_skb skb (\<lambda>b. b\<lparr>h_raw := Some data\<rparr>)) (\<lambda>_.
           bindM (on_skb skb (skb_pull transhdrlen)) (\<lambda>_.
           let copy = sint (datalen - transhdrlen) in
           bindM (if copy > 0 then call_getfrag getfrag (data + uint transhdrlen) (nat copy) skb
             else returnM 0) (\<lambda>_.
           bindM (skb_queue_tail (Write_queue sk) (Skb skb)) (\<lambda>_.
           returnM 0))))))))))))))"

section \<open>Filling the header and sending\<close>

text \<open>The bytes of the IP header before its checksum is stored.\<close>

definition ip_header :: "u16 \<Rightarrow> u8 \<Rightarrow> u32 \<Rightarrow> u32 \<Rightarrow> u8 list" where
  "ip_header tot_len protocol saddr daddr =
     [0x45, 0] @ bytes16 (htons tot_len) @ bytes16 0 @ bytes16 (htons (0x4000 :: u16)) @
     [64, protocol] @ bytes16 0 @ bytes32 saddr @ bytes32 daddr"

definition ip_push_pending_frames :: "nat \<Rightarrow> ('z sock_store_scheme, int) comp" where
  "ip_push_pending_frames sk =
     bindM (get_sock sk) (\<lambda>x.
     bindM (dequeue_skb (Write_queue sk)) (\<lambda>p. case p of
         None \<Rightarrow> returnM (-1)
       | Some skb \<Rightarrow>
           bindM (get_skb skb) (\<lambda>b.
           bindM (nonnull (nh_raw b)) (\<lambda>nh.
           bindM (if nh < skb_data b then on_skb skb (skb_push (word_of_int (skb_data b - nh)))
             else returnM None) (\<lambda>_.
           bindM (get_skb skb) (\<lambda>b.
           let iph = skb_data b in
           bindM (nonnull (cork_rt x)) (\<lambda>rt.
           bindM (get_rt rt) (\<lambda>r.
           bindM (store_bytes skb iph (ip_header (ucast (skb_len b)) (sk_protocol x) (rt_src r) (rt_dst r))) (\<lambda>_.
           bindM (checksum_at skb iph (5 * 4)) (\<lambda>c.
           bindM (store_bytes skb (iph + 10) (bytes16 c)) (\<lambda>_.
           bindM (upd_skb skb (\<lambda>b. b\<lparr>skb_dst := Some rt\<rparr>)) (\<lambda>_.
           bindM (dst_output skb) (\<lambda>_.
           returnM 0)))))))))))))"

definition ip_init :: "('z fib_store_scheme, unit) comp" where
  "ip_init = ip_rt_init"

section \<open>Datagrams\<close>

text \<open>The datagram the header filled by \<^verbatim>\<open>ip_push_pending_frames\<close> makes of a transport segment.\<close>

definition ip_datagram :: "u8 \<Rightarrow> u32 \<Rightarrow> u32 \<Rightarrow> u8 list \<Rightarrow> u8 list" where
  "ip_datagram proto src dst payload =
     (let h = ip_header (of_nat (20 + length payload)) proto src dst in put_bytes h 10 (bytes16 (checksum h)) @ payload)"

lemma length_ip_header [simp]: "length (ip_header n p s d) = 20"
  by (simp add: ip_header_def)

lemma ip_header_nth: "ip_header n p s d ! 0 = 0x45" "ld16 (ip_header n p s d) 10 = 0"
    "ld16 (ip_header n p s d) 2 = htons n" "ld32 (ip_header n p s d) 12 = s" "ld32 (ip_header n p s d) 16 = d"
    "ip_header n p s d ! 9 = p"
  by (simp_all add: ip_header_def ld16_def ld32_def bytes16_def bytes32_def le16_zero)

lemma ip_datagram_nth:
  "ip_datagram p s d payload ! 0 = 0x45" "ip_datagram p s d payload ! 9 = p"
  "ld16 (ip_datagram p s d payload) 2 = htons (of_nat (20 + length payload) :: u16)"
  "ld32 (ip_datagram p s d payload) 12 = s" "ld32 (ip_datagram p s d payload) 16 = d"
  "length (ip_datagram p s d payload) = 20 + length payload"
  using ip_header_nth [of "of_nat (20 + length payload)" p s d]
  by (simp_all add: ip_datagram_def Let_def ld16_def ld32_def nth_append nth_put_bytes)

definition segment_of :: "sk_buff \<Rightarrow> int \<Rightarrow> u8 list" where
  "segment_of b nh = get_bytes (skb_buf b) (nat nh + 20) (nat (skb_tail b - nh) - 20)"

text \<open>The buffer once its IP header is filled in.\<close>

definition ip_filled :: "u8 \<Rightarrow> u32 \<Rightarrow> u32 \<Rightarrow> int \<Rightarrow> sk_buff \<Rightarrow> sk_buff" where
  "ip_filled proto src dst nh b =
     (let h = ip_header (of_nat (nat (skb_tail b - nh))) proto src dst in
      b\<lparr>skb_data := nh, skb_len := of_nat (nat (skb_tail b - nh)),
        skb_buf := put_bytes (skb_buf b) (nat nh) (put_bytes h 10 (bytes16 (checksum h)))\<rparr>)"

lemma ip_filled_window:
  assumes "wf_skb b" "0 \<le> nh" "nh + 20 \<le> skb_data b"
  shows "wf_skb (ip_filled proto src dst nh b)"
    "window (ip_filled proto src dst nh b) = ip_datagram proto src dst (segment_of b nh)"
proof -
  let ?n = "nat nh" and ?k = "nat (skb_tail b - nh)"
  have b: "?n + ?k \<le> length (skb_buf b)" "20 \<le> ?k" "?k < 2 ^ 32" "skb_tail b \<le> int (length (skb_buf b))"
    using assms by (auto simp: wf_skb_def)
  have len: "unat (of_nat ?k :: u32) = ?k" using b(3) by (rule unat_of_nat_u32)
  then have "uint (of_nat ?k :: u32) = int ?k" by (metis uint_nat)
  then show "wf_skb (ip_filled proto src dst nh b)"
    using assms b by (auto simp: ip_filled_def wf_skb_def Let_def)
  have seg: "length (segment_of b nh) = ?k - 20" using b by (simp add: segment_of_def)
  let ?h = "ip_header (of_nat ?k) proto src dst"
  let ?h' = "put_bytes ?h 10 (bytes16 (checksum ?h))"
  have "window (ip_filled proto src dst nh b) = get_bytes (put_bytes (skb_buf b) ?n ?h') ?n (20 + (?k - 20))"
    using b(2) len by (simp add: window_def ip_filled_def Let_def)
  also have "\<dots> = ?h' @ segment_of b nh"
    using b by (simp only: get_bytes_append) (simp add: get_bytes_put_bytes get_bytes_put_bytes_other segment_of_def)
  also have "\<dots> = ip_datagram proto src dst (segment_of b nh)"
    using b(2) seg by (simp add: ip_datagram_def Let_def)
  finally show "window (ip_filled proto src dst nh b) = ip_datagram proto src dst (segment_of b nh)" .
qed

section \<open>Appending data\<close>

text \<open>The buffer \<^verbatim>\<open>ip_append_data\<close> puts on the write queue.\<close>

definition append_skb :: "('z skb_store_scheme) \<Rightarrow> u8 list \<Rightarrow> sk_buff" where
  "append_skb s payload = zero_skb\<lparr>nh_raw := Some 14, h_raw := Some 34, skb_data := 42,
     skb_tail := 42 + int (length payload), skb_end := 42 + int (length payload), skb_len := of_nat (length payload),
     skb_buf := put_bytes (fresh_block (os s) (brk s + 1) (of_nat (length payload + 42))) 42 payload\<rparr>"

text \<open>The new buffer before the payload is copied into it.\<close>

definition append_raw :: "('z skb_store_scheme) \<Rightarrow> nat \<Rightarrow> sk_buff" where
  "append_raw s n = zero_skb\<lparr>nh_raw := Some 14, h_raw := Some 34, skb_data := 42,
     skb_tail := 42 + int n, skb_end := 42 + int n, skb_len := of_nat n,
     skb_buf := fresh_block (os s) (brk s + 1) (of_nat (n + 42))\<rparr>"

lemma length_append_raw: "n \<le> 65507 \<Longrightarrow> length (skb_buf (append_raw s n)) = n + 42"
proof -
  assume "n \<le> 65507"
  then have "unat (of_nat (n + 42) :: u32) = n + 42" by (intro unat_of_nat_u32) simp
  then show ?thesis by (simp add: append_raw_def del: of_nat_add)
qed

lemma ip_append_data_prepare:
  assumes rt: "rtables s rt = Some ro" "dst_dev ro = Some d" "devs s d = Some nd" "eth_dev nd"
    and s: "socks s sk = Some x" "mem_ok s" and n: "n \<le> 65507"
  shows "ip_append_data sk gf (of_nat n + 8) 8 rt s =
    bindM (if 0 < n then call_getfrag gf 42 n (brk s) else returnM 0) (\<lambda>_.
    bindM (skb_queue_tail (Write_queue sk) (Skb (brk s))) (\<lambda>_. returnM 0))
      (alloc_state (s\<lparr>socks := (socks s)(sk \<mapsto> x\<lparr>cork_rt := Some rt\<rparr>)\<rparr>) 2 (append_raw s n))"
proof -
  define t where "t = s\<lparr>socks := (socks s)(sk \<mapsto> x\<lparr>cork_rt := Some rt\<rparr>)\<rparr>"
  have u: "uint (28 + of_nat n :: u32) = 28 + int n" "uint (42 + of_nat n :: u32) = 42 + int n"
      "uint (8 + of_nat n :: u32) = 8 + int n" "uint (of_nat n :: u32) = int n"
    using n uint_of_nat_add_u32 [of 28 n] uint_of_nat_add_u32 [of 42 n] uint_of_nat_add_u32 [of 8 n]
      uint_of_nat_add_u32 [of 0 n] by simp_all
  have lt: "\<not> 28 + of_nat n < (20 :: u32)" "\<not> 8 + of_nat n < (8 :: u32)" using u by (simp_all add: word_less_def)
  have sint: "sint (of_nat n :: u32) = int n" using n by (intro sint_of_nat_u32) simp
  have t: "os t = os s" "brk t = brk s" "skbs t = skbs s" "mem_ok t"
    using s by (simp_all add: t_def mem_ok_def)
  let ?b = "(new_skb t (42 + of_nat n))\<lparr>skb_tail := 42 + int n, nh_raw := Some 14, h_raw := Some 34,
    skb_len := of_nat n, skb_data := 42\<rparr>"
  have b: "?b = append_raw s n" using u by (simp add: new_skb_def append_raw_def zero_skb_def t add.commute)
  have upd: "(alloc_state t 2 c)\<lparr>skbs := (skbs s)(brk s \<mapsto> c')\<rparr> = alloc_state t 2 c'" for c c'
    by (simp add: alloc_state_def t)
  show ?thesis
    unfolding b [symmetric] t_def [symmetric] using rt s(1,2)
    by (auto simp add: ip_append_data_def comp_simps t_def [symmetric] eth_dev_def Let_def alloc_skb_apply mem_ok_def upd
      skb_reserve_def skb_put_def skb_pull_def u lt sint t split: sum.split)
qed

lemma ip_append_data_apply:
  assumes rt: "rtables s rt = Some ro" "dst_dev ro = Some d" "devs s d = Some nd" "eth_dev nd"
    and s: "socks s sk = Some x" "mem_ok s" "heap_ok s" "queue_rep s (Write_queue sk) xs"
    and len: "k \<le> length (iov_base iov)" "k \<le> 65507"
  shows "ip_append_data sk (Ip_generic_getfrag iov) (of_nat k + 8) 8 rt s =
    Inr (0, enq_state (alloc_state (s\<lparr>socks := (socks s)(sk \<mapsto> x\<lparr>cork_rt := Some rt\<rparr>)\<rparr>) 2 (append_skb s (take k (iov_base iov))))
      (Write_queue sk) (brk s))"
proof -
  let ?p = "take k (iov_base iov)" and ?t = "s\<lparr>socks := (socks s)(sk \<mapsto> x\<lparr>cork_rt := Some rt\<rparr>)\<rparr>"
  let ?a = "alloc_state ?t 2 (append_skb s ?p)"
  have p: "length ?p = k" using len(1) by simp
  have raw: "append_skb s ?p = (append_raw s k)\<lparr>skb_buf := put_bytes (skb_buf (append_raw s k)) 42 ?p\<rparr>"
    using p by (simp add: append_skb_def append_raw_def)
  have upd: "(alloc_state ?t 2 c)\<lparr>skbs := (skbs s)(brk s \<mapsto> c')\<rparr> = alloc_state ?t 2 c'" for c c'
    by (simp add: alloc_state_def)
  have copy: "call_getfrag (Ip_generic_getfrag iov) 42 k (brk s) (alloc_state ?t 2 (append_raw s k)) = Inr (0, ?a)"
    using len length_append_raw [OF len(2), of s]
    by (simp add: call_getfrag_def ip_generic_getfrag_def copy_from_def comp_simps in_block_def raw upd)
  have zero: "append_raw s 0 = append_skb s []" by (simp add: append_raw_def append_skb_def put_bytes_def)
  have "queue_rep ?t (Write_queue sk) xs" "heap_ok ?t" using s(3,4) by (simp_all add: queue_rep_def heap_ok_def)
  then have q: "skb_queue_tail (Write_queue sk) (Skb (brk s)) ?a = Inr ((), enq_state ?a (Write_queue sk) (brk s))"
    using queue_rep_alloc_state by (intro skb_queue_tail_apply) auto
  show ?thesis
    unfolding ip_append_data_prepare [OF rt s(1,2) len(2)] using q copy
    by (cases "k = 0") (simp_all add: comp_simps zero)
qed

lemma append_skb_simps:
  assumes "length payload \<le> 65507"
  shows "wf_skb (append_skb s payload)" "nh_raw (append_skb s payload) = Some 14" "h_raw (append_skb s payload) = Some 34"
    "skb_data (append_skb s payload) = 42" "skb_tail (append_skb s payload) = 42 + int (length payload)"
    "length (skb_buf (append_skb s payload)) = 42 + length payload"
    "get_bytes (skb_buf (append_skb s payload)) 42 (length payload) = payload"
proof -
  have "unat (42 + of_nat (length payload) :: u32) = 42 + length payload"
    using unat_of_nat_u32 [of "42 + length payload"] assms by simp
  then have blk: "length (fresh_block (os s) (Suc (brk s)) (42 + of_nat (length payload))) = 42 + length payload" by simp
  have "uint (of_nat (length payload) :: u32) = int (length payload)"
    using assms uint_of_nat_add_u32 [of "length payload" 0] by simp
  with blk assms show "wf_skb (append_skb s payload)" "length (skb_buf (append_skb s payload)) = 42 + length payload"
      "get_bytes (skb_buf (append_skb s payload)) 42 (length payload) = payload"
    by (simp_all add: append_skb_def wf_skb_def zero_skb_def add.commute get_bytes_put_bytes)
qed (simp_all add: append_skb_def)

text \<open>The state after \<^verbatim>\<open>ip_append_data\<close> has put buffer \<open>c\<close> on the write queue.\<close>

definition append_state :: "nat \<Rightarrow> udp_sock \<Rightarrow> nat \<Rightarrow> sk_buff \<Rightarrow> ('z sock_store_scheme) \<Rightarrow> ('z sock_store_scheme)" where
  "append_state sk x rt c s =
     enq_state (alloc_state (s\<lparr>socks := (socks s)(sk \<mapsto> x\<lparr>cork_rt := Some rt\<rparr>)\<rparr>) 2 c) (Write_queue sk) (brk s)"

lemma append_state_simps [simp]:
  "socks (append_state sk x rt c s) = (socks s)(sk \<mapsto> x\<lparr>cork_rt := Some rt\<rparr>)"
  "skbs (append_state sk x rt c s) = (skbs s)(brk s \<mapsto> c)"
  "rtables (append_state sk x rt c s) = rtables s" "neighs (append_state sk x rt c s) = neighs s"
  "devs (append_state sk x rt c s) = devs s" "tap_out (append_state sk x rt c s) = tap_out s"
  "os (append_state sk x rt c s) = os s" "brk (append_state sk x rt c s) = brk s + 2"
  "dev_base (append_state sk x rt c s) = dev_base s"
  by (simp_all add: append_state_def)

lemma append_state_frame:
  assumes "queue_rep s (Write_queue sk) xs" "heap_ok s"
  shows "mem_frame {Write_queue sk} {brk s} s (append_state sk x rt c s)"
proof -
  let ?s = "s\<lparr>socks := (socks s)(sk \<mapsto> x\<lparr>cork_rt := Some rt\<rparr>)\<rparr>"
  let ?a = "alloc_state ?s 2 c"
  have s: "heap_ok ?s" "queue_rep ?s (Write_queue sk) xs" using assms by (simp_all add: heap_ok_def queue_rep_def)
  have "mem_frame {Write_queue sk} {brk s} s ?s" by (rule mem_frame_same) simp_all
  moreover have "mem_frame {Write_queue sk} {brk s} ?s ?a" using s(1) by (rule mem_frame_alloc) simp
  moreover have "mem_frame {Write_queue sk} {brk s} ?a (append_state sk x rt c s)"
    unfolding append_state_def using mem_frame_enq [OF queue_rep_alloc_state [OF s(2,1)]] by simp
  ultimately show ?thesis by (blast intro: mem_frame_trans)
qed

text \<open>The part of the socket layer that sending leaves alone.\<close>

definition same_upper :: "'z sock_store_scheme \<Rightarrow> 'z sock_store_scheme \<Rightarrow> bool" where
  "same_upper s t \<longleftrightarrow> ip_fib_local_table t = ip_fib_local_table s \<and> ip_fib_main_table t = ip_fib_main_table s \<and>
     sockets t = sockets s \<and> net_families t = net_families s \<and> socket_maps t = socket_maps s \<and>
     udptable t = udptable s \<and> icmp_socket t = icmp_socket s \<and> inet_protos t = inet_protos s"

lemma more_same_upper: "neigh_store.more t = neigh_store.more s \<Longrightarrow> same_upper s t \<and> socks t = socks s"
  by (cases s; cases t) (simp add: same_upper_def)

lemma append_state_upper [simp]: "same_upper s (append_state sk x rt c s)" "ptype_base (append_state sk x rt c s) = ptype_base s"
  "ntables (append_state sk x rt c s) = ntables s"
  by (simp_all add: same_upper_def append_state_def enq_state_def alloc_state_def)

lemma append_state_ready:
  assumes s: "queue_rep s (Write_queue sk) []" "heap_ok s" "resolver_rep s n d nd before r"
  shows "queue_rep (append_state sk x rt c s) (Write_queue sk) [brk s]"
    "resolver_rep (append_state sk x rt c s) n d nd before r" "heap_ok (append_state sk x rt c s)"
proof -
  let ?a = "alloc_state (s\<lparr>socks := (socks s)(sk \<mapsto> x\<lparr>cork_rt := Some rt\<rparr>)\<rparr>) 2 c"
  let ?t = "append_state sk x rt c s"
  have qa: "queue_rep ?a q xs" if "queue_rep s q xs" for q xs
    using that s(2) by (intro queue_rep_alloc_state) (simp_all add: queue_rep_def heap_ok_def)
  show "queue_rep ?t (Write_queue sk) [brk s]"
    using enq_state_rep [OF qa [OF s(1)], of "brk s"] by (simp add: append_state_def)
  show "resolver_rep ?t n d nd before r"
  proof (rule resolver_rep_frame [OF s(3)])
    fix xs assume xs: "queue_rep s (Arp_queue n) xs"
    have fresh: "brk s \<notin> set xs" using xs s(2) by (fastforce simp: queue_rep_def heap_ok_def)
    show "queue_rep ?t (Arp_queue n) xs"
      unfolding append_state_def using fresh by (intro enq_state_frame [OF qa [OF s(1)] qa [OF xs]]) simp_all
    show "skbs ?t j = skbs s j" if "j \<in> set xs" for j using that fresh by auto
  qed simp_all
  show "heap_ok ?t" using heap_ok_alloc_state [of s 2] s(2) by (simp add: append_state_def heap_ok_def)
qed

lemma resolver_rep_socks: "resolver_rep s n d nd before r \<Longrightarrow> resolver_rep (s\<lparr>socks := f\<rparr>) n d nd before r"
  by (rule resolver_rep_frame) (simp_all add: queue_rep_def)

text \<open>What sending a packet of sock \<open>sk\<close> through neighbour \<open>n\<close> leaves alone.\<close>

definition send_frame :: "nat \<Rightarrow> udp_sock \<Rightarrow> nat \<Rightarrow> 'z sock_store_scheme \<Rightarrow> 'z sock_store_scheme \<Rightarrow> bool" where
  "send_frame sk x n s t \<longleftrightarrow> mem_frame {Arp_queue n, Write_queue sk} {} s t \<and> devs t = devs s \<and> dev_base t = dev_base s \<and> ptype_base t = ptype_base s \<and>
     rtables t = rtables s \<and> ntables t = ntables s \<and> (\<forall>m. m \<noteq> n \<longrightarrow> neighs t m = neighs s m) \<and>
     queue_rep t (Write_queue sk) [] \<and> same_upper s t \<and>
     (\<exists>y. socks t = (socks s)(sk \<mapsto> y) \<and> sk_prot y = sk_prot x \<and> sk_protocol y = sk_protocol x)"

lemma append_state_eta:
  "(append_state sk x rt c s)\<lparr>socks := (socks s)(sk \<mapsto> x\<lparr>cork_rt := Some rt\<rparr>)\<rparr> = append_state sk x rt c s"
  by (simp add: append_state_def enq_state_def alloc_state_def)

lemma send_frameI:
  assumes s: "queue_rep s (Write_queue sk) []" "heap_ok s"
    and t: "output_frame {Write_queue sk} n {brk s} ((append_state sk y rt c s)\<lparr>socks := (socks s)(sk \<mapsto> z)\<rparr>) t"
      "queue_rep t (Write_queue sk) []" "sk_prot z = sk_prot x" "sk_protocol z = sk_protocol x"
  shows "send_frame sk x n s t"
proof -
  let ?Q = "{Arp_queue n, Write_queue sk}" and ?a = "append_state sk y rt c s"
  let ?b = "?a\<lparr>socks := (socks s)(sk \<mapsto> z)\<rparr>"
  have "mem_frame ?Q {brk s} s ?a" by (rule mem_frame_mono [OF append_state_frame [OF s]]) auto
  moreover have "mem_frame ?Q {brk s} ?a ?b" by (rule mem_frame_same) simp_all
  moreover have "mem_frame ?Q {brk s} ?b t" using t(1) by (simp add: output_frame_def)
  ultimately have "mem_frame ?Q {brk s} s t" by (blast intro: mem_frame_trans)
  then have "mem_frame ?Q {} s t" using heap_ok_fresh [OF s(2)] by (rule mem_frame_fresh)
  moreover have "same_upper s t \<and> socks t = (socks s)(sk \<mapsto> z)"
    using more_same_upper [of t ?b] append_state_upper(1) [of s sk y rt c] t(1) by (simp add: output_frame_def same_upper_def)
  ultimately show ?thesis using t by (auto simp: send_frame_def output_frame_def)
qed

lemma send_frame_socks:
  assumes "send_frame sk y n (s\<lparr>socks := (socks s)(sk \<mapsto> y)\<rparr>) t" "sk_prot y = sk_prot x" "sk_protocol y = sk_protocol x"
  shows "send_frame sk x n s t"
proof -
  let ?s = "s\<lparr>socks := (socks s)(sk \<mapsto> y)\<rparr>"
  have "mem_frame {Arp_queue n, Write_queue sk} {} s ?s" by (rule mem_frame_same) simp_all
  with assms show ?thesis by (auto simp: send_frame_def same_upper_def intro: mem_frame_trans)
qed

section \<open>Routes and their peers\<close>

text \<open>
  The state of address resolution for the address \<open>ip\<close> on device \<open>d\<close>, whether or not the cache
  has a neighbour for it yet, the neighbour a route to \<open>ip\<close> is bound to, and the state after a
  successful lookup of an output route.
\<close>

definition peer_rep :: "'z neigh_store_scheme \<Rightarrow> u32 \<Rightarrow> nat \<Rightarrow> net_device \<Rightarrow> u8 list list \<Rightarrow> resolver \<Rightarrow> bool" where
  "peer_rep s ip d nd before r \<longleftrightarrow> (case neigh_find s (bytes32 ip, d) of
       Some n \<Rightarrow> resolver_rep s n d nd before r
     | None \<Rightarrow> devs s d = Some nd \<and> eth_dev nd \<and> before = tap_out s \<and> r = empty_resolver)"

definition peer :: "'z neigh_store_scheme \<Rightarrow> u32 \<Rightarrow> nat \<Rightarrow> nat" where
  "peer s ip d = bound_neigh (bytes32 ip) d (s\<lparr>brk := brk s + 1\<rparr>)"

definition routed_state :: "flowi \<Rightarrow> fib_info \<Rightarrow> u8 \<Rightarrow> nat \<Rightarrow> net_device \<Rightarrow> ('z neigh_store_scheme) \<Rightarrow> ('z neigh_store_scheme)" where
  "routed_state fl fi type d nd s = (bind_state (bytes32 (fl4_dst fl)) d (s\<lparr>brk := brk s + 1\<rparr>))\<lparr>rtables := (rtables s)(brk s \<mapsto>
      out_rt (os s) (brk s) (out_flow fl fi nd) type d (Some (peer s (fl4_dst fl) d)))\<rparr>"

lemma routed_state_simps [simp]:
  "os (routed_state fl fi type d nd s) = os s" "skbs (routed_state fl fi type d nd s) = skbs s"
  "devs (routed_state fl fi type d nd s) = devs s" "tap_out (routed_state fl fi type d nd s) = tap_out s"
  "rtables (routed_state fl fi type d nd s) (brk s) = Some (out_rt (os s) (brk s) (out_flow fl fi nd) type d (Some (peer s (fl4_dst fl) d)))"
  "dev_base (routed_state fl fi type d nd s) = dev_base s"
  by (simp_all add: routed_state_def bind_state_def split: option.split)

lemma routed_state_socks [simp]:
  "socks (routed_state fl fi type d nd s) = socks s" "sockets (routed_state fl fi type d nd s) = sockets s"
  "icmp_socket (routed_state fl fi type d nd s) = icmp_socket s"
  "inet_protos (routed_state fl fi type d nd s) = inet_protos s"
  by (simp_all add: routed_state_def bind_state_def create_state_def split: option.split)

lemma routed_state_mem: "mem_ok s \<Longrightarrow> mem_ok (routed_state fl fi type d nd s)"
  "heap_ok s \<Longrightarrow> heap_ok (routed_state fl fi type d nd s)"
  by (auto simp: mem_ok_def heap_ok_def routed_state_def bind_state_def less_Suc_eq split: option.split)

lemma routed_state_rep:
  assumes "peer_rep s (fl4_dst fl) d nd before r" "neigh_inv s" "rtables s (brk s) = None"
  shows "resolver_rep (routed_state fl fi type d nd s) (peer s (fl4_dst fl) d) d nd before r"
proof (cases "neigh_find s (bytes32 (fl4_dst fl), d)")
  case None
  then have s: "devs s d = Some nd" "eth_dev nd" "before = tap_out s" "r = empty_resolver"
    "peer s (fl4_dst fl) d = brk s + 1"
    using assms(1) by (simp_all add: peer_rep_def peer_def bound_neigh_def)
  then show ?thesis unfolding resolver_rep_def
   by (intro exI [of _ "new_neigh (bytes32 (fl4_dst fl)) d"] exI [of _ "[]"])
      (simp add: routed_state_def bind_state_def None create_state_def new_neigh_def arp_neigh_def queue_rep_def empty_resolver_def phase_of_def)
next
  case (Some n)
  then have n: "resolver_rep s n d nd before r" "peer s (fl4_dst fl) d = n"
    using assms(1) by (simp_all add: peer_rep_def peer_def bound_neigh_def)
  show ?thesis unfolding n(2)
    by (rule resolver_rep_frame [OF n(1)])
      (use assms(3) in \<open>auto simp: routed_state_def bind_state_def Some map_le_def queue_rep_def\<close>)
qed

lemma routed_state_queue:
  assumes "queue_rep s q xs" "\<And>n. q \<noteq> Arp_queue n"
  shows "queue_rep (routed_state fl fi type d nd s) q xs"
  by (rule queue_rep_frame [OF assms(1)])
    (use assms in \<open>auto simp: queue_rep_def routed_state_def bind_state_def create_state_def split: option.split\<close>)

lemma ip_route_output_routed:
  assumes "fib_rep s lcl mn" "fib_route lcl mn (fl4_dst fl) = Some (l, fa)"
      "fa_info fa = Some fi" "nh_dev (fib_nh0 fi) = Some d"
      "devs s d = Some nd" "ip_ptr nd \<noteq> None" "mem_ok s" "malloc_ptr (os s) (brk s) = None"
      "neigh_inv s" "fl_iif fl = 0"
  shows "ip_route_output_flow fl s = Inr (Some (brk s), routed_state fl fi (fa_type fa) d nd s)"
  using ip_route_output_apply [OF assms] by (simp add: routed_state_def peer_def)

section \<open>From the write queue to the neighbour\<close>

lemma dst_output_apply:
  assumes "skbs s i = Some b" "skb_dst b = Some rt" "rtables s rt = Some ro" "out_route ro n d"
  shows "dst_output i s = bindM (call_neigh_output n i) (\<lambda>_. returnM 0)
    (s\<lparr>skbs := (skbs s)(i \<mapsto> b\<lparr>skb_dev := Some d, skb_protocol := htons ETH_P_IP\<rparr>)\<rparr>)"
  using assms by (simp add: dst_output_def ip_output_def ip_finish_output_def ip_finish_output2_def out_route_def
      bindM_apply get_skb_Some nonnull_Some get_rt_apply upd_skb_apply)

definition ip_sent :: "u8 \<Rightarrow> u32 \<Rightarrow> u32 \<Rightarrow> int \<Rightarrow> nat \<Rightarrow> nat \<Rightarrow> sk_buff \<Rightarrow> sk_buff" where
  "ip_sent proto src dst nh rt d b = (ip_filled proto src dst nh b)\<lparr>skb_dst := Some rt, skb_dev := Some d,
     skb_protocol := htons ETH_P_IP\<rparr>"

lemma ip_push_pending_frames_apply:
  assumes sk: "socks s sk = Some x" "cork_rt x = Some rt" "rtables s rt = Some ro" "out_route ro n d"
    and q: "queue_rep s (Write_queue sk) (i # is)"
    and b: "skbs s i = Some b" "wf_skb b" "nh_raw b = Some nh" "0 \<le> nh" "nh + 20 \<le> skb_data b"
  shows "ip_push_pending_frames sk s = bindM (call_neigh_output n i) (\<lambda>_. returnM 0)
    ((deq_state s (Write_queue sk) i)\<lparr>skbs := (skbs s)(i \<mapsto>
       ip_sent (sk_protocol x) (rt_src ro) (rt_dst ro) nh rt d b)\<rparr>)"
proof -
  let ?s = "deq_state s (Write_queue sk) i"
  let ?k = "nat (skb_tail b - nh)"
  have head: "skb_head b = 0" "skb_tail b \<le> int (length (skb_buf b))" "skb_data b \<le> skb_tail b" "skb_tail b < 2 ^ 32"
    using b(2) by (auto simp: wf_skb_def)
  note push = skb_push_to [OF b(2,4)]
  have k: "ucast (of_nat ?k :: u32) = (of_nat ?k :: u16)" by (rule ucast_of_nat_u16)
  let ?h = "ip_header (of_nat ?k) (sk_protocol x) (rt_src ro) (rt_dst ro)"
  let ?b = "b\<lparr>skb_data := nh, skb_len := of_nat ?k, skb_buf := put_bytes (skb_buf b) (nat nh) ?h\<rparr>"
  have cs: "checksum_at i nh 20 t = Inr (checksum ?h, t)" if "skbs t i = Some ?b" for t :: "'a sock_store_scheme"
    using that b head by (simp add: checksum_at_def comp_simps load_defs in_block_def get_bytes_put_bytes)
  have buf: "put_bytes (put_bytes (skb_buf b) (nat nh) ?h) (nat (nh + 10)) (bytes16 (checksum ?h)) =
      put_bytes (skb_buf b) (nat nh) (put_bytes ?h 10 (bytes16 (checksum ?h)))"
    using b head by (intro nth_equalityI) (auto simp: nth_put_bytes nat_add_distrib)
  have data: "nh < skb_data b" "nh \<le> skb_data b" "nh + 20 \<le> int (length (skb_buf b))" using b(5) head by simp_all
  show ?thesis
    using sk b(1,3,4) head data
    by (simp add: ip_push_pending_frames_def comp_simps dequeue_skb_apply [OF q] push k cs in_block_def Let_def buf ip_sent_def ip_filled_def
      dst_output_apply [where rt = rt and ro = ro and n = n and d = d] del: of_int_diff of_nat_nat
      split: sum.split)
qed

lemma ip_sent_simps:
  assumes "wf_skb b" "0 \<le> nh" "nh + 20 \<le> skb_data b"
  shows "wf_skb (ip_sent proto src dst nh rt d b)"
    "packet_of (ip_sent proto src dst nh rt d b) = (ETH_P_IP, ip_datagram proto src dst (segment_of b nh))"
    "nh_raw (ip_sent proto src dst nh rt d b) = nh_raw b" "skb_dst (ip_sent proto src dst nh rt d b) = Some rt"
    "skb_dev (ip_sent proto src dst nh rt d b) = Some d" "skb_data (ip_sent proto src dst nh rt d b) = nh"
    "skb_len (ip_sent proto src dst nh rt d b) = of_nat (nat (skb_tail b - nh))"
    "skb_buf (ip_sent proto src dst nh rt d b) = skb_buf (ip_filled proto src dst nh b)"
  using ip_filled_window [OF assms]
  by (simp_all add: ip_sent_def packet_of_def) (simp_all add: ip_filled_def Let_def)

lemma ip_sent_src:
  assumes "wf_skb b" "nh_raw b = Some nh" "0 \<le> nh" "nh + 20 \<le> skb_data b"
  shows "ip_src (ip_sent proto src dst nh rt d b) = src"
proof -
  let ?b = "ip_sent proto src dst nh rt d b"
  note b = ip_sent_simps [OF assms(1,3,4), of proto src dst rt d]
  have tail: "20 \<le> skb_tail b - nh" "skb_tail b - nh < 2 ^ 32" using assms by (auto simp: wf_skb_def)
  then have "16 \<le> unat (skb_len ?b)" unfolding b(7) by (subst unat_of_nat_u32) auto
  then have "ip_src ?b = ld32 (window ?b) 12"
    using load_window(2) [OF b(1), of 12] assms(2) by (simp add: ip_src_def b)
  also have "\<dots> = src" using b(2) by (simp add: packet_of_def ip_datagram_nth)
  finally show ?thesis .
qed

lemma ip_push_pending_frames_step:
  assumes sk: "socks s sk = Some x" "cork_rt x = Some rt" "rtables s rt = Some ro" "out_route ro n d"
    and q: "queue_rep s (Write_queue sk) (i # is)"
    and b: "skbs s i = Some b" "wf_skb b" "nh_raw b = Some nh" "14 \<le> nh" "nh + 20 \<le> skb_data b"
    and rep: "resolver_rep s n d nd before r" and h: "heap_ok s" "mem_ok s"
  shows "wp (ip_push_pending_frames sk) (\<lambda>rc t. rc = 0 \<and>
    output_frame {Write_queue sk} n {i} s t \<and> queue_rep t (Write_queue sk) is \<and>
    (\<exists>r'. rstep r (Send (rt_src ro) (ETH_P_IP, ip_datagram (sk_protocol x) (rt_src ro) (rt_dst ro) (segment_of b nh))) r' \<and>
       resolver_rep t n d nd before r')) s"
proof -
  let ?b = "ip_sent (sk_protocol x) (rt_src ro) (rt_dst ro) nh rt d b"
  let ?t = "(deq_state s (Write_queue sk) i)\<lparr>skbs := (skbs s)(i \<mapsto> ?b)\<rparr>"
  have nh: "0 \<le> nh" using b(4) by simp
  note b' = ip_sent_simps [OF b(2) nh b(5), of "sk_protocol x" "rt_src ro" "rt_dst ro" rt d]
  have new: "i \<notin> set xs" if "queue_rep s (Arp_queue n) xs" for xs
    using queue_rep_disjoint [OF q that] by auto
  have rep': "resolver_rep ?t n d nd before r"
  proof (rule resolver_rep_frame [OF rep])
    show "queue_rep ?t (Arp_queue n) xs" if "queue_rep s (Arp_queue n) xs" for xs
      using queue_rep_skb_upd [OF deq_state_frame [OF q that]] by simp
  qed (use new in auto)
  from rep obtain y where y: "neighs s n = Some y" "arp_neigh y" "neigh_dev y = Some d" "devs s d = Some nd" "eth_dev nd"
    by (auto simp: resolver_rep_def)
  have out: "out_ready ?t i ?b n y d nd"
    using y sk b(4) b' by (auto simp: out_ready_def out_route_def)
  have blk: "in_block ?b (nh + 12) 4"
    using b nh by (auto simp: in_block_def b' ip_filled_def Let_def wf_skb_def)
  have new': "i \<notin> set xs" if "queue_rep ?t (Arp_queue n) xs" for xs
  proof -
    obtain ys where ys: "queue_rep s (Arp_queue n) ys" using rep by (auto simp: resolver_rep_def)
    then have "queue_rep ?t (Arp_queue n) ys" using queue_rep_skb_upd [OF deq_state_frame [OF q ys]] by simp
    with that have "xs = ys" by (rule queue_rep_unique)
    with new [OF ys] show ?thesis by simp
  qed
  have heap: "heap_ok ?t" "mem_ok ?t" using h b(1) by (auto simp: heap_ok_def mem_ok_def)
  have fr: "output_frame {Write_queue sk} n {i} s t" "queue_rep t (Write_queue sk) is" if "output_frame {} n {i} ?t t" for t
  proof -
    let ?Q = "{Arp_queue n, Write_queue sk}"
    have "mem_frame ?Q {i} (deq_state s (Write_queue sk) i) ?t" using b(1) by (intro mem_frame_skb) simp_all
    moreover have "mem_frame ?Q {i} s (deq_state s (Write_queue sk) i)" "mem_frame ?Q {i} ?t t"
      using mem_frame_mono [OF mem_frame_deq [OF q], of ?Q "{i}"] mem_frame_mono [of "{Arp_queue n}" "{i}" ?t t ?Q "{i}"] that
      by (simp_all add: output_frame_def)
    ultimately have "mem_frame ?Q {i} s t" by (blast intro: mem_frame_trans)
    then show "output_frame {Write_queue sk} n {i} s t" using that by (simp add: output_frame_def)
    have "queue_rep ?t (Write_queue sk) is" using queue_rep_skb_upd [OF deq_state_rep [OF q]] by simp
    moreover have "i \<notin> set is" using q by (simp add: queue_rep_def)
    ultimately show "queue_rep t (Write_queue sk) is" using that by (simp add: output_frame_def mem_frame_def)
  qed
  have "wp (call_neigh_output n i) (\<lambda>rc t. output_frame {} n {i} ?t t \<and> (\<exists>r'. rstep r (Send (rt_src ro) (packet_of ?b)) r' \<and>
      resolver_rep t n d nd before r')) ?t"
    using neigh_output_step [OF rep' heap out _ blk new'] b(3) ip_sent_src [OF b(2,3) nh b(5)] by (simp add: b'(3))
  then show ?thesis
    unfolding wp_def ip_push_pending_frames_apply [OF sk q b(1-3) nh b(5)] b'(2)
    by (auto simp: bindM_def comp_simps fr split: sum.splits)
qed

lemma push_appended:
  assumes sk: "socks s sk = Some x" "queue_rep s (Write_queue sk) []" and h: "heap_ok s" "mem_ok s"
    and rt: "rtables s rt = Some ro" "out_route ro n d" "resolver_rep s n d nd before r"
    and c: "wf_skb c" "nh_raw c = Some 14" "34 \<le> skb_data c"
  shows "wp (ip_push_pending_frames sk) (\<lambda>rc t. rc = 0 \<and> send_frame sk x n s t \<and>
    (\<exists>r'. rstep r (Send (rt_src ro) (ETH_P_IP, ip_datagram (sk_protocol x) (rt_src ro) (rt_dst ro) (segment_of c 14))) r' \<and>
       resolver_rep t n d nd before r')) (append_state sk x rt c s)"
proof -
  let ?x = "x\<lparr>cork_rt := Some rt\<rparr>" and ?a = "append_state sk x rt c s"
  note a = append_state_ready [OF sk(2) h(1) rt(3), of x rt c]
  have "wp (ip_push_pending_frames sk) (\<lambda>rc t. rc = 0 \<and>
    output_frame {Write_queue sk} n {brk s} ?a t \<and> queue_rep t (Write_queue sk) [] \<and>
    (\<exists>r'. rstep r (Send (rt_src ro) (ETH_P_IP, ip_datagram (sk_protocol ?x) (rt_src ro) (rt_dst ro) (segment_of c 14))) r' \<and>
       resolver_rep t n d nd before r')) ?a"
    by (rule ip_push_pending_frames_step [where rt = rt, OF _ _ _ rt(2) a(1) _ c(1,2) _ _ a(2,3)]) (use rt h c in \<open>simp_all add: mem_ok_def\<close>)
  then show ?thesis
  proof (rule wp_mono, elim conjE)
    fix rc t assume t: "rc = (0::int)" "output_frame {Write_queue sk} n {brk s} ?a t" "queue_rep t (Write_queue sk) []"
      "\<exists>r'. rstep r (Send (rt_src ro) (ETH_P_IP, ip_datagram (sk_protocol ?x) (rt_src ro) (rt_dst ro) (segment_of c 14))) r' \<and>
       resolver_rep t n d nd before r'"
    have "output_frame {Write_queue sk} n {brk s} (?a\<lparr>socks := (socks s)(sk \<mapsto> ?x)\<rparr>) t"
      using t(2) by (simp only: append_state_eta)
    then have "send_frame sk x n s t" by (rule send_frameI [OF sk(2) h(1) _ t(3)]) simp_all
    with t show "rc = 0 \<and> send_frame sk x n s t \<and>
      (\<exists>r'. rstep r (Send (rt_src ro) (ETH_P_IP, ip_datagram (sk_protocol x) (rt_src ro) (rt_dst ro) (segment_of c 14))) r' \<and>
       resolver_rep t n d nd before r')" by simp
  qed
qed

text \<open>
  C14: \<^verbatim>\<open>ip_push_pending_frames\<close> takes the first buffer of the socket's write queue, puts a complete
  IP header with a valid checksum in front of its transport segment and hands the datagram to
  the route's neighbour. The whole path returns 0 without a fault and is one step \<open>Send\<close> of
  address resolution, whatever state the neighbour is in.
\<close>

theorem ip_push_pending_frames_sends:
  assumes sk: "socks s sk = Some x" "cork_rt x = Some rt" "rtables s rt = Some ro" "out_route ro n d"
    and q: "queue_rep s (Write_queue sk) (i # is)"
    and b: "skbs s i = Some b" "wf_skb b" "nh_raw b = Some nh" "14 \<le> nh" "nh + 20 \<le> skb_data b"
    and rep: "resolver_rep s n d nd before r" and h: "heap_ok s" "mem_ok s"
  shows "wp (ip_push_pending_frames sk) (\<lambda>rc t. rc = 0 \<and>
    (\<exists>r'. rstep r (Send (rt_src ro) (ETH_P_IP, ip_datagram (sk_protocol x) (rt_src ro) (rt_dst ro) (segment_of b nh))) r' \<and>
       resolver_rep t n d nd before r')) s"
  by (rule wp_mono [OF ip_push_pending_frames_step [OF assms]]) auto

text \<open>A sock with a segment on its write queue and a route through an unresolved neighbour.\<close>

definition example_ip_skb :: sk_buff where
  "example_ip_skb = zero_skb\<lparr>nh_raw := Some 0, skb_data := 0, skb_tail := 21, skb_end := 21, skb_len := 21,
     skb_buf := ip_datagram 17 0x0100000a 0x0200000a [7]\<rparr>"

definition example_write_skb :: sk_buff where
  "example_write_skb = zero_skb\<lparr>nh_raw := Some 14, h_raw := Some 34, skb_data := 34, skb_tail := 36, skb_end := 36,
     skb_len := 2, skb_buf := replicate 36 0\<rparr>"

definition example_send :: sock_store where
  "example_send = \<lparr>os = example_env, brk = 8, skbs = [0 \<mapsto> example_write_skb, 1 \<mapsto> example_ip_skb],
     nxt = (\<lambda>_. None)(Arp_queue 3 := Some (Arp_queue 3), Write_queue 5 := Some (Skb 0), Skb 0 := Some (Write_queue 5)),
     prv = (\<lambda>_. None)(Arp_queue 3 := Some (Arp_queue 3), Write_queue 5 := Some (Skb 0), Skb 0 := Some (Write_queue 5)),
     qlen = (\<lambda>_. 0), devs = [1 \<mapsto> example_dev], in_devs = Map.empty, dev_base = Some 1,
     last_ifindex = 1, ptype_base = [], tap_out = [], rtables = [2 \<mapsto> example_route],
     neighs = [3 \<mapsto> new_neigh (bytes32 0x0100000a) 1],
     ntables = (\<lambda>_. arp_tbl\<lparr>buckets := [3]\<rparr>), neigh_tables = [],
     ip_fib_local_table = None, ip_fib_main_table = None,
     socks = [5 \<mapsto> (zero_sock Udp_prot)\<lparr>cork_rt := Some 2, sk_protocol := 17\<rparr>],
     sockets = Map.empty, net_families = (\<lambda>_. None),
     socket_maps = (\<lambda>_. \<lparr>map_sk = None, map_used = False\<rparr>),
     udptable = (\<lambda>_. \<lparr>map_sk = None, map_used = False\<rparr>), icmp_socket = None, inet_protos = []\<rparr>"

lemma example_send_rep: "resolver_rep example_send 3 1 example_dev [] empty_resolver"
  unfolding resolver_rep_def
  by (intro exI [of _ "new_neigh (bytes32 0x0100000a) 1"] exI [of _ "[]"])
    (simp add: example_send_def new_neigh_def arp_neigh_def example_dev_def ether_setup_def zero_dev_def eth_dev_def
      queue_rep_def empty_resolver_def phase_of_def)

theorem ip_push_pending_frames_sends_witness:
  "wp (ip_push_pending_frames 5) (\<lambda>rc t. rc = 0 \<and>
    (\<exists>r'. rstep empty_resolver (Send 0x0200000a (ETH_P_IP, ip_datagram 17 0x0200000a 0x0100000a [0, 0])) r' \<and>
       resolver_rep t 3 1 example_dev [] r')) example_send"
proof -
  have s: "socks example_send 5 = Some ((zero_sock Udp_prot)\<lparr>cork_rt := Some 2, sk_protocol := 17\<rparr>)"
      "cork_rt ((zero_sock Udp_prot)\<lparr>cork_rt := Some 2, sk_protocol := 17\<rparr>) = Some 2"
      "rtables example_send 2 = Some example_route" "out_route example_route 3 1"
      "queue_rep example_send (Write_queue 5) [0]" "skbs example_send 0 = Some example_write_skb"
    by (simp_all add: example_send_def zero_sock_def out_route_def example_route_def queue_rep_def)
  have b: "wf_skb example_write_skb" "nh_raw example_write_skb = Some 14" "(14::int) \<le> 14" "14 + 20 \<le> skb_data example_write_skb"
    by (simp_all add: example_write_skb_def wf_skb_def zero_skb_def)
  have seg: "segment_of example_write_skb 14 = [0, 0]"
    by (simp add: example_write_skb_def zero_skb_def segment_of_def get_bytes_def) (simp add: numeral_2_eq_2)
  have h: "heap_ok example_send" "mem_ok example_send"
    by (simp_all add: heap_ok_def mem_ok_def example_send_def example_env_def)
  show ?thesis
    using ip_push_pending_frames_sends [OF s(1-6) b(1-4) example_send_rep h] seg
    by (simp add: example_route_def zero_sock_def)
qed

end
