(* ===== verification/Icmp.thy ===== *)
theory Icmp
  imports Ip_Output
begin

text \<open>
  ICMP (\<^verbatim>\<open>ipv4/icmp.c\<close>): the dispatch on the message type and the echo server.
\<close>

abbreviation (input) "ICMP_ECHOREPLY \<equiv> (0 :: u8)"
abbreviation (input) "ICMP_ECHO \<equiv> (8 :: u8)"
abbreviation (input) "NR_ICMP_TYPES \<equiv> (18 :: u8)"

datatype icmp_fn = Icmp_echo

definition icmp_push_reply :: "icmp_bxm \<Rightarrow> nat \<Rightarrow> ('z sock_store_scheme, unit) comp" where
  "icmp_push_reply icmp_param rt =
     bindM (getsM icmp_socket) (\<lambda>p.
     bindM (nonnull p) (\<lambda>so.
     bindM (get_socket so) (\<lambda>x.
     bindM (nonnull (socket_sk x)) (\<lambda>sk.
     bindM (ip_append_data sk (Icmp_glue_bits icmp_param)
       (word_of_int (bxm_data_len icmp_param + bxm_head_len icmp_param))
       (word_of_int (bxm_head_len icmp_param)) rt) (\<lambda>err.
     if err < 0 then returnM ()
     else
       bindM (skb_peek (Write_queue sk)) (\<lambda>skb.
       if skb \<noteq> None then bindM (ip_push_pending_frames sk) (\<lambda>_. returnM ())
       else returnM ()))))))"

definition icmp_reply :: "icmp_bxm \<Rightarrow> nat \<Rightarrow> ('z sock_store_scheme, unit) comp" where
  "icmp_reply icmp_param skb =
     bindM (get_skb skb) (\<lambda>b.
     bindM (nonnull (skb_dst b)) (\<lambda>dst.
     let icmp_param = icmp_param\<lparr>bxm_icmph := put_bytes (bxm_icmph icmp_param) 2 (bytes16 0)\<rparr> in
     bindM (get_rt dst) (\<lambda>rt.
     let daddr = rt_src rt; saddr = rt_dst rt;
         fl = zero_flowi\<lparr>fl4_dst := daddr, fl4_src := saddr, fl_proto := IPPROTO_ICMP\<rparr> in
     bindM (ip_route_output_key fl) (\<lambda>r. case r of
         None \<Rightarrow> returnM ()
       | Some rt \<Rightarrow> icmp_push_reply icmp_param rt))))"

definition icmp_echo :: "nat \<Rightarrow> ('z sock_store_scheme, unit) comp" where
  "icmp_echo skb =
     bindM (get_skb skb) (\<lambda>b.
     bindM (nonnull (h_raw b)) (\<lambda>icmph.
     bindM (load_bytes skb icmph sizeof_icmphdr) (\<lambda>hd.
     icmp_reply \<lparr>bxm_skb = skb, bxm_offset = 0, bxm_data_len = sint (skb_len b),
       bxm_icmph = hd[0 := ICMP_ECHOREPLY], bxm_head_len = sizeof_icmphdr\<rparr> skb)))"

text \<open>The control array has 19 entries; only the one for echo requests has a handler.\<close>

definition icmp_pointers :: "u8 \<Rightarrow> icmp_fn option" where
  "icmp_pointers type = (if type = ICMP_ECHO then Some Icmp_echo else None)"

definition icmp_rcv :: "nat \<Rightarrow> ('z sock_store_scheme, int) comp" where
  "icmp_rcv skb =
     bindM (on_skb skb (skb_pull sizeof_icmphdr)) (\<lambda>p.
     if p = None then returnM (-1)
     else
       bindM (get_skb skb) (\<lambda>b.
       bindM (nonnull (h_raw b)) (\<lambda>icmph.
       bindM (load8 skb icmph) (\<lambda>type.
       bindM (if type > NR_ICMP_TYPES then returnM ()
         else bindM (nonnull (icmp_pointers type)) (\<lambda>f. case f of Icmp_echo \<Rightarrow> icmp_echo skb)) (\<lambda>_.
       bindM (kfree_skb skb) (\<lambda>_.
       returnM 0))))))"

section \<open>The echo reply\<close>

text \<open>
  The ICMP message that is sent back for a header \<open>hdr\<close> and a payload. The checksum is computed while
  the length of the buffer does not include the header, so it covers only as many bytes, counted
  from the start of the header, as the payload has.
\<close>

definition echo_bytes :: "u8 list \<Rightarrow> u8 list \<Rightarrow> u8 list" where
  "echo_bytes hdr payload = (let m = put_bytes (hdr @ payload) 2 (bytes16 0)
     in put_bytes m 2 (bytes16 (checksum (take (length payload) m))))"

definition icmp_skb :: "('z skb_store_scheme) \<Rightarrow> u8 list \<Rightarrow> u8 list \<Rightarrow> sk_buff" where
  "icmp_skb s hdr payload = (append_raw s (length payload))\<lparr>skb_data := 34, skb_len := of_nat (length payload) + 8,
     skb_buf := put_bytes (skb_buf (append_raw s (length payload))) 34 (echo_bytes hdr payload)\<rparr>"

lemma icmp_glue_bits_apply:
  assumes i: "skbs s i = Some b" "in_block b (skb_data b) (length p)" "get_bytes (skb_buf b) (nat (skb_data b)) (length p) = p"
    and j: "skbs s j = Some (append_raw s0 (length p))" "i \<noteq> j" and n: "0 < length p" "length p \<le> 65507" "length hdr = 8"
  shows "icmp_glue_bits \<lparr>bxm_skb = i, bxm_offset = 0, bxm_data_len = dl, bxm_icmph = hdr, bxm_head_len = 8\<rparr> 42 (length p) j s =
    Inr (0, s\<lparr>skbs := (skbs s)(j \<mapsto> icmp_skb s0 hdr p)\<rparr>)"
proof -
  let ?b = "append_raw s0 (length p)"
  define S where "S B = s\<lparr>skbs := (skbs s)(j \<mapsto> ?b\<lparr>skb_buf := B\<rparr>)\<rparr>" for B
  define B0 where "B0 = skb_buf ?b"
  have len: "length B0 = length p + 42" unfolding B0_def using n(2) by (rule length_append_raw)
  have store: "store_bytes j (int k) xs (S B) = Inr ((), S (put_bytes B k xs))"
    if "length B = length B0" "k + length xs \<le> length B0" for k xs B
    using that by (simp add: S_def store_bytes_apply in_block_def)
  have store0: "store_bytes j 42 p s = Inr ((), S (put_bytes B0 42 p))"
    using j(1) len unfolding B0_def by (simp add: S_def store_bytes_apply in_block_def)
  have fin: "on_skb j (skb_push 8) (S B) = Inr (Some 34, s\<lparr>skbs := (skbs s)(j \<mapsto> ?b\<lparr>skb_data := 34, skb_len := of_nat (length p) + 8, skb_buf := B\<rparr>)\<rparr>)" for B
    by (simp add: S_def comp_simps skb_push_def append_raw_def zero_skb_def)
  define m where "m = put_bytes (hdr @ p) 2 (bytes16 0)"
  have m: "length m = 8 + length p" using n by (simp add: m_def)
  have b2: "put_bytes (put_bytes B0 42 p) 34 hdr = put_bytes B0 34 (hdr @ p)"
    using len n by (intro put_bytes_put_bytes_append) simp_all
  have b3: "put_bytes (put_bytes B0 34 (hdr @ p)) 36 (bytes16 0) = put_bytes B0 34 m"
    unfolding m_def using len n by (intro put_bytes_within) simp_all
  have b4: "put_bytes (put_bytes B0 34 m) 36 (bytes16 v) = put_bytes B0 34 (put_bytes m 2 (bytes16 v))" for v
    using len m by (intro put_bytes_within) simp_all
  have sint: "sint (of_nat (length p) :: u32) = int (length p)" using n by (intro sint_of_nat_u32) simp
  have "get_bytes (put_bytes B0 34 m) 34 (length p) = take (length p) m"
    using len m by (simp add: get_bytes_def put_bytes_def)
  then have cs: "checksum_at j 34 (int (length p)) (S (put_bytes B0 34 m)) = Inr (checksum (take (length p) m), S (put_bytes B0 34 m))"
    using len m n by (simp add: S_def checksum_at_def comp_simps load_defs in_block_def)
  have st: "store_bytes j 34 hdr (S (put_bytes B0 42 p)) = Inr ((), S (put_bytes B0 34 (hdr @ p)))"
    "store_bytes j 36 (bytes16 0) (S (put_bytes B0 34 (hdr @ p))) = Inr ((), S (put_bytes B0 34 m))"
    "store_bytes j 36 (bytes16 c) (S (put_bytes B0 34 m)) = Inr ((), S (put_bytes B0 34 (put_bytes m 2 (bytes16 c))))" for c
    using store [of "put_bytes B0 42 p" 34 hdr] store [of "put_bytes B0 34 (hdr @ p)" 36 "bytes16 0"]
      store [of "put_bytes B0 34 m" 36 "bytes16 c"] len n m by (simp_all add: b2 b3 b4)
  have gs: "get_skb j (S B) = Inr (?b\<lparr>skb_buf := B\<rparr>, S B)" for B by (simp add: S_def comp_simps)
  have h: "h_raw ?b = Some 34" "skb_len ?b = of_nat (length p)" by (simp_all add: append_raw_def)
  have tgt: "icmp_skb s0 hdr p = ?b\<lparr>skb_data := 34, skb_len := of_nat (length p) + 8,
      skb_buf := put_bytes B0 34 (put_bytes m 2 (bytes16 (checksum (take (length p) m))))\<rparr>"
    by (simp add: icmp_skb_def echo_bytes_def Let_def B0_def m_def)
  show ?thesis
    using i n
    by (simp add: icmp_glue_bits_def bindM_apply get_skb_Some [OF i(1)] load_bytes_def load_apply [OF i(1)] store0 gs h nonnull_Some st sint cs fin
       copy_from_def returnM_apply checkM_apply tgt)
qed

lemma length_echo_bytes [simp]: "length hdr = 8 \<Longrightarrow> length (echo_bytes hdr p) = 8 + length p"
  by (simp add: echo_bytes_def Let_def)

lemma icmp_skb_facts:
  assumes "length p \<le> 65507" "length hdr = 8"
  shows "wf_skb (icmp_skb s hdr p)" "nh_raw (icmp_skb s hdr p) = Some 14" "skb_data (icmp_skb s hdr p) = 34"
    "segment_of (icmp_skb s hdr p) 14 = echo_bytes hdr p"
proof -
  have len: "length (skb_buf (append_raw s (length p))) = length p + 42" using assms(1) by (rule length_append_raw)
  have u: "uint (of_nat (length p) + 8 :: u32) = int (length p) + 8"
    using assms(1) uint_of_nat_add_u32 [of "length p" 8] by simp
  show "wf_skb (icmp_skb s hdr p)" using assms len u by (simp add: icmp_skb_def wf_skb_def) (simp add: append_raw_def zero_skb_def)
  have "nat (skb_tail (icmp_skb s hdr p) - 14) - 20 = 8 + length p" by (simp add: icmp_skb_def append_raw_def)
  then show "segment_of (icmp_skb s hdr p) 14 = echo_bytes hdr p"
    using assms len by (simp add: segment_of_def) (simp add: icmp_skb_def get_bytes_put_bytes)
qed (simp_all add: icmp_skb_def append_raw_def)

lemma append_raw_facts:
  "wf_skb (append_raw s 0)" "nh_raw (append_raw s n) = Some 14" "skb_data (append_raw s n) = 42"
  using length_append_raw [of 0 s] by (simp_all add: wf_skb_def) (simp_all add: append_raw_def zero_skb_def)

text \<open>
  The reply as it leaves: an empty payload is not copied, and with it the header is not
  written either, so the message consists of what the allocated memory held.
\<close>

definition reply_segment :: "('z skb_store_scheme) \<Rightarrow> u8 list \<Rightarrow> u8 list \<Rightarrow> u8 list" where
  "reply_segment s hdr p = (if p = [] then segment_of (append_raw s 0) 14 else echo_bytes hdr p)"

definition reply_skb :: "('z skb_store_scheme) \<Rightarrow> u8 list \<Rightarrow> u8 list \<Rightarrow> sk_buff" where
  "reply_skb s hdr p = (if p = [] then append_raw s 0 else icmp_skb s hdr p)"

lemma icmp_append_apply:
  assumes rt: "rtables s rt = Some ro" "dst_dev ro = Some d" "devs s d = Some nd" "eth_dev nd"
    and s: "socks s sk = Some x" "mem_ok s" "heap_ok s" "queue_rep s (Write_queue sk) []"
    and i: "skbs s i = Some b" "in_block b (skb_data b) (length p)" "get_bytes (skb_buf b) (nat (skb_data b)) (length p) = p"
    and n: "length p \<le> 65507" "length hdr = 8"
  shows "ip_append_data sk (Icmp_glue_bits \<lparr>bxm_skb = i, bxm_offset = 0, bxm_data_len = int (length p), bxm_icmph = hdr, bxm_head_len = 8\<rparr>)
     (of_nat (length p) + 8) 8 rt s = Inr (0, append_state sk x rt (reply_skb s hdr p) s)"
proof -
  let ?t = "s\<lparr>socks := (socks s)(sk \<mapsto> x\<lparr>cork_rt := Some rt\<rparr>)\<rparr>"
  let ?m = "\<lparr>bxm_skb = i, bxm_offset = 0, bxm_data_len = int (length p), bxm_icmph = hdr, bxm_head_len = 8\<rparr>"
  let ?a = "alloc_state ?t 2 (append_raw s (length p))"
  have upd: "(alloc_state ?t 2 c)\<lparr>skbs := (skbs s)(brk s \<mapsto> c')\<rparr> = alloc_state ?t 2 c'" for c c'
    by (simp add: alloc_state_def)
  have i': "skbs ?a i = Some b" "i \<noteq> brk s" using heap_okD [OF s(3) i(1)] i(1) by simp_all
  have glue: "call_getfrag (Icmp_glue_bits ?m) 42 (length p) (brk s) ?a = Inr (0, alloc_state ?t 2 (icmp_skb s hdr p))" if "p \<noteq> []"
    using icmp_glue_bits_apply [OF i'(1) i(2,3), of "brk s" s hdr] i'(2) n that by (simp add: call_getfrag_def upd)
  have "queue_rep ?t (Write_queue sk) []" "heap_ok ?t" using s(3,4) by (simp_all add: queue_rep_def heap_ok_def)
  then have q: "skb_queue_tail (Write_queue sk) (Skb (brk s)) (alloc_state ?t 2 c) =
      Inr ((), enq_state (alloc_state ?t 2 c) (Write_queue sk) (brk s))" for c
    using queue_rep_alloc_state by (intro skb_queue_tail_apply) auto
  show ?thesis
    unfolding ip_append_data_prepare [OF rt s(1,2) n(1)] using q glue
    by (cases "p = []") (simp_all add: comp_simps append_state_def reply_skb_def)
qed

lemma icmp_push_reply_sends:
  assumes so: "icmp_socket s = Some so" "sockets s so = Some z" "socket_sk z = Some sk"
    and sk: "socks s sk = Some x" "queue_rep s (Write_queue sk) []" and h: "heap_ok s" "mem_ok s"
    and rt: "rtables s rt = Some ro" "out_route ro n d" "resolver_rep s n d nd before r"
    and i: "skbs s i = Some b" "in_block b (skb_data b) (length p)" "get_bytes (skb_buf b) (nat (skb_data b)) (length p) = p"
    and n: "length p \<le> 65507" "length hdr = 8"
  shows "wp (icmp_push_reply \<lparr>bxm_skb = i, bxm_offset = 0, bxm_data_len = int (length p), bxm_icmph = hdr, bxm_head_len = 8\<rparr> rt)
    (\<lambda>_ t. send_frame sk x n s t \<and>
    (\<exists>r'. rstep r (Send (rt_src ro) (ETH_P_IP, ip_datagram (sk_protocol x) (rt_src ro) (rt_dst ro) (reply_segment s hdr p))) r' \<and>
       resolver_rep t n d nd before r')) s"
proof -
  let ?c = "reply_skb s hdr p" and ?a = "append_state sk x rt (reply_skb s hdr p) s"
  from rt(3) have d: "devs s d = Some nd" "eth_dev nd" by (auto simp: resolver_rep_def)
  have ro: "dst_dev ro = Some d" using rt(2) by (simp add: out_route_def)
  have c: "wf_skb ?c" "nh_raw ?c = Some 14" "34 \<le> skb_data ?c" "segment_of ?c 14 = reply_segment s hdr p"
    using icmp_skb_facts [OF n, of s] append_raw_facts [of s] by (simp_all add: reply_skb_def reply_segment_def)
  have app: "ip_append_data sk (Icmp_glue_bits \<lparr>bxm_skb = i, bxm_offset = 0, bxm_data_len = int (length p), bxm_icmph = hdr, bxm_head_len = 8\<rparr>)
     (of_nat (length p) + 8) 8 rt s = Inr (0, ?a)"
    by (rule icmp_append_apply [OF rt(1) ro d sk(1) h(2,1) sk(2) i n])
  have peek: "skb_peek (Write_queue sk) ?a = Inr (Some (Skb (brk s)), ?a)"
    using skb_peek_apply [OF append_state_ready(1) [OF sk(2) h(1) rt(3)]] by simp
  show ?thesis
    using push_appended [OF sk h rt c(1-3)] unfolding c(4)
    by (auto simp: wp_iff icmp_push_reply_def comp_simps so app peek)
qed

end
