(* ===== verification/Udp.thy ===== *)
theory Udp
  imports Ip_Output
begin

text \<open>
  UDP (\<^verbatim>\<open>ipv4/udp.c\<close>): sending, the port table, receiving from a socket and delivery of a
  received datagram to the socket bound to its port.
\<close>

section \<open>Sending\<close>

definition udp_push_pending_frames :: "nat \<Rightarrow> ('z sock_store_scheme, int) comp" where
  "udp_push_pending_frames sk =
     bindM (skb_peek (Write_queue sk)) (\<lambda>p. case p of
         None \<Rightarrow> returnM (-1)
       | Some x \<Rightarrow>
           bindM (as_skb x) (\<lambda>skb.
           bindM (get_skb skb) (\<lambda>b.
           bindM (nonnull (h_raw b)) (\<lambda>uh.
           bindM (get_sock sk) (\<lambda>up.
           bindM (store_bytes skb uh (bytes16 (inet_sport up))) (\<lambda>_.
           bindM (store_bytes skb (uh + 2) (bytes16 (inet_dport up))) (\<lambda>_.
           bindM (store_bytes skb (uh + 4) (bytes16 (htons (udp_len up)))) (\<lambda>_.
           bindM (store_bytes skb (uh + 6) (bytes16 0)) (\<lambda>_.
           bindM (checksum_at skb uh (uint (udp_len up))) (\<lambda>csum.
           bindM (store_bytes skb (uh + 6) (bytes16 (csum_tcpudp_magic (inet_saddr up) (inet_daddr up)
             (htons (udp_len up)) (ucast (sk_protocol up)) csum))) (\<lambda>_.
           bindM (ip_push_pending_frames sk) (\<lambda>err.
           if err \<noteq> 0 then returnM (-1) else returnM 0))))))))))))"

text \<open>The destination of a message: the named address, checked; without a name it stays unset.\<close>

definition udp_msg_dest :: "msghdr \<Rightarrow> ('s, (u32 \<times> u16) option) comp" where
  "udp_msg_dest msg = (case msg_name msg of
       None \<Rightarrow> failM Uninitialised
     | Some usin \<Rightarrow>
         if (word_of_int (msg_namelen msg) :: 64 word) < 8 then returnM None
         else if sin_family usin \<noteq> 2 then returnM None
         else if sin_port usin = 0 then returnM None
         else returnM (Some (sin_addr usin, sin_port usin)))"

definition udp_sendmsg :: "nat \<Rightarrow> msghdr \<Rightarrow> u32 \<Rightarrow> ('z sock_store_scheme, int) comp" where
  "udp_sendmsg sk msg len =
     (let ulen = len + sizeof_udphdr in
      bindM (udp_msg_dest msg) (\<lambda>dest. case dest of
          None \<Rightarrow> returnM (-1)
        | Some (daddr, dport) \<Rightarrow>
            bindM (ip_route_output_flow (zero_flowi\<lparr>fl4_dst := daddr\<rparr>)) (\<lambda>p. case p of
                None \<Rightarrow> returnM (-1)
              | Some rt \<Rightarrow>
                  bindM (get_rt rt) (\<lambda>r.
                  let saddr = rt_src r in
                  bindM (upd_sock sk (\<lambda>up. up\<lparr>udp_len := ucast ulen\<rparr>)) (\<lambda>_.
                  bindM (ip_append_data sk (Ip_generic_getfrag (msg_iov msg)) ulen sizeof_udphdr rt) (\<lambda>err.
                  if err \<noteq> 0 then returnM (-1)
                  else
                    bindM (upd_sock sk (\<lambda>up. up\<lparr>inet_daddr := daddr, inet_saddr := saddr,
                      inet_dport := dport\<rparr>)) (\<lambda>_.
                    bindM (udp_push_pending_frames sk) (\<lambda>err.
                    if err \<noteq> 0 then returnM (-1) else returnM 0))))))))"

section \<open>The port table\<close>

text \<open>The loop that looks for the first entry that is not in use.\<close>

function first_unused :: "(nat \<Rightarrow> sk_map) \<Rightarrow> nat \<Rightarrow> nat \<Rightarrow> nat" where
  "first_unused m k n = (if k < n \<and> map_used (m k) then first_unused m (Suc k) n else k)"
  by pat_completeness auto
termination
  by (relation "measure (\<lambda>(m, k, n). n - k)") auto

definition take_port :: "nat \<Rightarrow> nat \<Rightarrow> ('z sock_store_scheme, unit) comp" where
  "take_port port sk = modifyM (\<lambda>s. s\<lparr>udptable := (udptable s)(port := \<lparr>map_sk = Some sk, map_used = True\<rparr>)\<rparr>)"

definition udp_v4_get_port :: "nat \<Rightarrow> u16 \<Rightarrow> ('z sock_store_scheme, int) comp" where
  "udp_v4_get_port sk snum =
     bindM (getsM udptable) (\<lambda>tbl.
     if snum = 0 then
       let port = first_unused tbl 0 MAXUDPSOCKNUM in
       if port = MAXUDPSOCKNUM then returnM (-1)
       else
         bindM (take_port port sk) (\<lambda>_.
         bindM (upd_sock sk (\<lambda>x. x\<lparr>inet_num := of_nat port\<rparr>)) (\<lambda>_. returnM 0))
     else if unat snum \<ge> MAXUDPSOCKNUM then returnM (-1)
     else if map_used (tbl (unat snum)) then returnM (-1)
     else
       bindM (take_port (unat snum) sk) (\<lambda>_.
       bindM (upd_sock sk (\<lambda>x. x\<lparr>inet_num := snum\<rparr>)) (\<lambda>_. returnM 0)))"

section \<open>Receiving\<close>

text \<open>The result is the return value and the message header with the copied data and the sender.\<close>

definition udp_recvmsg :: "nat \<Rightarrow> msghdr \<Rightarrow> int \<Rightarrow> ('z sock_store_scheme, int \<times> msghdr) comp" where
  "udp_recvmsg sk msg len =
     bindM (skb_recv_datagram sk) (\<lambda>skb.
     bindM (get_skb skb) (\<lambda>b.
     let copied = sint (skb_len b - sizeof_udphdr);
         copied = (if copied > len then len else copied) in
     bindM (skb_copy_datagram_iovec skb sizeof_udphdr (msg_iov msg) copied) (\<lambda>(err, iov).
     if err \<noteq> 0 then returnM (-1, msg)
     else
       let msg = msg\<lparr>msg_iov := iov\<rparr> in
       case msg_name msg of
         None \<Rightarrow> returnM (0, msg)
       | Some sin \<Rightarrow>
           bindM (nonnull (h_raw b)) (\<lambda>uh.
           bindM (load16 skb uh) (\<lambda>source.
           bindM (nonnull (nh_raw b)) (\<lambda>iph.
           bindM (load32 skb (iph + 12)) (\<lambda>saddr.
           returnM (0, msg\<lparr>msg_name := Some \<lparr>sin_family = 2, sin_port = source, sin_addr = saddr\<rparr>\<rparr>))))))))"

definition udp4_lib_lookup :: "u32 \<Rightarrow> u16 \<Rightarrow> u32 \<Rightarrow> u16 \<Rightarrow> ('z sock_store_scheme, nat option) comp" where
  "udp4_lib_lookup saddr sport daddr dport =
     bindM (getsM udptable) (\<lambda>tbl.
     let hnum = unat (ntohs dport) in
     returnM (if hnum < MAXUDPSOCKNUM \<and> map_used (tbl hnum) then map_sk (tbl hnum) else None))"

definition udp_queue_rcv_skb :: "nat \<Rightarrow> nat \<Rightarrow> ('z sock_store_scheme, int) comp" where
  "udp_queue_rcv_skb sk skb = bindM (sock_queue_rcv_skb sk skb) (\<lambda>rc.
     if rc \<noteq> 0 then returnM (-1) else returnM 0)"

definition udp4_lib_rcv :: "nat \<Rightarrow> ('z sock_store_scheme, int) comp" where
  "udp4_lib_rcv skb =
     bindM (get_skb skb) (\<lambda>b.
     bindM (nonnull (nh_raw b)) (\<lambda>iph.
     bindM (load32 skb (iph + 12)) (\<lambda>saddr.
     bindM (load32 skb (iph + 16)) (\<lambda>daddr.
     if \<not> skb_may_pull b sizeof_udphdr then bindM (kfree_skb skb) (\<lambda>_. returnM 0)
     else
       bindM (nonnull (h_raw b)) (\<lambda>uh.
       bindM (load16 skb uh) (\<lambda>source.
       bindM (load16 skb (uh + 2)) (\<lambda>dest.
       bindM (udp4_lib_lookup saddr source daddr dest) (\<lambda>p. case p of
           Some sk \<Rightarrow> bindM (udp_queue_rcv_skb sk skb) (\<lambda>ret.
             if ret > 0 then returnM (- ret) else returnM ret)
         | None \<Rightarrow> bindM (kfree_skb skb) (\<lambda>_. returnM 0)))))))))"

definition udp_rcv :: "nat \<Rightarrow> ('z sock_store_scheme, int) comp" where
  "udp_rcv skb = udp4_lib_rcv skb"

section \<open>Ports and their owners\<close>

text \<open>The sock that datagrams for a port are delivered to.\<close>

definition port_owner :: "('z sock_store_scheme) \<Rightarrow> nat \<Rightarrow> nat option" where
  "port_owner s p = (if p < MAXUDPSOCKNUM \<and> map_used (udptable s p) then map_sk (udptable s p) else None)"

declare first_unused.simps [simp del]

lemma first_unused_spec:
  "k \<le> n \<Longrightarrow> k \<le> first_unused m k n \<and> first_unused m k n \<le> n \<and> (\<forall>j. k \<le> j \<and> j < first_unused m k n \<longrightarrow> map_used (m j)) \<and>
     (first_unused m k n < n \<longrightarrow> \<not> map_used (m (first_unused m k n)))"
proof (induction m k n rule: first_unused.induct)
  case (1 m k n)
  show ?case
  proof (cases "k < n \<and> map_used (m k)")
    case True
    with 1 have IH: "Suc k \<le> first_unused m (Suc k) n \<and> first_unused m (Suc k) n \<le> n \<and>
        (\<forall>j. Suc k \<le> j \<and> j < first_unused m (Suc k) n \<longrightarrow> map_used (m j)) \<and>
        (first_unused m (Suc k) n < n \<longrightarrow> \<not> map_used (m (first_unused m (Suc k) n)))" by simp
    have "first_unused m k n = first_unused m (Suc k) n" using True by (subst first_unused.simps) simp
    moreover have "map_used (m j)" if "k \<le> j" "j < first_unused m (Suc k) n" for j
      using that IH True by (cases "j = k") auto
    ultimately show ?thesis using IH by auto
  next
    case False
    then have "first_unused m k n = k" by (subst first_unused.simps) auto
    with False 1 show ?thesis by auto
  qed
qed

lemma udp4_lib_lookup_owner: "udp4_lib_lookup saddr sport daddr dport s = Inr (port_owner s (unat (ntohs dport)), s)"
  by (simp add: udp4_lib_lookup_def comp_simps Let_def port_owner_def)

lemma unat_of_nat_u16: "n < 65536 \<Longrightarrow> unat (of_nat n :: u16) = n"
  by (simp only: unsigned_of_nat) (simp add: take_bit_nat_eq_self)

text \<open>
  C26: \<^verbatim>\<open>udp_v4_get_port\<close> gives a port to one sock only. It succeeds exactly when the port asked for
  is below 512 and free or, for port 0, when any is free, and then takes that port or the least
  free one; the sock becomes the owner of the port and no other owner changes. Otherwise it
  returns -1 and changes nothing.
\<close>

theorem udp_v4_get_port_correct:
  assumes "socks s sk = Some x"
  shows "wp (udp_v4_get_port sk snum) (\<lambda>rc t.
      (rc = 0 \<and> (\<exists>p < 512. \<not> map_used (udptable s p) \<and> port_owner t = (port_owner s)(p \<mapsto> sk) \<and>
         socks t = (socks s)(sk \<mapsto> x\<lparr>inet_num := of_nat p\<rparr>) \<and>
         (if snum = 0 then \<forall>q < p. map_used (udptable s q) else p = unat snum))) \<or>
      (rc = -1 \<and> t = s \<and> (if snum = 0 then \<forall>q < 512. map_used (udptable s q)
         else 512 \<le> unat snum \<or> map_used (udptable s (unat snum))))) s"
proof (cases "snum = 0")
  case True
  let ?p = "first_unused (udptable s) 0 512"
  note p = first_unused_spec [of 0 512 "udptable s"]
  show ?thesis
  proof (cases "?p = 512")
    case True
    with p \<open>snum = 0\<close> show ?thesis by (auto simp: udp_v4_get_port_def wp_simps)
  next
    case False
    with p have "?p < 512" "\<not> map_used (udptable s ?p)" "\<forall>q < ?p. map_used (udptable s q)" by auto
    with \<open>snum = 0\<close> assms show ?thesis
      by (auto simp: udp_v4_get_port_def wp_def comp_simps take_port_def Let_def port_owner_def fun_eq_iff)
  qed
next
  case False
  with assms show ?thesis
    by (auto simp: udp_v4_get_port_def wp_def comp_simps take_port_def Let_def port_owner_def fun_eq_iff)
qed

section \<open>Delivery to a socket\<close>

text \<open>
  A received packet at the transport layer: the network header lies in the block and the
  transport header begins the window. The sock it is for is the owner of its destination port.
\<close>

definition transport_skb :: "sk_buff \<Rightarrow> int \<Rightarrow> bool" where
  "transport_skb b nh \<longleftrightarrow> wf_skb b \<and> nh_raw b = Some nh \<and> in_block b nh 20 \<and> h_raw b = Some (skb_data b)"

definition ip_saddr :: "sk_buff \<Rightarrow> int \<Rightarrow> u32" where
  "ip_saddr b nh = ld32 (skb_buf b) (nat nh + 12)"

definition udp_owner :: "('z sock_store_scheme) \<Rightarrow> u8 list \<Rightarrow> nat option" where
  "udp_owner s w = (if length w < 8 then None else port_owner s (unat (ntohs (ld16 w 2))))"

lemma udp_rcv_apply:
  assumes "skbs s i = Some b" "transport_skb b nh"
  shows "udp_rcv i s = (case udp_owner s (window b) of
      None \<Rightarrow> Inr (0, s\<lparr>skbs := (skbs s)(i := None)\<rparr>)
    | Some sk \<Rightarrow> bindM (skb_queue_tail (Receive_queue sk) (Skb i)) (\<lambda>_. returnM 0) s)"
proof -
  from assms(2) have b: "wf_skb b" "nh_raw b = Some nh" "in_block b nh 20" "h_raw b = Some (skb_data b)"
    by (simp_all add: transport_skb_def)
  have nh: "in_block b (nh + 12) 4" "in_block b (nh + 16) 4" using b(3) by (auto simp: in_block_def)
  have w: "in_block b (skb_data b) 2" "in_block b (skb_data b + 2) 2"
      "ld16 (skb_buf b) (nat (skb_data b + 2)) = ld16 (window b) 2" if "8 \<le> unat (skb_len b)"
    using in_block_window [OF b(1), of 0 2] in_block_window [OF b(1), of 2 2] load_window(1) [OF b(1), of 2] that by simp_all
  show ?thesis
  proof (cases "8 \<le> unat (skb_len b)")
    case True
    with w [OF this] b nh assms(1) show ?thesis
      by (simp add: udp_rcv_def udp4_lib_rcv_def comp_simps load_defs skb_may_pull_def word_le_nat_alt udp4_lib_lookup_owner
         udp_owner_def udp_queue_rcv_skb_def sock_queue_rcv_skb_def split: option.split sum.split prod.split)
  next
    case False
    with b nh assms(1) show ?thesis
      by (simp add: udp_rcv_def udp4_lib_rcv_def comp_simps load_defs skb_may_pull_def word_le_nat_alt udp_owner_def)
  qed
qed

text \<open>
  C27: \<^verbatim>\<open>udp_rcv\<close> appends a datagram to the receive queue of the sock that owns its destination
  port and leaves all other queues as they are. A datagram that is shorter than a UDP header or
  for whose port there is no owner is released, and nothing else changes.
\<close>

theorem udp_rcv_delivers:
  assumes "skbs s i = Some b" "transport_skb b nh"
    and "\<And>sk. udp_owner s (window b) = Some sk \<Longrightarrow> queue_rep s (Receive_queue sk) (xs sk) \<and> i \<notin> set (xs sk)"
  shows "wp (udp_rcv i) (\<lambda>rc t. rc = 0 \<and> (case udp_owner s (window b) of
      None \<Rightarrow> t = s\<lparr>skbs := (skbs s)(i := None)\<rparr>
    | Some sk \<Rightarrow> skbs t = skbs s \<and> queue_rep t (Receive_queue sk) (xs sk @ [i]) \<and>
        (\<forall>q ys. q \<noteq> Receive_queue sk \<longrightarrow> i \<notin> set ys \<longrightarrow> queue_rep s q ys \<longrightarrow> queue_rep t q ys))) s"
proof (cases "udp_owner s (window b)")
  case None
  then show ?thesis using udp_rcv_apply [OF assms(1,2)] by (simp add: wp_def)
next
  case (Some sk)
  have q: "queue_rep s (Receive_queue sk) (xs sk)" "i \<notin> set (xs sk)" using assms(3) [OF Some] by auto
  have "udp_rcv i s = Inr (0, enq_state s (Receive_queue sk) i)"
    using udp_rcv_apply [OF assms(1,2)] Some skb_queue_tail_apply [OF q(1)] assms(1) by (simp add: comp_simps)
  then show ?thesis
    using Some q assms(1) by (auto simp: wp_def enq_state_rep intro: enq_state_frame [OF q(1)])
qed

lemma udp_recvmsg_apply:
  assumes q: "queue_rep s (Receive_queue sk) (i # is)"
    and b: "skbs s i = Some b" "transport_skb b nh" "8 \<le> unat (skb_len b)"
    and m: "msg_name msg = Some sin" "unat (skb_len b) - 8 \<le> length (iov_base (msg_iov msg))"
  shows "udp_recvmsg sk msg len s = Inr ((0, msg\<lparr>msg_iov := (msg_iov msg)\<lparr>iov_base := put_bytes (iov_base (msg_iov msg)) 0 (drop 8 (window b)),
        iov_len := of_nat (length (window b) - 8)\<rparr>, msg_name := Some \<lparr>sin_family = 2, sin_port = ld16 (window b) 0, sin_addr = ip_saddr b nh\<rparr>\<rparr>),
      (deq_state s (Receive_queue sk) i)\<lparr>skbs := (skbs s)(i \<mapsto> b\<lparr>skb_len := skb_len b - 8, skb_data := skb_data b + 8\<rparr>)\<rparr>)"
proof -
  from b(2) have b': "wf_skb b" "nh_raw b = Some nh" "in_block b nh 20" "h_raw b = Some (skb_data b)"
    by (simp_all add: transport_skb_def)
  let ?b = "b\<lparr>skb_len := skb_len b - 8, skb_data := skb_data b + 8\<rparr>"
  have len: "unat (skb_len b - 8) = unat (skb_len b) - 8" using b(3) by (simp add: unat_sub word_le_nat_alt)
  have blk: "in_block b (nh + 12) 4" "in_block ?b (nh + 12) 4" "0 \<le> nh" using b'(3) by (auto simp: in_block_def)
  have w: "in_block b (skb_data b) 2" "in_block b (skb_data b + 8) (unat (skb_len b) - 8)"
     "ld16 (skb_buf b) (nat (skb_data b)) = ld16 (window b) 0"
    using in_block_window [OF b'(1), of 0 2] in_block_window [OF b'(1), of 8 "unat (skb_len b) - 8"] load_window(1) [OF b'(1), of 0] b(3) by simp_all
  then have w': "in_block ?b (skb_data b) 2" "in_block ?b (skb_data b + 8) (unat (skb_len b) - 8)" by (simp_all add: in_block_def)
  have pl: "get_bytes (skb_buf b) (nat (skb_data b + 8)) (unat (skb_len b) - 8) = drop 8 (window b)"
    using window_drop [OF b'(1) b(3)] by simp
  have "(of_nat (unat (skb_len b - 8)) :: u16) = ucast (skb_len b - 8)" by simp
  then have il: "ucast (skb_len b - 8) = (of_nat (length (window b) - 8) :: u16)" unfolding len by (simp add: b'(1))
  have src: "ld32 (skb_buf b) (nat (nh + 12)) = ip_saddr b nh" using blk(3) by (simp add: ip_saddr_def nat_add_distrib)
  show ?thesis
    unfolding udp_recvmsg_def using b(1,3) b' blk w w' m len pl src skb_recv_datagram_apply [OF q]
    by (simp add: comp_simps skb_copy_datagram_iovec_def skb_pull_def word_less_nat_alt load_defs il)
qed

lemma udp_recvmsg_first:
  assumes q: "queue_rep s (Receive_queue sk) (i # is)"
    and b: "skbs s i = Some b" "transport_skb b nh" "8 \<le> unat (skb_len b)"
    and m: "msg_name msg = Some sin" "unat (skb_len b) - 8 \<le> length (iov_base (msg_iov msg))"
  shows "wp (udp_recvmsg sk msg len) (\<lambda>(rc, msg') t. rc = 0 \<and>
      iov_base (msg_iov msg') = put_bytes (iov_base (msg_iov msg)) 0 (drop 8 (window b)) \<and>
      iov_len (msg_iov msg') = of_nat (length (window b) - 8) \<and>
      msg_name msg' = Some \<lparr>sin_family = 2, sin_port = ld16 (window b) 0, sin_addr = ip_saddr b nh\<rparr> \<and>
      queue_rep t (Receive_queue sk) is) s"
  using udp_recvmsg_apply [OF assms] queue_rep_skb_upd [OF deq_state_rep [OF q], of i] by (simp add: wp_def)

section \<open>Segments\<close>

text \<open>The header as \<^verbatim>\<open>udp_push_pending_frames\<close> fills it, and the segment with its checksum (RFC 768).\<close>

definition udp_header :: "u16 \<Rightarrow> u16 \<Rightarrow> u16 \<Rightarrow> u8 list" where
  "udp_header sport dport len = bytes16 sport @ bytes16 dport @ bytes16 (htons len) @ bytes16 0"

definition udp_segment :: "u32 \<Rightarrow> u32 \<Rightarrow> u16 \<Rightarrow> u16 \<Rightarrow> u8 list \<Rightarrow> u8 list" where
  "udp_segment src dst sport dport payload =
     (let len = of_nat (8 + length payload); seg = udp_header sport dport len @ payload in
      put_bytes seg 6 (bytes16 (checksum (pseudo_header src dst IPPROTO_UDP (htons len) @ seg))))"

lemma length_udp_header [simp]: "length (udp_header sport dport len) = 8"
  by (simp add: udp_header_def)

lemma length_pseudo_header [simp]: "length (pseudo_header s d p l) = 12"
  by (simp add: pseudo_header_def)

lemma length_udp_segment [simp]: "length (udp_segment src dst sport dport payload) = 8 + length payload"
  by (simp add: udp_segment_def Let_def)

lemma udp_push_apply:
  assumes sk: "socks s sk = Some x" "sk_protocol x = IPPROTO_UDP" "udp_len x = of_nat (8 + length payload)"
    and q: "queue_rep s (Write_queue sk) (i # is)"
    and b: "skbs s i = Some b" "h_raw b = Some uh" "in_block b uh (8 + length payload)"
      "get_bytes (skb_buf b) (nat uh + 8) (length payload) = payload" and len: "length payload \<le> 65507"
  shows "udp_push_pending_frames sk s = bindM (ip_push_pending_frames sk) (\<lambda>err. if err \<noteq> 0 then returnM (-1) else returnM 0)
    (s\<lparr>skbs := (skbs s)(i \<mapsto> b\<lparr>skb_buf := put_bytes (skb_buf b) (nat uh)
      (take 8 (udp_segment (inet_saddr x) (inet_daddr x) (inet_sport x) (inet_dport x) payload))\<rparr>)\<rparr>)"
proof -
  define l where "l = (of_nat (8 + length payload) :: u16)"
  let ?h = "udp_header (inet_sport x) (inet_dport x) l"
  have uh: "0 \<le> uh" "nat uh + 8 + length payload \<le> length (skb_buf b)" using b(3) by (auto simp: in_block_def)
  have l: "uint l = 8 + int (length payload)"
  proof -
    have "unat l = 8 + length payload" unfolding l_def using len by (simp only: unsigned_of_nat) (simp add: take_bit_nat_eq_self)
    then show ?thesis by (metis of_nat_add of_nat_numeral uint_nat)
  qed
  define S where "S B = s\<lparr>skbs := (skbs s)(i \<mapsto> b\<lparr>skb_buf := B\<rparr>)\<rparr>" for B
  let ?B = "skb_buf b" and ?B4 = "put_bytes (skb_buf b) (nat uh) ?h"
  have store: "store_bytes i (uh + int k) xs (S B) = Inr ((), S (put_bytes B (nat uh + k) xs))"
    if "length B = length ?B" "k + length xs \<le> 8" for k xs B
    using that uh by (simp add: S_def store_bytes_apply in_block_def nat_add_distrib)
  have store0: "store_bytes i uh xs s = Inr ((), S (put_bytes ?B (nat uh) xs))" if "length xs \<le> 8" for xs
    using that b(1) uh by (simp add: S_def store_bytes_apply in_block_def)
  have stores: "store_bytes i uh (bytes16 (inet_sport x)) s = Inr ((), S (put_bytes ?B (nat uh) (bytes16 (inet_sport x))))"
    "store_bytes i (uh + 2) (bytes16 (inet_dport x)) (S (put_bytes ?B (nat uh) (bytes16 (inet_sport x)))) =
      Inr ((), S (put_bytes ?B (nat uh) (bytes16 (inet_sport x) @ bytes16 (inet_dport x))))"
    "store_bytes i (uh + 4) (bytes16 (htons l)) (S (put_bytes ?B (nat uh) (bytes16 (inet_sport x) @ bytes16 (inet_dport x)))) =
      Inr ((), S (put_bytes ?B (nat uh) (bytes16 (inet_sport x) @ bytes16 (inet_dport x) @ bytes16 (htons l))))"
    "store_bytes i (uh + 6) (bytes16 0) (S (put_bytes ?B (nat uh) (bytes16 (inet_sport x) @ bytes16 (inet_dport x) @ bytes16 (htons l)))) =
      Inr ((), S ?B4)"
    using store0 [of "bytes16 (inet_sport x)"] store [of _ 2 "bytes16 (inet_dport x)"] store [of _ 4 "bytes16 (htons l)"]
      store [of _ 6 "bytes16 0"] uh by (simp_all add: put_bytes_append_put_bytes udp_header_def)
  have seg: "get_bytes ?B4 (nat uh) (8 + length payload) = ?h @ payload"
    using uh b(4) by (simp only: get_bytes_append) (simp add: get_bytes_put_bytes get_bytes_put_bytes_other)
  have cs: "checksum_at i uh (uint l) (S ?B4) = Inr (checksum (?h @ payload), S ?B4)"
    using uh seg l by (simp add: S_def checksum_at_def comp_simps load_defs in_block_def nat_add_distrib)
  let ?c = "checksum (pseudo_header (inet_saddr x) (inet_daddr x) IPPROTO_UDP (htons l) @ ?h @ payload)"
  have magic: "csum_tcpudp_magic (inet_saddr x) (inet_daddr x) (htons l) 17 (checksum (?h @ payload)) = ?c"
    using csum_magic_checksum [of "?h @ payload" 17] len by simp
  have buf: "put_bytes ?B4 (nat uh + 6) (bytes16 ?c) =
      put_bytes ?B (nat uh) (take 8 (udp_segment (inet_saddr x) (inet_daddr x) (inet_sport x) (inet_dport x) payload))"
    unfolding udp_segment_def Let_def l_def [symmetric] using uh
    by (intro nth_equalityI) (auto simp: nth_put_bytes nth_append)
  have last: "store_bytes i (uh + 6) (bytes16 ?c) (S ?B4) = Inr ((), S (put_bytes ?B (nat uh)
      (take 8 (udp_segment (inet_saddr x) (inet_daddr x) (inet_sport x) (inet_dport x) payload))))"
    using store [of ?B4 6 "bytes16 ?c"] uh by (simp add: buf)
  show ?thesis
    unfolding S_def [symmetric]
    by (simp add: udp_push_pending_frames_def bindM_apply skb_peek_apply [OF q] as_skb_def returnM_apply
        get_skb_Some [of s i b] b nonnull_Some get_sock_apply [OF sk(1)] sk(2) sk(3) [folded l_def] stores cs magic last)
qed

lemma take8_udp_segment: "take 8 (udp_segment src dst sp dp payload) @ payload = udp_segment src dst sp dp payload"
proof -
  have "drop 8 (udp_segment src dst sp dp payload) = payload"
    by (simp add: udp_segment_def Let_def put_bytes_def)
  then show ?thesis by (metis append_take_drop_id)
qed

lemma segment_of_filled:
  assumes "length payload \<le> 65507"
  shows "segment_of ((append_skb s payload)\<lparr>skb_buf := put_bytes (skb_buf (append_skb s payload)) 34
    (take 8 (udp_segment src dst sp dp payload))\<rparr>) 14 = udp_segment src dst sp dp payload"
proof -
  note b = append_skb_simps [OF assms, of s]
  let ?B = "skb_buf (append_skb s payload)" and ?h = "take 8 (udp_segment src dst sp dp payload)"
  have n: "nat (skb_tail (append_skb s payload) - 14) - 20 = 8 + length payload" by (simp add: b)
  have "get_bytes (put_bytes ?B 34 ?h) 34 (8 + length payload) = ?h @ payload"
    using b(6,7) by (simp only: get_bytes_append) (simp add: get_bytes_put_bytes get_bytes_put_bytes_other)
  then show ?thesis using n take8_udp_segment by (simp add: segment_of_def)
qed

lemma udp_push_sends:
  assumes sk: "socks s sk = Some x" "sk_protocol x = IPPROTO_UDP" "udp_len x = of_nat (8 + length payload)" "cork_rt x = Some rt"
      "rtables s rt = Some ro" "out_route ro n d"
    and q: "queue_rep s (Write_queue sk) [i]" "skbs s i = Some (append_skb s0 payload)" "length payload \<le> 65507"
    and rep: "resolver_rep s n d nd before r" and h: "heap_ok s" "mem_ok s"
    and addr: "inet_saddr x = rt_src ro" "inet_daddr x = rt_dst ro"
  shows "wp (udp_push_pending_frames sk) (\<lambda>rc t. rc = 0 \<and> output_frame {Write_queue sk} n {i} s t \<and>
      queue_rep t (Write_queue sk) [] \<and> (\<exists>r'. rstep r (Send (rt_src ro) (ETH_P_IP,
      ip_datagram IPPROTO_UDP (rt_src ro) (rt_dst ro)
        (udp_segment (rt_src ro) (rt_dst ro) (inet_sport x) (inet_dport x) payload))) r' \<and>
      resolver_rep t n d nd before r')) s"
proof -
  note b = append_skb_simps [OF q(3), of s0]
  let ?seg = "udp_segment (inet_saddr x) (inet_daddr x) (inet_sport x) (inet_dport x) payload"
  let ?b = "(append_skb s0 payload)\<lparr>skb_buf := put_bytes (skb_buf (append_skb s0 payload)) 34 (take 8 ?seg)\<rparr>"
  let ?t = "s\<lparr>skbs := (skbs s)(i \<mapsto> ?b)\<rparr>"
  have blk: "in_block (append_skb s0 payload) 34 (8 + length payload)" "in_block (append_skb s0 payload) 34 (length (take 8 ?seg))"
    by (simp_all add: in_block_def b)
  have push: "udp_push_pending_frames sk s = bindM (ip_push_pending_frames sk)
      (\<lambda>err. if err \<noteq> 0 then returnM (-1) else returnM 0) ?t"
    using udp_push_apply [OF sk(1-3) q(1,2) b(3) blk(1) _ q(3)] b(7) by simp
  have wf: "wf_skb ?b" using wf_skb_put_bytes [OF b(1) blk(2)] by simp
  have new: "i \<notin> set xs" if "queue_rep s (Arp_queue n) xs" for xs using queue_rep_disjoint [OF q(1) that] by auto
  have rep': "resolver_rep ?t n d nd before r"
    by (rule resolver_rep_frame [OF rep]) (use new in \<open>auto intro: queue_rep_skb_upd\<close>)
  have fr: "output_frame {Write_queue sk} n {i} s t" if "output_frame {Write_queue sk} n {i} ?t t" for t
  proof -
    have "mem_frame {Arp_queue n, Write_queue sk} {i} s ?t" using q(2) by (intro mem_frame_skb) simp_all
    with that show ?thesis by (auto simp: output_frame_def intro: mem_frame_trans)
  qed
  have "wp (ip_push_pending_frames sk) (\<lambda>rc t. rc = 0 \<and>
    output_frame {Write_queue sk} n {i} ?t t \<and> queue_rep t (Write_queue sk) [] \<and>
    (\<exists>r'. rstep r (Send (rt_src ro) (ETH_P_IP, ip_datagram (sk_protocol x) (rt_src ro) (rt_dst ro) (segment_of ?b 14))) r' \<and>
       resolver_rep t n d nd before r')) ?t"
    using sk h q(2) b queue_rep_skb_upd [OF q(1)]
    by (intro ip_push_pending_frames_step [OF _ sk(4) _ sk(6) _ _ wf _ _ _ rep']) (auto simp: heap_ok_def mem_ok_def)
  then show ?thesis
    unfolding segment_of_filled [OF q(3)] sk(2) addr
    by (auto simp: wp_iff push comp_simps addr fr)
qed

lemma udp_sendmsg_datagram:
  assumes name: "msg_name msg = Some usin" "\<not> (word_of_int (msg_namelen msg) :: 64 word) < 8" "sin_family usin = 2" "sin_port usin \<noteq> 0"
    and route: "ip_route_output_flow (zero_flowi\<lparr>fl4_dst := sin_addr usin\<rparr>) s = Inr (Some rt, s1)"
      "rtables s1 rt = Some ro" "out_route ro n d" "rt_dst ro = sin_addr usin"
    and sk: "socks s1 sk = Some x" "sk_protocol x = IPPROTO_UDP" "queue_rep s1 (Write_queue sk) []"
    and rep: "resolver_rep s1 n d nd before r" and mem: "mem_ok s1" "heap_ok s1"
    and len: "k \<le> length (iov_base (msg_iov msg))" "k \<le> 65507"
  shows "wp (udp_sendmsg sk msg (of_nat k)) (\<lambda>rc t. rc = 0 \<and> send_frame sk x n s1 t \<and> (\<exists>r'. rstep r (Send (rt_src ro) (ETH_P_IP,
      ip_datagram IPPROTO_UDP (rt_src ro) (sin_addr usin)
        (udp_segment (rt_src ro) (sin_addr usin) (inet_sport x) (sin_port usin) (take k (iov_base (msg_iov msg)))))) r' \<and>
      resolver_rep t n d nd before r')) s"
proof -
  let ?p = "take k (iov_base (msg_iov msg))"
  define y where "y = x\<lparr>udp_len := 8 + of_nat k\<rparr>"
  define s2 where "s2 = s1\<lparr>socks := (socks s1)(sk \<mapsto> y)\<rparr>"
  define s3 where "s3 = append_state sk y rt (append_skb s2 ?p) s2"
  let ?x = "y\<lparr>cork_rt := Some rt, inet_daddr := sin_addr usin, inet_saddr := rt_src ro, inet_dport := sin_port usin\<rparr>"
  let ?t = "s3\<lparr>socks := (socks s3)(sk \<mapsto> ?x)\<rparr>"
  have s2: "rtables s2 rt = Some ro" "socks s2 sk = Some y" "mem_ok s2" "heap_ok s2" "queue_rep s2 (Write_queue sk) []"
      "resolver_rep s2 n d nd before r"
    using route(2) mem sk(3) resolver_rep_socks [OF rep] by (simp_all add: s2_def mem_ok_def heap_ok_def queue_rep_def)
  note s3 = append_state_ready [OF s2(5,4,6), of y rt "append_skb s2 ?p", folded s3_def]
  from rep have d: "devs s2 d = Some nd" "eth_dev nd" by (auto simp: resolver_rep_def s2_def)
  have append: "ip_append_data sk (Ip_generic_getfrag (msg_iov msg)) (8 + of_nat k) 8 rt s2 = Inr (0, s3)"
    using ip_append_data_apply [OF s2(1) _ d s2(2-5) len] route(3)
    by (simp add: out_route_def s3_def append_state_def add.commute)
  have push: "wp (udp_push_pending_frames sk) (\<lambda>rc t. rc = 0 \<and> output_frame {Write_queue sk} n {brk s2} ?t t \<and>
      queue_rep t (Write_queue sk) [] \<and> (\<exists>r'. rstep r (Send (rt_src ro) (ETH_P_IP,
      ip_datagram IPPROTO_UDP (rt_src ro) (rt_dst ro)
        (udp_segment (rt_src ro) (rt_dst ro) (inet_sport ?x) (inet_dport ?x) ?p))) r' \<and>
      resolver_rep t n d nd before r')) ?t"
    by (rule udp_push_sends [where i = "brk s2" and ?s0.0 = s2 and rt = rt, OF _ _ _ _ _ route(3) _ _ _ resolver_rep_socks [OF s3(2)]])
      (use s3(1,3) s2 sk route len in \<open>simp_all add: y_def s3_def queue_rep_def heap_ok_def mem_ok_def\<close>)
  have fr: "send_frame sk x n s1 t" if "output_frame {Write_queue sk} n {brk s2} ?t t" "queue_rep t (Write_queue sk) []" for t
  proof -
    have t: "?t = (append_state sk y rt (append_skb s2 ?p) s2)\<lparr>socks := (socks s2)(sk \<mapsto> ?x)\<rparr>" by (simp add: s3_def)
    have "send_frame sk y n s2 t" by (rule send_frameI [OF s2(5,4) that(1) [unfolded t] that(2)]) simp_all
    then show ?thesis unfolding s2_def by (rule send_frame_socks) (simp_all add: y_def)
  qed
  have "ucast (of_nat k + 8 :: u32) = (8 + of_nat k :: u16)" using ucast_of_nat_u16 [of "k + 8"] by (simp add: add.commute)
  then have "s1\<lparr>socks := (socks s1)(sk \<mapsto> x\<lparr>udp_len := ucast (of_nat k + 8 :: u32)\<rparr>)\<rparr> = s2"
    by (simp add: s2_def y_def)
  moreover have "socks s3 sk = Some (y\<lparr>cork_rt := Some rt\<rparr>)" by (simp add: s3_def)
  ultimately have run: "udp_sendmsg sk msg (of_nat k) s = bindM (udp_push_pending_frames sk)
      (\<lambda>err. if err \<noteq> 0 then returnM (-1) else returnM 0) ?t"
    using name route(1,2) sk(1) append
    by (simp add: udp_sendmsg_def udp_msg_dest_def comp_simps Let_def add.commute [of "of_nat k" 8])
  show ?thesis
    using push by (auto simp: wp_iff run comp_simps route(4) y_def fr)
qed

lemma udp_sendmsg_sends:
  assumes name: "msg_name msg = Some usin" "msg_namelen msg = 8" "sin_family usin = 2" "sin_port usin \<noteq> 0"
    and fib: "fib_rep s lcl mn" "fib_route lcl mn (sin_addr usin) = Some (l, fa)"
      "fa_info fa = Some fi" "nh_dev (fib_nh0 fi) = Some d"
    and dev: "devs s d = Some nd" "ip_ptr nd \<noteq> None"
    and mem: "mem_ok s" "heap_ok s" "malloc_ptr (os s) (brk s) = None" "rtables s (brk s) = None"
    and peer: "neigh_inv s" "peer_rep s (sin_addr usin) d nd before r"
    and sk: "socks s sk = Some x" "sk_protocol x = IPPROTO_UDP" "queue_rep s (Write_queue sk) []"
    and len: "k \<le> length (iov_base (msg_iov msg))" "k \<le> 65507"
  shows "wp (udp_sendmsg sk msg (of_nat k)) (\<lambda>rc t. rc = 0 \<and> (\<exists>r'. rstep r (Send (fib_prefsrc fi) (ETH_P_IP,
      ip_datagram IPPROTO_UDP (fib_prefsrc fi) (sin_addr usin)
        (udp_segment (fib_prefsrc fi) (sin_addr usin) (inet_sport x) (sin_port usin) (take k (iov_base (msg_iov msg)))))) r' \<and>
      resolver_rep t (peer s (sin_addr usin) d) d nd before r')) s"
proof -
  let ?fl = "zero_flowi\<lparr>fl4_dst := sin_addr usin\<rparr>"
  let ?t = "routed_state ?fl fi (fa_type fa) d nd s"
  have fl: "fl4_dst ?fl = sin_addr usin" "fl_iif ?fl = 0" "fl4_src ?fl = 0" by (simp_all add: zero_flowi_def)
  have r: "ip_route_output_flow ?fl s = Inr (Some (brk s), ?t)"
    using fib dev mem peer fl by (intro ip_route_output_routed) simp_all
  let ?ro = "out_rt (os s) (brk s) (out_flow ?fl fi nd) (fa_type fa) d (Some (peer s (fl4_dst ?fl) d))"
  have ro: "out_route ?ro (peer s (sin_addr usin) d) d" "rt_dst ?ro = sin_addr usin" "rt_src ?ro = fib_prefsrc fi"
    by (simp_all add: out_route_def out_rt_def out_flow_def zero_flowi_def)
  have rep: "resolver_rep ?t (peer s (sin_addr usin) d) d nd before r"
    using routed_state_rep [of s ?fl] peer mem(4) by simp
  have q: "queue_rep ?t (Write_queue sk) []" using sk(3) by (rule routed_state_queue) simp
  show ?thesis
    using udp_sendmsg_datagram [OF name(1) _ name(3,4) r routed_state_simps(5) ro(1,2) _ sk(2) q rep
        routed_state_mem(1) [OF mem(1)] routed_state_mem(2) [OF mem(2)] len] sk(1) name(2) unfolding ro(3) by (auto simp: wp_iff)
qed


definition example_udp :: sock_store where
  "example_udp = example_send\<lparr>skbs := Map.empty, 
     nxt := (\<lambda>_. None)(Arp_queue 3 := Some (Arp_queue 3), Write_queue 5 := Some (Write_queue 5)),
     prv := (\<lambda>_. None)(Arp_queue 3 := Some (Arp_queue 3), Write_queue 5 := Some (Write_queue 5)),
     devs := [1 \<mapsto> example_ifdev], rtables := Map.empty,
     ip_fib_local_table := ip_fib_local_table example_routed, ip_fib_main_table := ip_fib_main_table example_routed\<rparr>"

definition example_dgram :: msghdr where
  "example_dgram = \<lparr>msg_name = Some \<lparr>sin_family = 2, sin_port = 0x3500, sin_addr = 0x0100000a\<rparr>, msg_namelen = 8,
     msg_iov = \<lparr>iov_base = [1, 2, 3], iov_len = 3\<rparr>, msg_iovlen = 1\<rparr>"


lemma udp_segment_fields:
  "ld16 (udp_segment src dst sport dport payload @ pad) 0 = sport"
  "ld16 (udp_segment src dst sport dport payload @ pad) 2 = dport"
  "drop 8 (udp_segment src dst sport dport payload @ pad) = payload @ pad"
  by (simp_all add: udp_segment_def Let_def ld16_def nth_append nth_put_bytes udp_header_def bytes16_def)
    (simp add: put_bytes_def)



theorem udp_v4_get_port_correct_witness:
  "wp (udp_v4_get_port 5 7) (\<lambda>rc t. rc = 0 \<and> port_owner t 7 = Some 5) example_send"
proof -
  have "socks example_send 5 = Some ((zero_sock Udp_prot)\<lparr>cork_rt := Some 2, sk_protocol := 17\<rparr>)"
    by (simp add: example_send_def)
  from udp_v4_get_port_correct [OF this, of 7] show ?thesis
    by (rule wp_mono) (auto simp: example_send_def)
qed

end
