(* ===== verification/Ip_Input.thy ===== *)
theory Ip_Input
  imports Icmp Udp
begin

text \<open>
  The input path of \<^verbatim>\<open>ipv4/ip_input.c\<close>, the protocol list of \<^verbatim>\<open>ipv4/protocol.c\<close> and the receive
  side of \<^verbatim>\<open>ipv4/arp.c\<close>.
\<close>

section \<open>Delivery to the transport protocols\<close>

definition inet_add_protocol :: "net_protocol \<Rightarrow> u8 \<Rightarrow> ('z sock_store_scheme, int) comp" where
  "inet_add_protocol prot protocol =
     bindM (modifyM (\<lambda>s. s\<lparr>inet_protos := prot # inet_protos s\<rparr>)) (\<lambda>_. returnM 0)"

fun find_protocol :: "u8 \<Rightarrow> net_protocol list \<Rightarrow> inet_handler option" where
  "find_protocol protocol [] = None"
| "find_protocol protocol (p # ps) =
     (if protocol = np_protocol p then Some (np_handler p) else find_protocol protocol ps)"

definition call_handler :: "inet_handler \<Rightarrow> nat \<Rightarrow> ('z sock_store_scheme, int) comp" where
  "call_handler f skb = (case f of Icmp_rcv \<Rightarrow> icmp_rcv skb | Udp_rcv \<Rightarrow> udp_rcv skb)"

definition ip_local_deliver_finish :: "nat \<Rightarrow> ('z sock_store_scheme, int) comp" where
  "ip_local_deliver_finish skb =
     bindM (get_skb skb) (\<lambda>b.
     bindM (nonnull (nh_raw b)) (\<lambda>iph.
     bindM (load8 skb iph) (\<lambda>vi.
     let ihl = 4 * unat (vi AND 0x0f) in
     bindM (on_skb skb (skb_pull (of_nat ihl))) (\<lambda>_.
     bindM (upd_skb skb (\<lambda>b. b\<lparr>h_raw := Some (skb_data b)\<rparr>)) (\<lambda>_.
     bindM (load8 skb (iph + 9)) (\<lambda>protocol.
     bindM (getsM inet_protos) (\<lambda>protos. case find_protocol protocol protos of
         Some f \<Rightarrow> call_handler f skb
       | None \<Rightarrow> returnM 0)))))))"

definition ip_local_deliver :: "nat \<Rightarrow> ('z sock_store_scheme, int) comp" where
  "ip_local_deliver skb = ip_local_deliver_finish skb"

definition dst_input :: "nat \<Rightarrow> ('z sock_store_scheme, int) comp" where
  "dst_input skb =
     bindM (get_skb skb) (\<lambda>b.
     bindM (nonnull (skb_dst b)) (\<lambda>dst.
     bindM (get_rt dst) (\<lambda>rt. case dst_input_ptr rt of
         None \<Rightarrow> failM Bad_pointer
       | Some Ip_local_deliver \<Rightarrow> ip_local_deliver skb)))"

section \<open>Acceptance of a datagram\<close>

definition ip_rcv_finish :: "nat \<Rightarrow> ('z sock_store_scheme, int) comp" where
  "ip_rcv_finish skb =
     bindM (get_skb skb) (\<lambda>b.
     bindM (if skb_dst b = None then
         bindM (nonnull (nh_raw b)) (\<lambda>iph.
         bindM (load32 skb (iph + 16)) (\<lambda>daddr.
         bindM (load32 skb (iph + 12)) (\<lambda>saddr.
         bindM (load8 skb (iph + 1)) (\<lambda>tos.
         bindM (nonnull (skb_dev b)) (\<lambda>dev.
         ip_route_input skb daddr saddr tos dev)))))
       else returnM 0) (\<lambda>err.
     if err \<noteq> 0 then returnM NET_RX_DROP else dst_input skb))"

definition ip_rcv :: "nat \<Rightarrow> ('z sock_store_scheme, int) comp" where
  "ip_rcv skb =
     bindM (get_skb skb) (\<lambda>b.
     if pkt_type b = PACKET_OTHERHOST then returnM NET_RX_DROP
     else if pkt_type b = PACKET_MULTICAST \<or> pkt_type b = PACKET_BROADCAST then returnM NET_RX_DROP
     else if \<not> skb_may_pull b sizeof_iphdr then returnM NET_RX_DROP
     else
       bindM (nonnull (nh_raw b)) (\<lambda>iph.
       bindM (load8 skb iph) (\<lambda>vi.
       let ihl = unat (vi AND 0x0f); version = drop_bit 4 vi in
       if ihl < 5 \<or> version \<noteq> 4 then returnM NET_RX_DROP
       else if \<not> skb_may_pull b (of_nat (4 * ihl)) then returnM NET_RX_DROP
       else
         bindM (checksum_at skb iph (int (4 * ihl))) (\<lambda>c.
         if c \<noteq> 0 then returnM NET_RX_DROP
         else
           bindM (load16 skb (iph + 2)) (\<lambda>tot_len.
           let len = ucast (ntohs tot_len) in
           if skb_len b < len \<or> len < of_nat (4 * ihl) then returnM NET_RX_DROP
           else ip_rcv_finish skb)))))"

section \<open>ARP\<close>

definition LOOPBACK :: "u32 \<Rightarrow> bool" where
  "LOOPBACK x \<longleftrightarrow> x AND htonl 0xff000000 = htonl 0x7f000000"

definition MULTICAST :: "u32 \<Rightarrow> bool" where
  "MULTICAST x \<longleftrightarrow> x AND htonl 0xf0000000 = htonl 0xe0000000"

text \<open>The tail of \<^verbatim>\<open>arp_process\<close>: refresh a known neighbour, then release the packet.\<close>

definition arp_update_known :: "nat \<Rightarrow> u32 \<Rightarrow> u8 list \<Rightarrow> nat \<Rightarrow> ('z sock_store_scheme, int) comp" where
  "arp_update_known skb sip sha dev =
     bindM (neigh_lookup_creat Arp_tbl (bytes32 sip) dev False) (\<lambda>p.
     bindM (case p of
         None \<Rightarrow> returnM ()
       | Some n \<Rightarrow> bindM (neigh_update n (Some sha) NUD_REACHABLE) (\<lambda>_. returnM ())) (\<lambda>_.
     bindM (kfree_skb skb) (\<lambda>_. returnM 0)))"

definition arp_process :: "nat \<Rightarrow> ('z sock_store_scheme, int) comp" where
  "arp_process skb =
     bindM (get_skb skb) (\<lambda>b.
     bindM (nonnull (skb_dev b)) (\<lambda>dev.
     bindM (get_dev dev) (\<lambda>nd.
     bindM (nonnull (nh_raw b)) (\<lambda>arp.
     bindM (load16 skb (arp + 2)) (\<lambda>ar_pro.
     bindM (load16 skb arp) (\<lambda>ar_hrd.
     let out = bindM (kfree_skb skb) (\<lambda>_. returnM 0) in
     if ar_pro \<noteq> htons ETH_P_IP \<or> htons (dev_type nd) \<noteq> ar_hrd then out
     else
       bindM (load16 skb (arp + 6)) (\<lambda>ar_op.
       if ar_op \<noteq> htons ARPOP_REPLY \<and> ar_op \<noteq> htons ARPOP_REQUEST then out
       else
         let n = unat (addr_len nd) in
         bindM (load_bytes skb (arp + sizeof_arphdr) n) (\<lambda>sha.
         bindM (load32 skb (arp + sizeof_arphdr + int n)) (\<lambda>sip.
         bindM (load32 skb (arp + sizeof_arphdr + int n + 4 + int n)) (\<lambda>tip.
         if LOOPBACK tip \<or> MULTICAST tip then out
         else
           bindM (if ar_op = htons ARPOP_REQUEST then ip_route_input skb tip sip 0 dev
             else returnM (-1)) (\<lambda>err.
           if err = 0 then
             bindM (get_skb skb) (\<lambda>b.
             bindM (nonnull (skb_dst b)) (\<lambda>dst.
             bindM (get_rt dst) (\<lambda>rt.
             if rt_type rt = RTN_LOCAL then
               bindM (neigh_event_ns Arp_tbl (Some sha) (bytes32 sip) dev) (\<lambda>p.
               bindM (case p of
                   None \<Rightarrow> returnM ()
                 | Some _ \<Rightarrow> bindM (get_dev dev) (\<lambda>nd.
                     arp_send ARPOP_REPLY ETH_P_ARP sip dev tip (Some sha) (Some (dev_addr nd)) (Some sha))) (\<lambda>_.
               out))
             else arp_update_known skb sip sha dev)))
           else arp_update_known skb sip sha dev)))))))))))"

definition arp_rcv :: "nat \<Rightarrow> nat \<Rightarrow> ('z sock_store_scheme, int) comp" where
  "arp_rcv skb dev =
     bindM (get_skb skb) (\<lambda>b.
     bindM (get_dev dev) (\<lambda>nd.
     let freeskb = bindM (kfree_skb skb) (\<lambda>_. returnM 0) in
     if \<not> skb_may_pull b (sizeof_arphdr + 2 * ucast (addr_len nd) + 2 * 4) then freeskb
     else
       bindM (nonnull (nh_raw b)) (\<lambda>arp.
       bindM (load8 skb (arp + 4)) (\<lambda>ar_hln.
       bindM (load8 skb (arp + 5)) (\<lambda>ar_pln.
       if ar_hln \<noteq> addr_len nd \<or> pkt_type b = PACKET_OTHERHOST \<or> pkt_type b = PACKET_LOOPBACK \<or>
         ar_pln \<noteq> 4 then freeskb
       else arp_process skb)))))"

section \<open>Which datagrams are accepted\<close>

text \<open>The well-formed datagrams of RFC 791 (padding behind the datagram is allowed).\<close>

definition ihl_bytes :: "u8 list \<Rightarrow> nat" where
  "ihl_bytes w = 4 * unat (w ! 0 AND 0x0f)"

definition ip_ok :: "u8 list \<Rightarrow> bool" where
  "ip_ok w \<longleftrightarrow> 20 \<le> length w \<and> drop_bit 4 (w ! 0) = 4 \<and> 20 \<le> ihl_bytes w \<and> ihl_bytes w \<le> length w \<and>
     checksum (take (ihl_bytes w) w) = 0 \<and> ihl_bytes w \<le> unat (ntohs (ld16 w 2)) \<and> unat (ntohs (ld16 w 2)) \<le> length w"

lemma ihl_le: "unat (a AND 0x0f) \<le> 15" for a :: u8
proof -
  have "a AND 0x0f \<le> (0x0f :: u8)" by (rule word_and_le1)
  then show ?thesis by (simp add: word_le_nat_alt)
qed

lemma checksum_at_apply:
  assumes "skbs s i = Some b" "wf_skb b" "0 < n" "n \<le> unat (skb_len b)"
  shows "checksum_at i (skb_data b) (int n) s = Inr (checksum (take n (window b)), s)"
  using assms in_block_window [OF assms(2), of 0 n] load_window(4) [OF assms(2), of 0 n]
  by (simp add: checksum_at_def comp_simps load_defs get_bytes_def)

lemma ip_rcv_cases:
  assumes "skbs s i = Some b" "wf_skb b" "nh_raw b = Some (skb_data b)"
  shows "ip_rcv i s = (if pkt_type b \<notin> {PACKET_OTHERHOST, PACKET_MULTICAST, PACKET_BROADCAST} \<and> ip_ok (window b)
    then ip_rcv_finish i s else Inr (NET_RX_DROP, s))"
proof (cases "pkt_type b \<notin> {PACKET_OTHERHOST, PACKET_MULTICAST, PACKET_BROADCAST} \<and> 20 \<le> unat (skb_len b)")
  case True
  then have len: "20 \<le> unat (skb_len b)" and pk: "pkt_type b \<noteq> PACKET_OTHERHOST" "pkt_type b \<noteq> PACKET_MULTICAST"
    "pkt_type b \<noteq> PACKET_BROADCAST" by auto
  let ?v = "window b ! 0"
  have ld: "load8 i (skb_data b) s = Inr (?v, s)" "load16 i (skb_data b + 2) s = Inr (ld16 (window b) 2, s)"
    using in_block_window [OF assms(2), of 0 1] in_block_window [OF assms(2), of 2 2]
      load_window(3) [OF assms(2), of 0] load_window(1) [OF assms(2), of 2] len assms(1)
    by (simp_all add: load_defs comp_simps)
  have "unat (of_nat (4 * unat (?v AND 0x0f)) :: u32) = ihl_bytes (window b)"
    unfolding ihl_bytes_def using ihl_le [of ?v] by (intro unat_of_nat_u32) simp
  then have ihl: "unat (4 * ucast (?v AND 0x0f) :: u32) = ihl_bytes (window b)" by simp
  have cs: "checksum_at i (skb_data b) (int (4 * unat (?v AND 0x0f))) s = Inr (checksum (take (ihl_bytes (window b)) (window b)), s)"
    if "\<not> unat (?v AND 0x0f) < 5" "ihl_bytes (window b) \<le> unat (skb_len b)"
    using checksum_at_apply [OF assms(1,2), of "ihl_bytes (window b)"] that by (simp add: ihl_bytes_def)
  have five: "20 \<le> ihl_bytes (window b) \<longleftrightarrow> \<not> unat (?v AND 0x0f) < 5" by (auto simp: ihl_bytes_def)
  have tot: "unat (ucast (ntohs (ld16 (window b) 2)) :: u32) = unat (ntohs (ld16 (window b) 2))"
    by (rule unat_ucast_u32)
  show ?thesis
    using assms len pk ld ihl cs tot five
    by (auto simp: ip_rcv_def comp_simps skb_may_pull_def word_le_nat_alt word_less_nat_alt ip_ok_def Let_def)
next
  case False
  then have "ip_rcv i s = Inr (NET_RX_DROP, s)"
    using assms(1) by (auto simp: ip_rcv_def comp_simps skb_may_pull_def word_le_nat_alt)
  with False assms(2) show ?thesis by (auto simp: ip_ok_def)
qed

text \<open>
  C9: \<^verbatim>\<open>ip_rcv\<close> never faults on its own checks and accepts exactly the frames addressed to this
  host whose contents are well formed: version 4, a header of at least 20 bytes that lies in
  the packet, a correct header checksum and a total length between the two. Every other packet
  is reported as dropped and nothing is changed.
\<close>

theorem ip_rcv_accepts:
  assumes "skbs s i = Some b" "wf_skb b" "nh_raw b = Some (skb_data b)"
  shows "ip_rcv i s = (if pkt_type b \<notin> {PACKET_OTHERHOST, PACKET_MULTICAST, PACKET_BROADCAST} \<and> ip_ok (window b)
    then ip_rcv_finish i s else Inr (NET_RX_DROP, s))"
  using assms by (rule ip_rcv_cases)

lemma ip_datagram_nth_pad:
  "(ip_datagram p s d payload @ pad) ! 0 = 0x45"
  "ld16 (ip_datagram p s d payload @ pad) 2 = htons (of_nat (20 + length payload) :: u16)"
  using ip_datagram_nth [of p s d payload]
  by (simp_all add: ld16_def nth_append)

lemma ip_ok_datagram_pad:
  assumes "20 + length payload \<le> 65535"
  shows "ip_ok (ip_datagram p s d payload @ pad)"
proof -
  let ?h = "ip_header (of_nat (20 + length payload)) p s d"
  have "take 20 (ip_datagram p s d payload @ pad) = put_bytes ?h (2 * 5) (bytes16 (checksum ?h))"
    by (simp add: ip_datagram_def Let_def)
  then have "checksum (take 20 (ip_datagram p s d payload @ pad)) = 0"
    using checksum_stored [of ?h 5] by (simp add: ip_header_nth)
  moreover have "unat (of_nat (20 + length payload) :: u16) = 20 + length payload"
    using assms by (simp only: unsigned_of_nat) (simp add: take_bit_nat_eq_self)
  ultimately show ?thesis
    by (simp add: ip_ok_def ihl_bytes_def ip_datagram_nth_pad) (simp add: ip_datagram_nth)
qed

text \<open>What the output path builds passes the checks of the input path.\<close>

lemma ip_rcv_accepts_own:
  assumes "skbs s i = Some b" "wf_skb b" "nh_raw b = Some (skb_data b)" "pkt_type b = PACKET_HOST"
    and "window b = ip_datagram proto src dst payload @ pad" "20 + length payload \<le> 65535"
  shows "ip_rcv i s = ip_rcv_finish i s"
  using ip_rcv_cases [OF assms(1-3)] ip_ok_datagram_pad [OF assms(6)] assms(4,5) by simp

lemma example_ip_skb_facts: "skbs example_send 1 = Some example_ip_skb" "wf_skb example_ip_skb"
    "nh_raw example_ip_skb = Some (skb_data example_ip_skb)" "pkt_type example_ip_skb = PACKET_HOST"
    "window example_ip_skb = ip_datagram 17 0x0100000a 0x0200000a [7] @ []"
  by (simp_all add: example_send_def example_ip_skb_def wf_skb_def zero_skb_def ip_datagram_nth window_def get_bytes_def)

theorem ip_rcv_accepts_witness:
  "ip_rcv 1 example_send = (if ip_ok (window example_ip_skb) then ip_rcv_finish 1 example_send else Inr (NET_RX_DROP, example_send))"
  using ip_rcv_accepts [OF example_ip_skb_facts(1-3)] example_ip_skb_facts(4) by simp

section \<open>Local delivery\<close>

text \<open>
  The buffer and the state in which the handler of a transport protocol is called for a
  datagram to this host: the new route is attached and the IP header is pulled.
\<close>

lemma ip_datagram_fields:
  "(ip_datagram p s d payload @ pad) ! 9 = p" "ld32 (ip_datagram p s d payload @ pad) 12 = s"
  "ld32 (ip_datagram p s d payload @ pad) 16 = d" "(ip_datagram p s d payload @ pad) ! 1 = 0" "drop 20 (ip_datagram p s d payload @ pad) = payload @ pad"
  using ip_datagram_nth [of p s d payload]
  by (simp_all add: ld32_def nth_append) (simp_all add: ip_datagram_def Let_def nth_append nth_put_bytes ip_header_def)

definition local_skb :: "nat \<Rightarrow> nat \<Rightarrow> sk_buff \<Rightarrow> sk_buff" where
  "local_skb k rt b = b\<lparr>skb_dst := Some rt, skb_len := skb_len b - of_nat k, skb_data := skb_data b + int k,
     h_raw := Some (skb_data b + int k)\<rparr>"

definition local_state :: "nat \<Rightarrow> sk_buff \<Rightarrow> nat \<Rightarrow> net_device \<Rightarrow> u8 list \<Rightarrow> 'z fib_store_scheme \<Rightarrow> 'z fib_store_scheme" where
  "local_state i b d nd w s = s\<lparr>brk := brk s + 1,
     rtables := (rtables s)(brk s \<mapsto> in_rt (os s) (brk s) d nd (ld32 w 16) (ld32 w 12) (w ! 1)),
     skbs := (skbs s)(i \<mapsto> local_skb (ihl_bytes w) (brk s) b)\<rparr>"

lemma local_skb_simps:
  assumes "wf_skb b" "20 \<le> k" "k \<le> unat (skb_len b)" "nh_raw b = Some (skb_data b)"
  shows "transport_skb (local_skb k rt b) (skb_data b)" "window (local_skb k rt b) = drop k (window b)"
    "skb_data (local_skb k rt b) = skb_data b + int k" "skb_dst (local_skb k rt b) = Some rt"
    "ip_saddr (local_skb k rt b) (skb_data b) = ld32 (window b) 12"
proof -
  have "k < 2 ^ 32" using assms(3) unsigned_less [where ?'a = nat, of "skb_len b"] by simp
  then have k: "unat (of_nat k :: u32) = k" "uint (of_nat k :: u32) = int k"
    using unat_of_nat_u32 [of k] uint_of_nat_add_u32 [of k 0] by simp_all
  have le: "of_nat k \<le> skb_len (b\<lparr>skb_dst := Some rt\<rparr>)" using assms(3) k by (simp add: word_le_nat_alt)
  have "wf_skb (local_skb k rt b)"
    using wf_skb_pulled [OF _ le] assms(1) k by (simp add: local_skb_def)
  moreover have "in_block b (skb_data b) 20" using in_block_window [OF assms(1), of 0 20] assms(2,3) by simp
  ultimately show "transport_skb (local_skb k rt b) (skb_data b)"
    using assms(4) by (simp add: transport_skb_def local_skb_def in_block_def)
  show "window (local_skb k rt b) = drop k (window b)"
    using window_pull [OF _ le] assms(1) k by (simp add: local_skb_def)
  show "ip_saddr (local_skb k rt b) (skb_data b) = ld32 (window b) 12"
    using load_window(2) [OF assms(1), of 12] assms(1-3) by (simp add: ip_saddr_def local_skb_def wf_skb_def nat_add_distrib)
qed (simp_all add: local_skb_def)

text \<open>A received packet to this host, before its route is looked up.\<close>

definition accepts_local :: "('z sock_store_scheme) \<Rightarrow> nat \<Rightarrow> sk_buff \<Rightarrow> nat \<Rightarrow> net_device \<Rightarrow> bool" where
  "accepts_local s i b d nd \<longleftrightarrow> skbs s i = Some b \<and> wf_skb b \<and> nh_raw b = Some (skb_data b) \<and>
     pkt_type b \<notin> {PACKET_OTHERHOST, PACKET_MULTICAST, PACKET_BROADCAST} \<and> skb_dst b = None \<and> skb_dev b = Some d \<and> devs s d = Some nd \<and> mem_ok s"

lemma ip_rcv_deliver:
  assumes s: "accepts_local s i b d nd" and w: "ip_ok (window b)"
    and fib: "fib_rep s lcl mn" "fib_route lcl mn (ld32 (window b) 16) = Some (l, fa)" "fa_type fa = RTN_LOCAL"
  shows "ip_rcv i s = (case find_protocol (window b ! 9) (inet_protos s) of
      Some f \<Rightarrow> call_handler f i | None \<Rightarrow> returnM 0) (local_state i b d nd (window b) s)"
proof -
  let ?w = "window b"
  from s have b: "skbs s i = Some b" "wf_skb b" "nh_raw b = Some (skb_data b)"
      "pkt_type b \<notin> {PACKET_OTHERHOST, PACKET_MULTICAST, PACKET_BROADCAST}" "skb_dst b = None"
    "skb_dev b = Some d" "devs s d = Some nd" "mem_ok s" by (simp_all add: accepts_local_def)
  have len: "20 \<le> unat (skb_len b)" "ihl_bytes ?w \<le> unat (skb_len b)" using length_window [OF b(2)] w by (auto simp: ip_ok_def)
  have blk: "in_block b (skb_data b + int k) n" if "k + n \<le> 20" for k n using in_block_window [OF b(2), of k n] that len by simp
  have rcv: "ip_rcv i s = ip_rcv_finish i s" using ip_rcv_cases [OF b(1-3)] w b(4) by simp
  define t where "t = s\<lparr>brk := brk s + 1, rtables := (rtables s)(brk s \<mapsto> in_rt (os s) (brk s) d nd (ld32 ?w 16) (ld32 ?w 12) (?w ! 1)),
      skbs := (skbs s)(i \<mapsto> b\<lparr>skb_dst := Some (brk s)\<rparr>)\<rparr>"
  have route: "ip_route_input i (ld32 ?w 16) (ld32 ?w 12) (?w ! 1) d s = Inr (0, t)"
    using ip_route_input_apply [OF fib(1) b(7,1,8)] fib by (simp add: t_def)
  have ld: "ld32 (skb_buf b) (nat (skb_data b + 16)) = ld32 ?w 16" "ld32 (skb_buf b) (nat (skb_data b + 12)) = ld32 ?w 12"
    "skb_buf b ! nat (skb_data b + 1) = ?w ! 1" "skb_buf b ! nat (skb_data b) = ?w ! 0" "skb_buf b ! nat (skb_data b + 9) = ?w ! 9"
    using load_window(2) [OF b(2), of 16] load_window(2) [OF b(2), of 12] load_window(3) [OF b(2), of 1] load_window(3) [OF b(2), of 0]
      load_window(3) [OF b(2), of 9] len by simp_all
  have "ip_rcv_finish i s = dst_input i t"
    using blk [of 16 4] blk [of 12 4] blk [of 1 1] b ld route by (simp add: ip_rcv_finish_def comp_simps load_defs)
  also have "\<dots> = ip_local_deliver_finish i t"
    using b by (simp add: dst_input_def comp_simps t_def in_rt_def ip_local_deliver_def)
  also have "\<dots> = (case find_protocol (?w ! 9) (inet_protos s) of
      Some f \<Rightarrow> call_handler f i | None \<Rightarrow> returnM 0) (local_state i b d nd ?w s)"
  proof -
    define k where "k = ihl_bytes ?w"
    have k: "4 * unat (?w ! 0 AND 15) = k" by (simp add: k_def ihl_bytes_def)
    have "k < 2 ^ 32" using len(2) unsigned_less [where ?'a = nat, of "skb_len b"] by (simp add: k_def)
    then have uk: "unat (of_nat k :: u32) = k" "uint (of_nat k :: u32) = int k"
      using unat_of_nat_u32 [of k] uint_of_nat_add_u32 [of k 0] by simp_all
    have t': "skbs t i = Some (b\<lparr>skb_dst := Some (brk s)\<rparr>)" "inet_protos t = inet_protos s" by (simp_all add: t_def)
    have st: "t\<lparr>skbs := (skbs t)(i \<mapsto> b\<lparr>skb_dst := Some (brk s), skb_len := skb_len b - of_nat k, skb_data := skb_data b + int k,
        h_raw := Some (skb_data b + int k)\<rparr>)\<rparr> = local_state i b d nd ?w s"
      by (simp add: local_state_def local_skb_def t_def k_def)
    show ?thesis
      unfolding st [symmetric] using blk [of 0 1] blk [of 9 1] b ld len(2)
      by (simp add: ip_local_deliver_finish_def comp_simps load_defs k skb_pull_def word_less_nat_alt uk t' in_block_def
          flip: k_def del: of_nat_mult)
  qed
  finally show ?thesis using rcv by simp
qed

lemma ip_datagram_ihl: "ihl_bytes (ip_datagram p src dst sg @ pad) = 20"
  by (simp add: ihl_bytes_def ip_datagram_nth_pad)

lemma ip_rcv_local:
  assumes s: "accepts_local s i b d nd" and w: "window b = ip_datagram p src dst sg @ pad" "20 + length sg \<le> 65535"
    and fib: "fib_rep s lcl mn" "fib_route lcl mn dst = Some (l, fa)" "fa_type fa = RTN_LOCAL"
  shows "ip_rcv i s = (case find_protocol p (inet_protos s) of
      Some f \<Rightarrow> call_handler f i | None \<Rightarrow> returnM 0) (local_state i b d nd (window b) s)"
  using ip_rcv_deliver [OF s _ fib(1) _ fib(3)] ip_ok_datagram_pad [OF w(2)] fib(2) unfolding w(1) by (simp add: ip_datagram_fields)

lemma local_state_simps [simp]:
  "skbs (local_state i b d nd w s) = (skbs s)(i \<mapsto> local_skb (ihl_bytes w) (brk s) b)"
  "udptable (local_state i b d nd w t) = udptable t"
  by (simp_all add: local_state_def)

lemma port_owner_local_state [simp]: "port_owner (local_state i b d nd w s) = port_owner s"
  by (simp add: port_owner_def fun_eq_iff)

lemma queue_rep_local_state: "queue_rep s q xs \<Longrightarrow> queue_rep (local_state i b d nd w s) q xs"
  using queue_rep_skb_upd [of s q xs i] by (auto simp: queue_rep_def local_state_def)


definition example_seg :: "u8 list" where
  "example_seg = udp_segment 0x0100000a FIXED_IP_ADDR 0x3900 0x3500 [1, 2, 3]"

definition example_in_skb :: sk_buff where
  "example_in_skb = zero_skb\<lparr>nh_raw := Some 0, skb_dev := Some 1, skb_tail := 31, skb_end := 31, skb_len := 31,
     skb_buf := ip_datagram IPPROTO_UDP 0x0100000a FIXED_IP_ADDR example_seg\<rparr>"

definition example_rx :: sock_store where
  "example_rx = example_udp\<lparr>skbs := [0 \<mapsto> example_in_skb], nxt := (\<lambda>_. None)(Receive_queue 5 := Some (Receive_queue 5)),
     prv := (\<lambda>_. None)(Receive_queue 5 := Some (Receive_queue 5)),
     udptable := (\<lambda>_. \<lparr>map_sk = None, map_used = False\<rparr>)(53 := \<lparr>map_sk = Some 5, map_used = True\<rparr>),
     inet_protos := [\<lparr>np_protocol = IPPROTO_UDP, np_handler = Udp_rcv\<rparr>]\<rparr>"

definition example_transport :: sock_store where
  "example_transport = example_rx\<lparr>skbs := [0 \<mapsto> local_skb 20 7 example_in_skb]\<rparr>"

definition example_user :: msghdr where
  "example_user = \<lparr>msg_name = Some \<lparr>sin_family = 0, sin_port = 0, sin_addr = 0\<rparr>, msg_namelen = 128,
     msg_iov = \<lparr>iov_base = [0, 0, 0, 0], iov_len = 4\<rparr>, msg_iovlen = 1\<rparr>"

lemma example_rx_facts:
  "accepts_local example_rx 0 example_in_skb 1 example_ifdev" "window example_in_skb = ip_datagram 17 0x0100000a FIXED_IP_ADDR example_seg @ []"
  "wf_skb example_in_skb" "fib_rep example_rx example_local example_main"
  "fib_route example_local example_main FIXED_IP_ADDR = Some (32, ifa_alias RTN_LOCAL example_ifa 1 example_ifdev)"
  "find_protocol IPPROTO_UDP (inet_protos example_rx) = Some Udp_rcv" "port_owner example_rx 53 = Some 5"
  "queue_rep example_rx (Receive_queue 5) []"
  using example_routed_rep
  by (simp_all add: accepts_local_def example_rx_def example_udp_def example_send_def example_in_skb_def wf_skb_def zero_skb_def
      example_seg_def ip_datagram_nth mem_ok_def example_env_def window_def get_bytes_def fib_rep_def fib_route_def example_local_def
      port_owner_def queue_rep_def)

lemma ntohs_domain: "unat (ntohs (0x3500 :: u16)) = 53"
  by (simp add: ntohs_def htons_def)


lemma example_transport_facts:
  "skbs example_transport 0 = Some (local_skb 20 7 example_in_skb)" "transport_skb (local_skb 20 7 example_in_skb) 0"
  "window (local_skb 20 7 example_in_skb) = example_seg" "udp_owner example_transport example_seg = Some 5"
  "queue_rep example_transport (Receive_queue 5) []"
proof -
  have n: "20 \<le> unat (skb_len example_in_skb)" "nh_raw example_in_skb = Some (skb_data example_in_skb)" "skb_data example_in_skb = 0"
    by (simp_all add: example_in_skb_def zero_skb_def)
  note l = local_skb_simps [OF example_rx_facts(3) order_refl n(1,2), of 7]
  show "transport_skb (local_skb 20 7 example_in_skb) 0" using l(1) n(3) by simp
  show "window (local_skb 20 7 example_in_skb) = example_seg"
    using l(2) ip_datagram_fields(5) [of 17 "0x0100000a" FIXED_IP_ADDR example_seg "[]"] unfolding example_rx_facts(2) by simp
  have "port_owner example_transport 53 = Some 5" using example_rx_facts(7) by (simp add: port_owner_def example_transport_def split: if_splits)
  moreover have "ld16 example_seg 2 = 0x3500" using udp_segment_fields(2) [of _ _ _ _ _ "[]"] by (simp add: example_seg_def)
  ultimately show "udp_owner example_transport example_seg = Some 5" by (simp add: udp_owner_def ntohs_domain) (simp add: example_seg_def)
qed (use example_rx_facts(8) in \<open>simp_all add: example_transport_def queue_rep_def\<close>)

theorem udp_rcv_delivers_witness:
  "wp (udp_rcv 0) (\<lambda>rc t. rc = 0 \<and> queue_rep t (Receive_queue 5) [0]) example_transport"
proof -
  note f = example_transport_facts
  have "queue_rep example_transport (Receive_queue sk) [] \<and> 0 \<notin> set ([] :: nat list)"
    if "udp_owner example_transport (window (local_skb 20 7 example_in_skb)) = Some sk" for sk
    using that f by simp
  from udp_rcv_delivers [where xs = "\<lambda>_. []", OF f(1,2) this] show ?thesis
    by (rule wp_mono) (auto simp: f)
qed

end
