(* ===== verification/Inet_Socket.thy ===== *)
theory Inet_Socket
  imports Ip_Input
begin

text \<open>
  The socket interface: the system calls of \<^verbatim>\<open>core/socket.c\<close> and the internet family of
  \<^verbatim>\<open>ipv4/af_inet.c\<close> behind them. A descriptor is an index of \<open>socket_maps\<close>.
\<close>

section \<open>Binding and sending\<close>

definition call_get_port :: "proto_ptr \<Rightarrow> nat \<Rightarrow> u16 \<Rightarrow> ('z sock_store_scheme, int) comp" where
  "call_get_port prot sk snum = bindM (nonnull (prot_get_port (proto_at prot))) (\<lambda>f.
     case f of Udp_v4_get_port \<Rightarrow> udp_v4_get_port sk snum)"

definition inet_autobind :: "nat \<Rightarrow> ('z sock_store_scheme, int) comp" where
  "inet_autobind sk =
     bindM (get_sock sk) (\<lambda>inet.
     if inet_num inet = 0 then
       bindM (call_get_port (sk_prot inet) sk 0) (\<lambda>err.
       if err \<noteq> 0 then returnM (-1)
       else bindM (upd_sock sk (\<lambda>x. x\<lparr>inet_sport := htons (inet_num x)\<rparr>)) (\<lambda>_. returnM 0))
     else returnM 0)"

definition inet_sendmsg :: "nat \<Rightarrow> msghdr \<Rightarrow> u32 \<Rightarrow> ('z sock_store_scheme, int) comp" where
  "inet_sendmsg sock msg len =
     bindM (get_socket sock) (\<lambda>so.
     bindM (nonnull (socket_sk so)) (\<lambda>sk.
     bindM (get_sock sk) (\<lambda>x.
     bindM (if inet_num x = 0 then inet_autobind sk else returnM 0) (\<lambda>err.
     if err \<noteq> 0 then returnM (-1)
     else bindM (nonnull (prot_sendmsg (proto_at (sk_prot x)))) (\<lambda>f. case f of Udp_sendmsg \<Rightarrow> udp_sendmsg sk msg len)))))"

definition inet_bind :: "nat \<Rightarrow> sockaddr_in \<Rightarrow> int \<Rightarrow> ('z sock_store_scheme, int) comp" where
  "inet_bind sock addr addrlen =
     bindM (get_socket sock) (\<lambda>so.
     bindM (nonnull (socket_sk so)) (\<lambda>sk.
     let snum = ntohs (sin_port addr) in
     bindM (upd_sock sk (\<lambda>x. x\<lparr>inet_rcv_saddr := sin_addr addr, inet_saddr := sin_addr addr\<rparr>)) (\<lambda>_.
     bindM (get_sock sk) (\<lambda>x.
     bindM (call_get_port (sk_prot x) sk snum) (\<lambda>err.
     if err \<noteq> 0 then returnM (-1) else returnM 0)))))"

definition sock_common_recvmsg :: "nat \<Rightarrow> msghdr \<Rightarrow> int \<Rightarrow> ('z sock_store_scheme, int \<times> msghdr) comp" where
  "sock_common_recvmsg sock msg sz =
     bindM (get_socket sock) (\<lambda>so.
     bindM (nonnull (socket_sk so)) (\<lambda>sk.
     bindM (get_sock sk) (\<lambda>x.
     bindM (nonnull (prot_recvmsg (proto_at (sk_prot x)))) (\<lambda>f.
     bindM (case f of Udp_recvmsg \<Rightarrow> udp_recvmsg sk msg sz) (\<lambda>(err, msg).
     if err < 0 then returnM (-1, msg)
     else returnM (0, msg\<lparr>msg_namelen := 8\<rparr>))))))"

section \<open>Creating a socket\<close>

record inet_protosw =
  psw_type :: int
  psw_protocol :: int
  psw_prot :: proto_ptr
  psw_ops :: "proto_ops_ptr option"

definition inetsw_array :: "inet_protosw list" where
  "inetsw_array =
     [\<lparr>psw_type = SOCK_RAW, psw_protocol = IPPROTO_IP, psw_prot = Raw_prot, psw_ops = None\<rparr>,
      \<lparr>psw_type = SOCK_DGRAM, psw_protocol = IPPROTO_UDP, psw_prot = Udp_prot, psw_ops = Some Inet_dgram_ops\<rparr>]"

fun find_protosw :: "int \<Rightarrow> inet_protosw list \<Rightarrow> inet_protosw option" where
  "find_protosw protocol [] = None"
| "find_protosw protocol (a # as) = (if protocol = psw_protocol a then Some a else find_protosw protocol as)"

definition inet_create :: "nat \<Rightarrow> int \<Rightarrow> ('z sock_store_scheme, int) comp" where
  "inet_create sock protocol =
     (let answer = find_protosw protocol inetsw_array;
          answer = (if protocol = IPPROTO_ICMP then Some (hd inetsw_array) else answer) in
      case answer of
        None \<Rightarrow> returnM (-1)
      | Some a \<Rightarrow>
          bindM (upd_socket sock (\<lambda>x. x\<lparr>sock_ops := psw_ops a\<rparr>)) (\<lambda>_.
          bindM (sk_alloc PF_INET (psw_prot a)) (\<lambda>p.
          bindM (nonnull p) (\<lambda>sk.
          bindM (upd_sock sk (\<lambda>x. x\<lparr>inet_id := 0\<rparr>)) (\<lambda>_.
          bindM (sock_init_data (Some sock) sk) (\<lambda>_.
          bindM (upd_sock sk (\<lambda>x. x\<lparr>sk_family := word_of_int PF_INET,
            sk_protocol := word_of_int protocol\<rparr>)) (\<lambda>_.
          returnM 0)))))))"

definition sock_alloc :: "('z sock_store_scheme, nat option) comp" where
  "sock_alloc = bindM malloc (\<lambda>p. case p of
       None \<Rightarrow> returnM None
     | Some k \<Rightarrow>
         bindM (modifyM (\<lambda>s. s\<lparr>sockets := (sockets s)(k \<mapsto>
           \<lparr>sock_ops = None, socket_sk = None, sock_type = 0\<rparr>)\<rparr>)) (\<lambda>_.
         returnM (Some k)))"

text \<open>\<open>Some sock\<close>: the function returns 0 and stores the socket; \<open>None\<close>: it returns -1.\<close>

definition sock_create :: "int \<Rightarrow> int \<Rightarrow> int \<Rightarrow> ('z sock_store_scheme, nat option) comp" where
  "sock_create family type protocol =
     (if family < 0 \<or> family \<ge> NPROTO then returnM None
      else if type < 0 \<or> type \<ge> SOCK_MAX then returnM None
      else
        bindM sock_alloc (\<lambda>p. case p of
            None \<Rightarrow> returnM None
          | Some sock \<Rightarrow>
              bindM (upd_socket sock (\<lambda>x. x\<lparr>sock_type := type\<rparr>)) (\<lambda>_.
              bindM (getsM (\<lambda>s. net_families s (nat family))) (\<lambda>pf. case pf of
                  None \<Rightarrow> returnM None
                | Some ops \<Rightarrow>
                    bindM (nonnull (pf_create (family_at ops))) (\<lambda>f.
                    bindM (case f of Inet_create \<Rightarrow> inet_create sock protocol) (\<lambda>err.
                    if err < 0 then returnM None else returnM (Some sock)))))))"

definition sock_register :: "family_ptr \<Rightarrow> ('z sock_store_scheme, int) comp" where
  "sock_register ops =
     (let family = pf_family (family_at ops) in
      if family \<ge> NPROTO then returnM (-1)
      else
        bindM (getsM (\<lambda>s. net_families s (nat family))) (\<lambda>pf.
        if pf \<noteq> None then returnM (-1)
        else
          bindM (modifyM (\<lambda>s. s\<lparr>net_families := (net_families s)(nat family := Some ops)\<rparr>)) (\<lambda>_.
          returnM 0)))"

section \<open>System calls\<close>

definition sys_socket :: "int \<Rightarrow> int \<Rightarrow> int \<Rightarrow> ('z sock_store_scheme, int) comp" where
  "sys_socket family type protocol =
     bindM (sock_create family type protocol) (\<lambda>p. case p of
         None \<Rightarrow> returnM (-1)
       | Some sock \<Rightarrow>
           bindM (getsM socket_maps) (\<lambda>maps.
           let fd = first_unused maps 0 MAXSOCKETNUM in
           if fd = MAXSOCKETNUM then returnM (-1)
           else
             bindM (modifyM (\<lambda>s. s\<lparr>socket_maps := (socket_maps s)(fd :=
               \<lparr>map_sk = Some sock, map_used = True\<rparr>)\<rparr>)) (\<lambda>_.
             returnM (int fd))))"

definition sock_from_fd :: "int \<Rightarrow> ('z sock_store_scheme, nat option) comp" where
  "sock_from_fd fd = bindM (read_map socket_maps fd) (\<lambda>m.
     returnM (if map_used m then map_sk m else None))"

definition sock_sendmsg :: "nat \<Rightarrow> msghdr \<Rightarrow> u32 \<Rightarrow> ('z sock_store_scheme, int) comp" where
  "sock_sendmsg sock msg len = bindM (get_socket sock) (\<lambda>so.
     bindM (nonnull (sock_ops so)) (\<lambda>ops.
     bindM (nonnull (ops_sendmsg (proto_ops_at ops))) (\<lambda>f. case f of Inet_sendmsg \<Rightarrow> inet_sendmsg sock msg len)))"

definition sys_sendto :: "int \<Rightarrow> u8 list \<Rightarrow> u32 \<Rightarrow> sockaddr_in option \<Rightarrow> int \<Rightarrow> ('z sock_store_scheme, int) comp" where
  "sys_sendto fd buff len addr alen =
     bindM (sock_from_fd fd) (\<lambda>p. case p of
         None \<Rightarrow> returnM (-1)
       | Some sock \<Rightarrow>
           let iov = \<lparr>iov_base = buff, iov_len = ucast len\<rparr>;
               msg = (case addr of
                   None \<Rightarrow> \<lparr>msg_name = None, msg_namelen = 0, msg_iov = iov, msg_iovlen = 1\<rparr>
                 | Some a \<Rightarrow> \<lparr>msg_name = Some a, msg_namelen = alen, msg_iov = iov, msg_iovlen = 1\<rparr>) in
           bindM (sock_sendmsg sock msg len) (\<lambda>err.
           if err \<noteq> 0 then returnM (-1) else returnM 0))"

definition sock_recvmsg :: "nat \<Rightarrow> msghdr \<Rightarrow> int \<Rightarrow> ('z sock_store_scheme, int \<times> msghdr) comp" where
  "sock_recvmsg sock msg sz = bindM (get_socket sock) (\<lambda>so.
     bindM (nonnull (sock_ops so)) (\<lambda>ops.
     bindM (nonnull (ops_recvmsg (proto_ops_at ops))) (\<lambda>f. case f of Sock_common_recvmsg \<Rightarrow> sock_common_recvmsg sock msg sz)))"

text \<open>
  The result is the return value and the contents of the user's buffer afterwards. The address
  of the sender goes to a local array and is not passed on.
\<close>

definition sys_recvfrom :: "int \<Rightarrow> u8 list \<Rightarrow> int \<Rightarrow> ('z sock_store_scheme, int \<times> u8 list) comp" where
  "sys_recvfrom fd ubuf sz =
     bindM (sock_from_fd fd) (\<lambda>p. case p of
         None \<Rightarrow> returnM (-1, ubuf)
       | Some sock \<Rightarrow>
           let msg = \<lparr>msg_name = Some \<lparr>sin_family = 0, sin_port = 0, sin_addr = 0\<rparr>,
             msg_namelen = MAX_SOCK_ADDR,
             msg_iov = \<lparr>iov_base = ubuf, iov_len = word_of_int sz\<rparr>, msg_iovlen = 1\<rparr> in
           bindM (sock_recvmsg sock msg sz) (\<lambda>(err, msg).
           if err < 0 then returnM (-1, iov_base (msg_iov msg)) else returnM (0, iov_base (msg_iov msg))))"

definition sys_recv :: "int \<Rightarrow> u8 list \<Rightarrow> int \<Rightarrow> ('z sock_store_scheme, int \<times> u8 list) comp" where
  "sys_recv fd ubuf sz = sys_recvfrom fd ubuf sz"

definition sys_bind :: "int \<Rightarrow> sockaddr_in \<Rightarrow> int \<Rightarrow> ('z sock_store_scheme, int) comp" where
  "sys_bind fd addr addrlen =
     bindM (sock_from_fd fd) (\<lambda>p. case p of
         None \<Rightarrow> returnM (-1)
       | Some sock \<Rightarrow>
           bindM (get_socket sock) (\<lambda>so.
           bindM (nonnull (sock_ops so)) (\<lambda>ops.
           bindM (nonnull (ops_bind (proto_ops_at ops))) (\<lambda>f.
           bindM (case f of Inet_bind \<Rightarrow> inet_bind sock addr addrlen) (\<lambda>err.
           if err \<noteq> 0 then returnM (-1) else returnM 0)))))"

end
