(* ===== verification/Stack.thy ===== *)
theory Stack
  imports Inet_Socket
begin

text \<open>
  The stack as a whole: the receive entry points of \<^verbatim>\<open>core/dev.c\<close> and \<^verbatim>\<open>driver/ethernet.c\<close>, the
  initialisation of \<^verbatim>\<open>ipv4/af_inet.c\<close>, \<^verbatim>\<open>ipv4/icmp.c\<close>, \<^verbatim>\<open>ipv4/arp.c\<close>, \<^verbatim>\<open>driver/ethernet.c\<close> and
  \<^verbatim>\<open>main/main.c\<close>, and the steps of the running program.
\<close>

section \<open>Receiving a frame\<close>

definition call_packet_fn :: "packet_fn \<Rightarrow> nat \<Rightarrow> nat option \<Rightarrow> ('z sock_store_scheme, int) comp" where
  "call_packet_fn f skb dev = (case f of
       Ip_rcv \<Rightarrow> ip_rcv skb
     | Arp_rcv \<Rightarrow> bindM (nonnull dev) (\<lambda>d. arp_rcv skb d))"

fun find_ptype :: "u16 \<Rightarrow> nat option \<Rightarrow> packet_type list \<Rightarrow> packet_fn option" where
  "find_ptype type dev [] = None"
| "find_ptype type dev (p # ps) =
     (if pt_type p = type \<and> (pt_dev p = None \<or> pt_dev p = dev) then Some (pt_func p)
      else find_ptype type dev ps)"

definition netif_receive_skb :: "nat \<Rightarrow> ('z sock_store_scheme, int) comp" where
  "netif_receive_skb skb =
     bindM (upd_skb skb (\<lambda>b. if input_dev b = None then b\<lparr>input_dev := skb_dev b\<rparr> else b)) (\<lambda>_.
     bindM (get_skb skb) (\<lambda>b.
     bindM (case mac_raw b of None \<Rightarrow> failM Bad_pointer | Some m \<Rightarrow> returnM m) (\<lambda>mac.
     bindM (upd_skb skb (\<lambda>b. b\<lparr>nh_raw := Some (skb_data b), h_raw := Some (skb_data b),
       mac_len := word_of_int (skb_data b - mac)\<rparr>)) (\<lambda>_.
     bindM (getsM ptype_base) (\<lambda>pts.
     bindM (case find_ptype (skb_protocol b) (skb_dev b) pts of
         Some f \<Rightarrow> call_packet_fn f skb (skb_dev b)
       | None \<Rightarrow> returnM NET_RX_DROP) (\<lambda>ret.
     if ret = NET_RX_DROP then bindM (kfree_skb skb) (\<lambda>_. returnM ret)
     else returnM ret))))))"

definition netif_rx :: "nat \<Rightarrow> ('z sock_store_scheme, int) comp" where
  "netif_rx skb = netif_receive_skb skb"

text \<open>
  One round of the receive loop. The argument is what \<^verbatim>\<open>read\<close> on the tap device delivers: an
  error, or a frame, of which at most the size of the local buffer is read.
\<close>

definition ether_rx :: "nat \<Rightarrow> u8 list option \<Rightarrow> ('z sock_store_scheme, unit) comp" where
  "ether_rx dev input = (case input of
       None \<Rightarrow> returnM ()
     | Some frame \<Rightarrow>
         let buff = take (ETH_HLEN + ETH_DATA_LEN) frame; len = length buff in
         if len < ETH_HLEN then returnM ()
         else
           bindM (dev_alloc_skb (of_nat len)) (\<lambda>p. case p of
               None \<Rightarrow> returnM ()
             | Some skb \<Rightarrow>
                 bindM (on_skb skb (skb_put (of_nat len))) (\<lambda>to.
                 bindM (nonnull to) (\<lambda>to.
                 bindM (store_bytes skb to buff) (\<lambda>_.
                 bindM (upd_skb skb (\<lambda>b. b\<lparr>skb_dev := Some dev\<rparr>)) (\<lambda>_.
                 bindM (eth_type_trans skb dev) (\<lambda>type.
                 bindM (upd_skb skb (\<lambda>b. b\<lparr>skb_protocol := type\<rparr>)) (\<lambda>_.
                 bindM (netif_rx skb) (\<lambda>_.
                 returnM ())))))))))"

section \<open>Initialisation\<close>

definition arp_packet_type :: packet_type where
  "arp_packet_type = \<lparr>pt_type = htons ETH_P_ARP, pt_dev = None, pt_func = Arp_rcv\<rparr>"

definition ip_packet_type :: packet_type where
  "ip_packet_type = \<lparr>pt_type = htons ETH_P_IP, pt_dev = None, pt_func = Ip_rcv\<rparr>"

definition icmp_protocol :: net_protocol where
  "icmp_protocol = \<lparr>np_protocol = IPPROTO_ICMP, np_handler = Icmp_rcv\<rparr>"

definition udp_protocol :: net_protocol where
  "udp_protocol = \<lparr>np_protocol = IPPROTO_UDP, np_handler = Udp_rcv\<rparr>"

definition arp_init :: "('z sock_store_scheme, unit) comp" where
  "arp_init = bindM (neigh_table_init Arp_tbl) (\<lambda>_. dev_add_pack arp_packet_type)"

definition icmp_init :: "('z sock_store_scheme, unit) comp" where
  "icmp_init = bindM (sock_create PF_INET SOCK_RAW IPPROTO_ICMP) (\<lambda>p. case p of
       None \<Rightarrow> returnM ()
     | Some sock \<Rightarrow> modifyM (\<lambda>s. s\<lparr>icmp_socket := Some sock\<rparr>))"

definition inet_init :: "('z sock_store_scheme, int) comp" where
  "inet_init =
     bindM (sock_register Inet_family_ops) (\<lambda>_.
     bindM (inet_add_protocol icmp_protocol IPPROTO_ICMP) (\<lambda>_.
     bindM (inet_add_protocol udp_protocol IPPROTO_UDP) (\<lambda>_.
     bindM arp_init (\<lambda>_.
     bindM ip_init (\<lambda>_.
     bindM icmp_init (\<lambda>_.
     bindM (dev_add_pack ip_packet_type) (\<lambda>_.
     returnM 0)))))))"

definition ether_init_module :: "('z sock_store_scheme, int) comp" where
  "ether_init_module =
     bindM (alloc_netdev ''eth0'' ether_setup) (\<lambda>p. case p of
         None \<Rightarrow> returnM (-1)
       | Some dev \<Rightarrow>
           bindM (register_netdevice dev) (\<lambda>ret.
           if ret \<noteq> 0 then returnM (-1)
           else bindM (config_netdevice dev) (\<lambda>ret.
             if ret \<noteq> 0 then returnM (-1)
             else bindM (fib_netdev_event NETDEV_UP dev) (\<lambda>ret.
               if ret \<noteq> 0 then returnM (-1) else returnM 0))))"

text \<open>\<^verbatim>\<open>main\<close> up to its receive loop, after the tap device has been opened.\<close>

definition main_init :: "('z sock_store_scheme, int) comp" where
  "main_init =
     bindM inet_init (\<lambda>r.
     if r \<noteq> 0 then returnM (-1)
     else bindM ether_init_module (\<lambda>r. if r \<noteq> 0 then returnM (-1) else returnM 0))"

text \<open>The static data of the program before \<^verbatim>\<open>main\<close> runs.\<close>

definition boot_state :: "os_env \<Rightarrow> sock_store" where
  "boot_state e = \<lparr>os = e, brk = 0, skbs = Map.empty, nxt = (\<lambda>_. None), prv = (\<lambda>_. None), qlen = (\<lambda>_. 0),
     devs = Map.empty, in_devs = Map.empty, dev_base = None, last_ifindex = 0, ptype_base = [],
     tap_out = [], rtables = Map.empty, neighs = Map.empty, ntables = (\<lambda>_. arp_tbl),
     neigh_tables = [], ip_fib_local_table = None, ip_fib_main_table = None, socks = Map.empty,
     sockets = Map.empty, net_families = (\<lambda>_. None),
     socket_maps = (\<lambda>_. \<lparr>map_sk = None, map_used = False\<rparr>),
     udptable = (\<lambda>_. \<lparr>map_sk = None, map_used = False\<rparr>), icmp_socket = None, inet_protos = []\<rparr>"

end
