(* ===== verification/Link_Layer.thy ===== *)
theory Link_Layer
  imports Ip_Output
begin

text \<open>
  The invariant of the link layer: memory, devices, routes and the neighbour cache with the queues
  of all its neighbours, and that routing and address resolution keep it.
\<close>

section \<open>Neighbours\<close>

text \<open>A neighbour in some state of address resolution.\<close>

definition neigh_ok :: "'z neigh_store_scheme \<Rightarrow> nat \<Rightarrow> nat \<Rightarrow> net_device \<Rightarrow> bool" where
  "neigh_ok s n d nd \<longleftrightarrow> (\<exists>before r. resolver_rep s n d nd before r)"

lemma neigh_ok_iff:
  "neigh_ok s n d nd \<longleftrightarrow> (\<exists>x xs bs. neighs s n = Some x \<and> arp_neigh x \<and> neigh_dev x = Some d \<and>
     devs s d = Some nd \<and> eth_dev nd \<and> nud_state x \<in> {NUD_NONE, NUD_INCOMPLETE, NUD_REACHABLE} \<and>
     queue_rep s (Arp_queue n) xs \<and> (\<forall>i \<in> set xs. out_ready s i (bs i) n x d nd))" (is "_ \<longleftrightarrow> ?R")
proof
  show "neigh_ok s n d nd \<Longrightarrow> ?R" by (auto simp: neigh_ok_def resolver_rep_def)
next
  assume ?R
  then obtain x xs bs where x: "neighs s n = Some x" "arp_neigh x" "neigh_dev x = Some d"
     "devs s d = Some nd" "eth_dev nd" "nud_state x \<in> {NUD_NONE, NUD_INCOMPLETE, NUD_REACHABLE}"
     "queue_rep s (Arp_queue n) xs" "\<forall>i \<in> set xs. out_ready s i (bs i) n x d nd" by blast
  have "resolver_rep s n d nd (tap_out s) \<lparr>phase = phase_of x, waiting = map (\<lambda>i. packet_of (bs i)) xs, wire = []\<rparr>"
    unfolding resolver_rep_def using x by (intro exI [of _ x] exI [of _ xs] exI [of _ bs]) simp
  then show "neigh_ok s n d nd" by (auto simp: neigh_ok_def)
qed

lemma neigh_ok_frame:
  assumes "neigh_ok s n d nd" "neighs t n = neighs s n" "devs t = devs s" "rtables s \<subseteq>\<^sub>m rtables t" "mem_frame Q I s t"
    "Arp_queue n \<notin> Q" "\<And>xs. queue_rep s (Arp_queue n) xs \<Longrightarrow> set xs \<inter> I = {}"
  shows "neigh_ok t n d nd"
proof -
  from assms(1) obtain x xs bs where x: "neighs s n = Some x" "arp_neigh x" "neigh_dev x = Some d"
     "devs s d = Some nd" "eth_dev nd" "nud_state x \<in> {NUD_NONE, NUD_INCOMPLETE, NUD_REACHABLE}"
     "queue_rep s (Arp_queue n) xs" "\<forall>i \<in> set xs. out_ready s i (bs i) n x d nd" unfolding neigh_ok_iff by blast
  have "queue_rep t (Arp_queue n) xs" using assms(5,6) x(7) assms(7) [OF x(7)] by (auto simp: mem_frame_def)
  moreover have "out_ready t i (bs i) n x d nd" if "i \<in> set xs" for i
  proof -
    have i: "out_ready s i (bs i) n x d nd" using x(8) that by blast
    then have "skbs t i = skbs s i" using assms(5,7) x(7) that unfolding mem_frame_def out_ready_def by blast
    then show ?thesis using i assms(2-4) unfolding out_ready_def map_le_def by (metis domI)
  qed
  ultimately show ?thesis unfolding neigh_ok_iff using x assms(2,3) by metis
qed

section \<open>The invariant\<close>

text \<open>
  Memory is never exhausted and comes zeroed; all allocated objects lie below the break; device \<open>d\<close>
  is an Ethernet device with an address; every neighbour in the cache is well formed.
\<close>

definition link_inv :: "nat \<Rightarrow> net_device \<Rightarrow> 'z neigh_store_scheme \<Rightarrow> bool" where
  "link_inv d nd s \<longleftrightarrow> mem_ok s \<and> (\<forall>k. malloc_ptr (os s) k = None) \<and> heap_ok s \<and> (\<forall>r. rtables s r \<noteq> None \<longrightarrow> r < brk s) \<and>
     dev_base s = Some d \<and> devs s d = Some nd \<and> eth_dev nd \<and> ip_ptr nd \<noteq> None \<and> neigh_inv s \<and>
     (\<forall>n \<in> set (buckets (ntables s Arp_tbl)). neigh_ok s n d nd)"

lemma link_inv_frame:
  assumes "link_inv d nd s" "mem_frame Q I s t" "\<And>n. Arp_queue n \<notin> Q"
    "\<And>n xs. queue_rep s (Arp_queue n) xs \<Longrightarrow> set xs \<inter> I = {}"
    "devs t = devs s" "dev_base t = dev_base s" "neighs t = neighs s" "ntables t = ntables s" "rtables s \<subseteq>\<^sub>m rtables t" "\<And>r. rtables t r \<noteq> None \<Longrightarrow> r < brk t"
  shows "link_inv d nd t"
proof -
  have "neigh_inv t" using assms unfolding link_inv_def neigh_inv_def mem_frame_def by (metis order_less_le_trans)
  moreover have "neigh_ok t n d nd" if "n \<in> set (buckets (ntables t Arp_tbl))" for n
    using assms that by (intro neigh_ok_frame [of s n d nd t Q I]) (auto simp: link_inv_def)
  ultimately show ?thesis using assms by (auto simp: link_inv_def mem_frame_def mem_ok_def)
qed

lemma link_inv_change:
  assumes "link_inv d nd s" and t: "mem_frame (insert (Arp_queue n) Q) I s t" "devs t = devs s" "dev_base t = dev_base s" "rtables t = rtables s"
      "ntables t = ntables s" "\<And>m. m \<noteq> n \<Longrightarrow> neighs t m = neighs s m"
    and "\<And>m. Arp_queue m \<notin> Q" "resolver_rep t n d nd before r"
    "\<And>m xs. m \<noteq> n \<Longrightarrow> queue_rep s (Arp_queue m) xs \<Longrightarrow> set xs \<inter> I = {}"
  shows "link_inv d nd t"
proof -
  have n: "neigh_ok t n d nd" using assms(9) by (auto simp: neigh_ok_def)
  have ok: "neigh_ok t m d nd" if "m \<in> set (buckets (ntables s Arp_tbl))" for m
  proof (cases "m = n")
    case False
    with t that assms show ?thesis by (intro neigh_ok_frame [OF _ _ _ _ t(1)]) (auto simp: link_inv_def)
  qed (use n in simp)
  then have "\<exists>x. neighs t m = Some x \<and> arp_neigh x" if "m \<in> set (buckets (ntables s Arp_tbl))" for m
    using that unfolding neigh_ok_iff by blast
  moreover have "brk s \<le> brk t" using t(1) by (simp add: mem_frame_def)
  ultimately have "neigh_inv t"
    using assms(1) t(5) unfolding link_inv_def neigh_inv_def by (metis order_less_le_trans)
  moreover have "\<forall>r. rtables t r \<noteq> None \<longrightarrow> r < brk t"
    using assms(1) t(4) \<open>brk s \<le> brk t\<close> unfolding link_inv_def by (metis order_less_le_trans)
  ultimately show ?thesis using assms(1) t ok by (auto simp: link_inv_def mem_frame_def mem_ok_def)
qed

lemma link_inv_output:
  assumes "link_inv d nd s" "output_frame Q n I s t" "\<And>m. Arp_queue m \<notin> Q" "resolver_rep t n d nd before r"
    "\<And>m xs. m \<noteq> n \<Longrightarrow> queue_rep s (Arp_queue m) xs \<Longrightarrow> set xs \<inter> I = {}"
  shows "link_inv d nd t"
  using assms(2) by (intro link_inv_change [OF assms(1) _ _ _ _ _ _ assms(3-5)]) (simp_all add: output_frame_def)

lemma link_inv_send:
  assumes "link_inv d nd s" "send_frame sk x n s t" "resolver_rep t n d nd before r"
  shows "link_inv d nd t"
  using assms(2) by (intro link_inv_change [where Q = "{Write_queue sk}" and I = "{}", OF assms(1) _ _ _ _ _ _ _ assms(3)])
    (simp_all add: send_frame_def)

section \<open>Creating neighbours and routes\<close>

lemma create_state_frame: "mem_frame {Arp_queue (brk s)} I s (create_state key d s)"
proof -
  have "queue_rep (create_state key d s) q ys" if "q \<noteq> Arp_queue (brk s)" "queue_rep s q ys" for q ys
    by (rule queue_rep_frame [OF that(2)]) (use that in \<open>auto simp: create_state_def queue_rep_def\<close>)
  then show ?thesis by (auto simp: mem_frame_def heap_ok_def create_state_def less_Suc_eq)
qed

lemma link_inv_create:
  assumes "link_inv d nd s" "length key = 4"
  shows "link_inv d nd (create_state key d s)"
proof -
  let ?t = "create_state key d s"
  have "neigh_ok ?t (brk s) d nd"
    unfolding neigh_ok_iff using assms
    by (intro exI [of _ "new_neigh key d"] exI [of _ "[]"]) (auto simp: link_inv_def create_state_def new_neigh_def arp_neigh_def queue_rep_def)
  moreover have "neigh_ok ?t n d nd" if "n \<in> set (buckets (ntables s Arp_tbl))" for n
  proof -
    have "n \<noteq> brk s" using assms(1) that by (auto simp: link_inv_def neigh_inv_def)
    then show ?thesis
      using assms(1) that by (intro neigh_ok_frame [OF _ _ _ _ create_state_frame [of s "{}"]]) (auto simp: link_inv_def)
  qed
  ultimately show ?thesis
    using assms create_state_frame [of s "{}" key d] neigh_inv_create_state [of s key d]
    by (auto simp: link_inv_def mem_frame_def mem_ok_def less_Suc_eq)
qed

lemma link_inv_brk: "link_inv d nd s \<Longrightarrow> link_inv d nd (s\<lparr>brk := brk s + 1\<rparr>)"
  by (rule link_inv_frame [where s = s and Q = "{}" and I = "{}"])
    (auto simp: link_inv_def less_Suc_eq intro: mem_frame_same)

lemma link_inv_bind:
  assumes "link_inv d nd s" "length key = 4"
  shows "link_inv d nd (bind_state key d s)"
  using assms link_inv_create by (auto simp: bind_state_def split: option.split)

lemma link_inv_rtables:
  assumes "link_inv d nd s" "rtables s r = None" "r < brk s"
  shows "link_inv d nd (s\<lparr>rtables := (rtables s)(r \<mapsto> ro)\<rparr>)"
  using assms by (intro link_inv_frame [OF assms(1), where Q = "{}" and I = "{}"])
    (auto simp: link_inv_def map_le_def intro: mem_frame_same split: if_splits)

lemma link_inv_fresh_rt: "link_inv d nd s \<Longrightarrow> rtables s (brk s) = None"
  unfolding link_inv_def by (metis less_irrefl)

lemma bind_state_rtables [simp]: "rtables (bind_state key d s) = rtables s" "brk s \<le> brk (bind_state key d s)"
  by (simp_all add: bind_state_def split: option.split)

lemma link_inv_routed:
  assumes "link_inv d nd s"
  shows "link_inv d nd (routed_state fl fi type d nd s)"
proof -
  let ?s = "bind_state (bytes32 (fl4_dst fl)) d (s\<lparr>brk := brk s + 1\<rparr>)"
  have "link_inv d nd ?s" using assms by (intro link_inv_bind link_inv_brk) simp_all
  moreover have "rtables ?s (brk s) = None" using link_inv_fresh_rt [OF assms] by simp
  moreover have "brk s < brk ?s" using bind_state_rtables(2) [of "s\<lparr>brk := brk s + 1\<rparr>"] by (simp add: Suc_le_eq)
  ultimately show ?thesis using link_inv_rtables [of d nd ?s "brk s"] by (simp add: routed_state_def)
qed

lemma neigh_find_in: "neigh_find s k = Some n \<Longrightarrow> n \<in> set (buckets (ntables s Arp_tbl))"
  by (auto simp: neigh_find_def dest: find_Some_in)

lemma link_inv_peer:
  assumes "link_inv d nd s"
  obtains before r where "peer_rep s ip d nd before r"
proof (cases "neigh_find s (bytes32 ip, d)")
  case None
  with assms that show ?thesis by (auto simp: peer_rep_def link_inv_def)
next
  case (Some n)
  then have "neigh_ok s n d nd" using assms neigh_find_in [OF Some] by (auto simp: link_inv_def)
  with Some that show ?thesis by (auto simp: peer_rep_def neigh_ok_def)
qed

lemma routed_state_frame:
  "mem_frame {Arp_queue (brk s + 1)} I s (routed_state fl fi type d nd s)"
proof -
  let ?k = "bytes32 (fl4_dst fl)" and ?s = "s\<lparr>brk := brk s + 1\<rparr>"
  have "mem_frame {Arp_queue (brk s + 1)} I s ?s" by (rule mem_frame_same) simp_all
  moreover have "mem_frame {Arp_queue (brk s + 1)} I ?s (bind_state ?k d ?s)"
    using create_state_frame [of ?s I ?k d] by (auto simp: bind_state_def intro: mem_frame_same split: option.split)
  moreover have "mem_frame {Arp_queue (brk s + 1)} I (bind_state ?k d ?s) (routed_state fl fi type d nd s)"
    unfolding routed_state_def by (rule mem_frame_same) simp_all
  ultimately show ?thesis by (blast intro: mem_frame_trans)
qed

text \<open>Routes of the host lead through the device, and its own address is local.\<close>

definition routes_ok :: "nat \<Rightarrow> 'z fib_store_scheme \<Rightarrow> bool" where
  "routes_ok d s \<longleftrightarrow> (\<exists>lcl mn. fib_rep s lcl mn \<and> (\<forall>dst l fa. fib_route lcl mn dst = Some (l, fa) \<longrightarrow>
     (\<exists>fi. fa_info fa = Some fi \<and> nh_dev (fib_nh0 fi) = Some d)) \<and>
     (\<exists>l fa. fib_route lcl mn FIXED_IP_ADDR = Some (l, fa) \<and> fa_type fa = RTN_LOCAL))"

lemma ip_route_output_inv:
  assumes "link_inv d nd s" "routes_ok d s" "fl_iif fl = 0"
  shows "wp (ip_route_output_flow fl) (\<lambda>r t. (r = None \<and> t = s) \<or>
    (\<exists>fi type. r = Some (brk s) \<and> t = routed_state fl fi type d nd s)) s"
proof -
  obtain lcl mn where fib: "fib_rep s lcl mn" "\<forall>dst l fa. fib_route lcl mn dst = Some (l, fa) \<longrightarrow>
     (\<exists>fi. fa_info fa = Some fi \<and> nh_dev (fib_nh0 fi) = Some d)" using assms(2) by (auto simp: routes_ok_def)
  show ?thesis
  proof (cases "fib_route lcl mn (fl4_dst fl)")
    case None
    then have "fib_lookup fl s = Inr (None, s)" using fib_lookup_rep [OF fib(1), of fl] by simp
    then show ?thesis
      by (simp add: wp_def ip_route_output_flow_def ip_route_output_key_def ip_route_output_slow_def comp_simps)
  next
    case (Some p)
    obtain l fa where p: "p = (l, fa)" by (cases p)
    with Some fib(2) obtain fi where fi: "fa_info fa = Some fi" "nh_dev (fib_nh0 fi) = Some d" by blast
    from assms(1) have "devs s d = Some nd" "ip_ptr nd \<noteq> None" "mem_ok s" "malloc_ptr (os s) (brk s) = None" "neigh_inv s"
      by (simp_all add: link_inv_def)
    from ip_route_output_routed [OF fib(1) _ fi this assms(3)] Some p show ?thesis by (auto simp: wp_def)
  qed
qed

section \<open>Learning an address\<close>

lemma neigh_update_inv:
  assumes "link_inv d nd s" "n \<in> set (buckets (ntables s Arp_tbl))" "6 \<le> length a"
  shows "wp (neigh_update n (Some a) NUD_REACHABLE) (\<lambda>rc t. link_inv d nd t \<and>
    (\<exists>xs. queue_rep s (Arp_queue n) xs \<and> output_frame {} n (set xs) s t)) s"
proof -
  obtain before r where r: "resolver_rep s n d nd before r" using assms(1,2) by (auto simp: link_inv_def neigh_ok_def)
  show ?thesis
  proof (rule wp_mono [OF neigh_update_step [OF r assms(3)]], elim conjE exE)
    fix rc t xs r' assume t: "queue_rep s (Arp_queue n) xs" "output_frame {} n (set xs) s t" "resolver_rep t n d nd before r'"
    have "link_inv d nd t"
      using queue_rep_disjoint [OF t(1)] by (intro link_inv_output [OF assms(1) t(2) _ t(3)]) auto
    with t show "link_inv d nd t \<and> (\<exists>xs. queue_rep s (Arp_queue n) xs \<and> output_frame {} n (set xs) s t)" by blast
  qed
qed
end
