(* ===== verification/Host.thy ===== *)
theory Host
  imports Ip_Input
begin

text \<open>
  What the stack promises to the programs that use its sockets, with everything below the socket interface left out: a host has
  addresses, descriptors, ports and, for every socket, an inbox of the messages that wait to be read. \<open>host_step\<close> says how a frame from the
  wire and each system call change them and what the call returns. The later theories show that the stack implements it.
\<close>

section \<open>Hosts\<close>

text \<open>A message: the address of its sender, the port it was sent from, and the payload.\<close>

type_synonym message = "u32 \<times> u16 \<times> u8 list"

datatype descriptor = Closed | Raw_descriptor | Udp_descriptor nat

record host =
  addresses :: "u32 \<Rightarrow> bool"
  descriptors :: "nat \<Rightarrow> descriptor"
  ports :: "nat \<Rightarrow> nat option"
  inbox :: "nat \<Rightarrow> message list"

datatype event =
    Receive "u8 list option"
  | Socket int int int
  | Bind int sockaddr_in int
  | Sendto int "u8 list" nat sockaddr_in int
  | Recvfrom int "u8 list" int

text \<open>The socket that a frame has a message for, and the message.\<close>

definition segment_for :: "host \<Rightarrow> u8 list \<Rightarrow> (nat \<times> message) option" where
  "segment_for H w = (let m = drop (ihl_bytes w) w in
     if ip_ok w \<and> addresses H (ld32 w 16) \<and> w ! 9 = IPPROTO_UDP \<and> 8 \<le> length m
     then map_option (\<lambda>sk. (sk, ld32 w 12, ld16 m 0, drop 8 m)) (ports H (unat (ntohs (ld16 m 2))))
     else None)"

definition frame_for :: "net_device \<Rightarrow> host \<Rightarrow> u8 list \<Rightarrow> (nat \<times> message) option" where
  "frame_for nd H f =
     (if 14 \<le> length f \<and> ld16 f 12 = htons ETH_P_IP \<and> eth_class nd f 0 \<notin> {PACKET_OTHERHOST, PACKET_MULTICAST, PACKET_BROADCAST}
      then segment_for H (drop 14 f) else None)"

definition deliver :: "(nat \<times> message) option \<Rightarrow> host \<Rightarrow> host" where
  "deliver p H = (case p of None \<Rightarrow> H | Some (sk, m) \<Rightarrow> H\<lparr>inbox := (inbox H)(sk := inbox H sk @ [m])\<rparr>)"

text \<open>The least number below \<open>512\<close> that is free.\<close>

definition least_free :: "(nat \<Rightarrow> bool) \<Rightarrow> nat \<Rightarrow> bool" where
  "least_free used k \<longleftrightarrow> k < 512 \<and> \<not> used k \<and> (\<forall>j < k. used j)"

definition no_free :: "(nat \<Rightarrow> bool) \<Rightarrow> bool" where
  "no_free used \<longleftrightarrow> (\<forall>k < 512. used k)"

definition valid_socket :: "int \<Rightarrow> int \<Rightarrow> int \<Rightarrow> bool" where
  "valid_socket family type protocol \<longleftrightarrow> family = PF_INET \<and> 0 \<le> type \<and> type < 4 \<and> protocol \<in> {IPPROTO_IP, IPPROTO_ICMP, IPPROTO_UDP}"

text \<open>The descriptor that a number refers to.\<close>

definition descriptor_of :: "host \<Rightarrow> int \<Rightarrow> descriptor" where
  "descriptor_of H fd = (if fd < 0 then Closed else descriptors H (nat fd))"

lemma descriptor_of_update [simp]: "descriptor_of (H\<lparr>inbox := b\<rparr>) fd = descriptor_of H fd" "descriptor_of (H\<lparr>ports := p\<rparr>) fd = descriptor_of H fd"
  by (simp_all add: descriptor_of_def)

inductive host_step :: "net_device \<Rightarrow> host \<Rightarrow> event \<Rightarrow> int \<times> u8 list \<Rightarrow> host \<Rightarrow> bool" for nd where
  receive_nothing: "host_step nd H (Receive None) (0, []) H"
| receive_frame: "host_step nd H (Receive (Some f)) (0, []) (deliver (frame_for nd H (take 1514 f)) H)"
| socket_udp: "valid_socket family type IPPROTO_UDP \<Longrightarrow> least_free (\<lambda>k. descriptors H k \<noteq> Closed) fd \<Longrightarrow>
    inbox H sk = [] \<Longrightarrow> Udp_descriptor sk \<notin> range (descriptors H) \<Longrightarrow> Some sk \<notin> range (ports H) \<Longrightarrow>
    host_step nd H (Socket family type IPPROTO_UDP) (int fd, []) (H\<lparr>descriptors := (descriptors H)(fd := Udp_descriptor sk)\<rparr>)"
| socket_raw: "valid_socket family type protocol \<Longrightarrow> protocol \<noteq> IPPROTO_UDP \<Longrightarrow> least_free (\<lambda>k. descriptors H k \<noteq> Closed) fd \<Longrightarrow>
    host_step nd H (Socket family type protocol) (int fd, []) (H\<lparr>descriptors := (descriptors H)(fd := Raw_descriptor)\<rparr>)"
| socket_refused: "\<not> valid_socket family type protocol \<or> no_free (\<lambda>k. descriptors H k \<noteq> Closed) \<Longrightarrow>
    host_step nd H (Socket family type protocol) (-1, []) H"
| bind_port: "descriptor_of H fd = Udp_descriptor sk \<Longrightarrow>
    (if sin_port addr = 0 then least_free (\<lambda>k. ports H k \<noteq> None) p else p < 512 \<and> ports H p = None \<and> p = unat (ntohs (sin_port addr))) \<Longrightarrow>
    host_step nd H (Bind fd addr addrlen) (0, []) (H\<lparr>ports := (ports H)(p \<mapsto> sk)\<rparr>)"
| bind_refused: "descriptor_of H fd = Udp_descriptor sk \<Longrightarrow>
    (if sin_port addr = 0 then no_free (\<lambda>k. ports H k \<noteq> None)
     else 512 \<le> unat (ntohs (sin_port addr)) \<or> ports H (unat (ntohs (sin_port addr))) \<noteq> None) \<Longrightarrow>
    host_step nd H (Bind fd addr addrlen) (-1, []) H"
| bind_closed: "descriptor_of H fd = Closed \<Longrightarrow> host_step nd H (Bind fd addr addrlen) (-1, []) H"
| send: "descriptor_of H fd = Udp_descriptor sk \<Longrightarrow> rc \<in> {0, -1} \<Longrightarrow>
    host_step nd H (Sendto fd buff len addr addrlen) (rc, []) H"
| send_autobind: "descriptor_of H fd = Udp_descriptor sk \<Longrightarrow> rc \<in> {0, -1} \<Longrightarrow> least_free (\<lambda>k. ports H k \<noteq> None) p \<Longrightarrow>
    host_step nd H (Sendto fd buff len addr addrlen) (rc, []) (H\<lparr>ports := (ports H)(p \<mapsto> sk)\<rparr>)"
| send_closed: "descriptor_of H fd = Closed \<Longrightarrow> host_step nd H (Sendto fd buff len addr addrlen) (-1, []) H"
| recv: "descriptor_of H fd = Udp_descriptor sk \<Longrightarrow> inbox H sk = (src, sport, payload) # ms \<Longrightarrow>
    host_step nd H (Recvfrom fd buff len) (0, put_bytes buff 0 payload) (H\<lparr>inbox := (inbox H)(sk := ms)\<rparr>)"
| recv_closed: "descriptor_of H fd = Closed \<Longrightarrow> host_step nd H (Recvfrom fd buff len) (-1, buff) H"

inductive_cases receive_stepE: "host_step nd H (Receive input) r H'"
inductive_cases socket_stepE: "host_step nd H (Socket family type protocol) r H'"
inductive_cases bind_stepE: "host_step nd H (Bind fd addr addrlen) r H'"
inductive_cases send_stepE: "host_step nd H (Sendto fd buff len addr addrlen) r H'"
inductive_cases recv_stepE: "host_step nd H (Recvfrom fd buff len) r H'"
lemmas host_stepE = receive_stepE socket_stepE bind_stepE send_stepE recv_stepE

section \<open>Messages are neither lost nor reordered\<close>

text \<open>
  What arrives for a socket in a step, and what a step takes from its inbox; and runs of the host with the history of both.
\<close>

definition arrives :: "net_device \<Rightarrow> host \<Rightarrow> event \<Rightarrow> nat \<Rightarrow> message list" where
  "arrives nd H ev sk = (case ev of
       Receive (Some f) \<Rightarrow> (case frame_for nd H (take 1514 f) of Some (k, m) \<Rightarrow> if k = sk then [m] else [] | None \<Rightarrow> [])
     | _ \<Rightarrow> [])"

definition takes :: "host \<Rightarrow> event \<Rightarrow> nat \<Rightarrow> message list" where
  "takes H ev sk = (case ev of Recvfrom fd buff len \<Rightarrow> if descriptor_of H fd = Udp_descriptor sk then take 1 (inbox H sk) else [] | _ \<Rightarrow> [])"

lemma host_step_inbox:
  assumes "host_step nd H ev r H'"
  shows "inbox H sk @ arrives nd H ev sk = takes H ev sk @ inbox H' sk"
  using assms by cases (auto simp: arrives_def takes_def deliver_def split: option.splits)

text \<open>A descriptor that refers to a UDP socket does so for ever.\<close>

lemma host_step_descriptor:
  assumes "host_step nd H ev r H'" "descriptor_of H fd = Udp_descriptor sk"
  shows "descriptor_of H' fd = Udp_descriptor sk"
  using assms by cases (auto simp: descriptor_of_def deliver_def least_free_def split: option.splits prod.splits if_splits)

inductive host_run :: "net_device \<Rightarrow> host \<Rightarrow> (event \<times> int \<times> u8 list) list \<Rightarrow> (nat \<Rightarrow> message list) \<Rightarrow> (nat \<Rightarrow> message list) \<Rightarrow> host \<Rightarrow> bool"
  for nd H0 where
  start: "host_run nd H0 [] (\<lambda>_. []) (\<lambda>_. []) H0"
| step: "host_run nd H0 tr arrived taken H \<Longrightarrow> host_step nd H ev r H' \<Longrightarrow>
    host_run nd H0 (tr @ [(ev, r)]) (\<lambda>sk. arrived sk @ arrives nd H ev sk) (\<lambda>sk. taken sk @ takes H ev sk) H'"

lemma host_run_fifo:
  assumes "host_run nd H0 tr arrived taken H"
  shows "inbox H0 sk @ arrived sk = taken sk @ inbox H sk"
  using assms
proof (induction rule: host_run.induct)
  case (step tr arrived taken H ev r H')
  have "inbox H0 sk @ arrived sk @ arrives nd H ev sk = (taken sk @ inbox H sk) @ arrives nd H ev sk" using step.IH by simp
  then show ?case using host_step_inbox [OF step.hyps(2), of sk] by simp
qed simp

end
