(* ===== verification/Stack_Invariant.thy ===== *)
theory Stack_Invariant
  imports Stack Link_Layer Host
begin

text \<open>
  The invariant of the whole stack, and that the transport protocols keep it. \<open>stack_inv d nd H s\<close> joins the link-layer invariant of
  \<^verbatim>\<open>Link_Layer\<close> for the device \<open>nd\<close> at address \<open>d\<close> with that of the upper layers: the forwarding tables hold routes through
  the device, the handlers of \<^verbatim>\<open>main_init\<close> are registered, every socket behind a port, a descriptor or
  the ICMP control socket has a sock, and the queues of a sock hold the datagrams it waits to hand to the program. It also says that the state stands for
  the abstract host \<open>H\<close> of \<^verbatim>\<open>Host\<close>: the same addresses, descriptors and ports, and inboxes with the messages (\<open>message_of\<close>) of the datagrams on the queues.
  \<open>inflight\<close> is the buffer that a handler holds while it processes a packet: it is on no queue. The lemmas
  on \<^verbatim>\<open>udp_rcv\<close> and \<^verbatim>\<open>icmp_rcv\<close> then say what they do on every packet and that they keep the invariant.
\<close>

unbundle bit_operations_syntax

subsection \<open>Sockets, ports and the invariant\<close>

text \<open>
  A datagram with a whole header that came in one frame, and a sock with nothing left to send, whose receive queue
  holds such datagrams.
\<close>

definition datagram_ok :: "sk_buff \<Rightarrow> bool" where
  "datagram_ok b \<longleftrightarrow> (\<exists>nh. transport_skb b nh) \<and> 8 \<le> unat (skb_len b) \<and> unat (skb_len b) \<le> 1480"

definition message_of :: "sk_buff \<Rightarrow> message" where
  "message_of b = (ip_saddr b (the (nh_raw b)), ld16 (window b) 0, drop 8 (window b))"

definition sock_ok :: "'z sock_store_scheme \<Rightarrow> nat \<Rightarrow> message list \<Rightarrow> bool" where
  "sock_ok s sk ms \<longleftrightarrow> sk < brk s \<and> queue_rep s (Write_queue sk) [] \<and>
     (\<exists>xs. queue_rep s (Receive_queue sk) xs \<and>
       (\<forall>i \<in> set xs. \<exists>b. skbs s i = Some b \<and> datagram_ok b) \<and> ms = map (\<lambda>i. message_of (the (skbs s i))) xs)"

text \<open>A socket with a sock behind it, which is a UDP sock when the socket has operations.\<close>

definition sock_kind :: "udp_sock \<Rightarrow> proto_ptr \<times> u8" where
  "sock_kind x = (sk_prot x, sk_protocol x)"

definition socket_ok :: "'z sock_store_scheme \<Rightarrow> nat \<Rightarrow> bool" where
  "socket_ok s so \<longleftrightarrow> so < brk s \<and> (\<exists>z sk. sockets s so = Some z \<and> socket_sk z = Some sk \<and> socks s sk \<noteq> None \<and>
     (sock_ops z \<noteq> None \<longrightarrow> map_option sock_kind (socks s sk) = Some (Udp_prot, IPPROTO_UDP)))"

text \<open>The control socket of ICMP.\<close>

definition icmp_ok :: "'z sock_store_scheme \<Rightarrow> bool" where
  "icmp_ok s \<longleftrightarrow> (\<exists>so z sk. icmp_socket s = Some so \<and> so < brk s \<and> sockets s so = Some z \<and> socket_sk z = Some sk \<and>
     map_option sock_kind (socks s sk) = Some (Raw_prot, IPPROTO_ICMP))"

text \<open>
  The socket behind a descriptor, and the sock behind a descriptor that refers to a UDP socket. A raw socket has no
  operations, and a system call on it follows a null pointer.
\<close>

definition fd_socket :: "'z sock_store_scheme \<Rightarrow> nat \<Rightarrow> nat option" where
  "fd_socket s fd = (if fd < 512 \<and> map_used (socket_maps s fd) then map_sk (socket_maps s fd) else None)"

definition fd_sock :: "'z sock_store_scheme \<Rightarrow> int \<Rightarrow> nat option" where
  "fd_sock s fd = (if fd < 0 then None else (case fd_socket s (nat fd) of None \<Rightarrow> None
     | Some so \<Rightarrow> (case sockets s so of None \<Rightarrow> None
        | Some z \<Rightarrow> if sock_ops z = None then None else socket_sk z)))"

definition fd_descriptor :: "'z sock_store_scheme \<Rightarrow> nat \<Rightarrow> descriptor" where
  "fd_descriptor s fd = (if fd_socket s fd = None then Closed
     else (case fd_sock s (int fd) of None \<Rightarrow> Raw_descriptor | Some sk \<Rightarrow> Udp_descriptor sk))"

definition local_addr :: "'z fib_store_scheme \<Rightarrow> u32 \<Rightarrow> bool" where
  "local_addr s ip \<longleftrightarrow> (\<exists>lcl mn l fa. fib_rep s lcl mn \<and> fib_route lcl mn ip = Some (l, fa) \<and> fa_type fa = RTN_LOCAL)"

text \<open>The host that a state stands for, but for the inboxes; an entry in use of one of the tables refers to something.\<close>

definition host_view :: "host \<Rightarrow> 'z sock_store_scheme \<Rightarrow> bool" where
  "host_view H s \<longleftrightarrow> addresses H = local_addr s \<and> descriptors H = fd_descriptor s \<and> ports H = port_owner s"

definition tables_ok :: "'z sock_store_scheme \<Rightarrow> bool" where
  "tables_ok s \<longleftrightarrow> (\<forall>k. (map_used (socket_maps s k) \<longrightarrow> map_sk (socket_maps s k) \<noteq> None) \<and> (map_used (udptable s k) \<longrightarrow> map_sk (udptable s k) \<noteq> None))"

definition upper_inv :: "nat \<Rightarrow> host \<Rightarrow> 'z sock_store_scheme \<Rightarrow> bool" where
  "upper_inv d H s \<longleftrightarrow> routes_ok d s \<and> ptype_base s = [ip_packet_type, arp_packet_type] \<and>
     inet_protos s = [udp_protocol, icmp_protocol] \<and> net_families s = [2 \<mapsto> Inet_family_ops] \<and>
     host_view H s \<and> tables_ok s \<and>
     (\<forall>sk. socks s sk \<noteq> None \<longrightarrow> sock_ok s sk (inbox H sk)) \<and> (\<forall>sk. socks s sk = None \<longrightarrow> inbox H sk = []) \<and>
     (\<forall>p sk. port_owner s p = Some sk \<longrightarrow> socks s sk \<noteq> None) \<and>
     icmp_ok s \<and>
     (\<forall>fd so. fd < 512 \<and> map_used (socket_maps s fd) \<and> map_sk (socket_maps s fd) = Some so \<longrightarrow> socket_ok s so)"

definition stack_inv :: "nat \<Rightarrow> net_device \<Rightarrow> host \<Rightarrow> 'z sock_store_scheme \<Rightarrow> bool" where
  "stack_inv d nd H s \<longleftrightarrow> link_inv d nd s \<and> upper_inv d H s"

lemma sock_ok_frame:
  assumes "sock_ok s sk ms" "mem_frame Q I s t" "Receive_queue sk \<notin> Q" "\<And>xs. queue_rep s (Receive_queue sk) xs \<Longrightarrow> set xs \<inter> I = {}"
    "Write_queue sk \<notin> Q \<or> queue_rep t (Write_queue sk) []"
  shows "sock_ok t sk ms"
proof -
  from assms(1) obtain xs where xs: "sk < brk s" "queue_rep s (Write_queue sk) []" "queue_rep s (Receive_queue sk) xs"
    "\<forall>i \<in> set xs. \<exists>b. skbs s i = Some b \<and> datagram_ok b" "ms = map (\<lambda>i. message_of (the (skbs s i))) xs" by (auto simp: sock_ok_def)
  note fr = assms(2) [unfolded mem_frame_def]
  have d: "set xs \<inter> I = {}" using assms(4) xs(3) by blast
  have same: "skbs t i = skbs s i" if "i \<in> set xs" for i
  proof -
    have "i \<notin> I" "skbs s i \<noteq> None" using that d xs(4) by auto
    then show ?thesis using fr by simp
  qed
  have "queue_rep t (Receive_queue sk) xs" using fr xs(3) assms(3) d by blast
  moreover have "queue_rep t (Write_queue sk) []" using fr assms(5) xs(2) by auto
  moreover have "\<forall>i \<in> set xs. \<exists>b. skbs t i = Some b \<and> datagram_ok b" using xs(4) same by simp
  moreover have "ms = map (\<lambda>i. message_of (the (skbs t i))) xs" using xs(5) same by simp
  moreover have "sk < brk t" using xs(1) fr by linarith
  ultimately show ?thesis by (auto simp: sock_ok_def)
qed

lemma fib_rep_unique: "fib_rep s lcl mn \<Longrightarrow> fib_rep s lcl' mn' \<Longrightarrow> lcl' = lcl \<and> mn' = mn"
  by (auto simp: fib_rep_def)

lemma local_addr_iff: "fib_rep s lcl mn \<Longrightarrow> local_addr s ip \<longleftrightarrow> (\<exists>l fa. fib_route lcl mn ip = Some (l, fa) \<and> fa_type fa = RTN_LOCAL)"
  unfolding local_addr_def by (metis fib_rep_unique)

text \<open>The view depends on the tables only.\<close>

lemma fd_socket_same: "socket_maps t = socket_maps s \<Longrightarrow> fd_socket t = fd_socket s"
  by (simp add: fd_socket_def fun_eq_iff)

lemma fd_sock_same:
  assumes "fd_socket t = fd_socket s" "sockets t = sockets s"
  shows "fd_sock t = fd_sock s" "fd_descriptor t = fd_descriptor s"
proof -
  show "fd_sock t = fd_sock s" unfolding fd_sock_def [abs_def] assms ..
  then show "fd_descriptor t = fd_descriptor s" unfolding fd_descriptor_def [abs_def] assms by (rule arg_cong)
qed

lemma local_addr_same: "ip_fib_local_table t = ip_fib_local_table s \<Longrightarrow> ip_fib_main_table t = ip_fib_main_table s \<Longrightarrow> local_addr t = local_addr s"
  by (simp add: local_addr_def fib_rep_def fun_eq_iff)

lemma host_view_same:
  assumes "same_upper s t"
  shows "host_view H t = host_view H s" "tables_ok t = tables_ok s"
proof -
  have "local_addr t = local_addr s" using assms by (intro local_addr_same) (simp_all add: same_upper_def)
  moreover have "fd_descriptor t = fd_descriptor s" using assms by (intro fd_sock_same fd_socket_same) (simp_all add: same_upper_def)
  moreover have "port_owner t = port_owner s" using assms by (simp add: same_upper_def port_owner_def fun_eq_iff)
  ultimately show "host_view H t = host_view H s" by (simp add: host_view_def)
  show "tables_ok t = tables_ok s" using assms by (simp add: same_upper_def tables_ok_def)
qed

lemma upper_inv_frame:
  assumes "upper_inv d H s" "mem_frame Q I s t" "same_upper s t" "ptype_base t = ptype_base s"
    and kind: "\<And>sk. map_option sock_kind (socks t sk) = map_option sock_kind (socks s sk)"
    and "\<And>sk. Receive_queue sk \<notin> Q" "\<And>sk xs. queue_rep s (Receive_queue sk) xs \<Longrightarrow> set xs \<inter> I = {}"
    and "\<And>sk. Write_queue sk \<in> Q \<Longrightarrow> queue_rep t (Write_queue sk) []"
  shows "upper_inv d H t"
proof -
  have none: "socks t sk = None \<longleftrightarrow> socks s sk = None" for sk using kind [of sk] by (metis option.map_disc_iff)
  have brk: "brk s \<le> brk t" using assms(2) by (simp add: mem_frame_def)
  have "sock_ok t sk (inbox H sk)" if "socks t sk \<noteq> None" for sk
    using assms none that by (intro sock_ok_frame [OF _ assms(2)]) (auto simp: upper_inv_def)
  moreover have "routes_ok d t" using assms(1,3) by (auto simp: upper_inv_def routes_ok_def same_upper_def fib_rep_def)
  moreover have "port_owner t = port_owner s" using assms(3) by (simp add: same_upper_def port_owner_def fun_eq_iff)
  moreover have "socket_ok t so" if "socket_ok s so" for so
    using assms(3) that none kind brk unfolding same_upper_def socket_ok_def by auto
  moreover have "icmp_ok s \<Longrightarrow> icmp_ok t" using assms(3) kind brk unfolding same_upper_def icmp_ok_def by fastforce
  moreover have "host_view H t = host_view H s" "tables_ok t = tables_ok s" by (rule host_view_same [OF assms(3)])+
  ultimately show ?thesis using assms(1,3,4) none unfolding upper_inv_def same_upper_def by simp
qed

text \<open>A buffer that is on no queue.\<close>

definition inflight :: "'z skb_store_scheme \<Rightarrow> nat \<Rightarrow> sk_buff \<Rightarrow> bool" where
  "inflight s i b \<longleftrightarrow> skbs s i = Some b \<and> nxt s (Skb i) = None"

lemma inflight_not_queued: "inflight s i b \<Longrightarrow> queue_rep s q xs \<Longrightarrow> set xs \<inter> {i} = {}"
  by (auto simp: inflight_def dest: queue_rep_linked)

lemma inflight_frame: "inflight s j b \<Longrightarrow> mem_frame Q I s t \<Longrightarrow> j \<notin> I \<Longrightarrow> inflight t j b"
  unfolding inflight_def mem_frame_def by simp

lemma stack_inv_skb:
  assumes "stack_inv d nd H s" "inflight s i b"
  shows "stack_inv d nd H (s\<lparr>skbs := (skbs s)(i := v)\<rparr>)"
proof -
  let ?t = "s\<lparr>skbs := (skbs s)(i := v)\<rparr>"
  have fr: "mem_frame {} {i} s ?t" using assms(2) by (intro mem_frame_skb) (simp_all add: inflight_def)
  have "link_inv d nd ?t"
    using assms inflight_not_queued [OF assms(2)] by (intro link_inv_frame [OF _ fr]) (auto simp: stack_inv_def link_inv_def)
  moreover have "upper_inv d H ?t"
    using assms inflight_not_queued [OF assms(2)]
    by (intro upper_inv_frame [OF _ fr]) (simp_all add: stack_inv_def same_upper_def)
  ultimately show ?thesis by (simp add: stack_inv_def)
qed

lemma stack_inv_quiet:
  assumes "stack_inv d nd H s" "mem_frame {} {} s t" "devs t = devs s" "dev_base t = dev_base s" "neighs t = neighs s" "ntables t = ntables s"
    "rtables t = rtables s" "same_upper s t" "ptype_base t = ptype_base s"
    "\<And>sk. map_option sock_kind (socks t sk) = map_option sock_kind (socks s sk)"
  shows "stack_inv d nd H t"
proof -
  have "link_inv d nd t"
  proof (rule link_inv_frame [OF _ assms(2)])
    show "r < brk t" if "rtables t r \<noteq> None" for r
      using that assms(1,2,7) unfolding stack_inv_def link_inv_def mem_frame_def by (metis order_less_le_trans)
  qed (use assms in \<open>simp_all add: stack_inv_def\<close>)
  moreover have "upper_inv d H t" using assms by (intro upper_inv_frame [OF _ assms(2)]) (simp_all add: stack_inv_def)
  ultimately show ?thesis by (simp add: stack_inv_def)
qed

lemma stack_inv_send:
  assumes "stack_inv d nd H s" "socks s sk = Some x" "send_frame sk x n s t" "resolver_rep t n d nd before r"
  shows "stack_inv d nd H t"
proof -
  have "link_inv d nd t" using assms by (intro link_inv_send [OF _ assms(3,4)]) (simp add: stack_inv_def)
  moreover have "upper_inv d H t"
  proof (rule upper_inv_frame [where s = s and Q = "{Arp_queue n, Write_queue sk}" and I = "{}"])
    show "map_option sock_kind (socks t k) = map_option sock_kind (socks s k)" for k
      using assms(2,3) by (auto simp: send_frame_def sock_kind_def split: if_splits)
    show "queue_rep t (Write_queue k) []" if "Write_queue k \<in> {Arp_queue n, Write_queue sk}" for k
      using that assms(3) by (simp add: send_frame_def)
  qed (use assms in \<open>simp_all add: stack_inv_def send_frame_def\<close>)
  ultimately show ?thesis by (simp add: stack_inv_def)
qed

lemma stack_inv_routed:
  assumes "stack_inv d nd H s"
  shows "stack_inv d nd H (routed_state fl fi type d nd s)"
proof -
  have "same_upper s (routed_state fl fi type d nd s)" "ptype_base (routed_state fl fi type d nd s) = ptype_base s"
    by (simp_all add: same_upper_def routed_state_def bind_state_def create_state_def split: option.split)
  then have "upper_inv d H (routed_state fl fi type d nd s)"
    using assms by (intro upper_inv_frame [OF _ routed_state_frame [where I = "{}"]]) (auto simp: stack_inv_def)
  with assms show ?thesis by (simp add: stack_inv_def link_inv_routed)
qed

lemma stack_inv_rt:
  assumes "stack_inv d nd H s"
  shows "stack_inv d nd H (s\<lparr>brk := brk s + 1, rtables := (rtables s)(brk s \<mapsto> ro)\<rparr>)"
proof -
  let ?s = "s\<lparr>brk := brk s + 1, rtables := (rtables s)(brk s \<mapsto> ro)\<rparr>"
  have fr: "mem_frame {} {} s ?s" by (rule mem_frame_same) simp_all
  have "link_inv d nd ?s"
    using link_inv_rtables [OF link_inv_brk [of d nd s]] link_inv_fresh_rt [of d nd s] assms(1) by (simp add: stack_inv_def)
  moreover have "upper_inv d H ?s"
    using assms(1) by (intro upper_inv_frame [OF _ fr]) (simp_all add: stack_inv_def same_upper_def)
  ultimately show ?thesis by (simp add: stack_inv_def)
qed

lemma stack_inv_local:
  assumes "stack_inv d nd H s" "inflight s i b"
  shows "stack_inv d nd H (local_state i b d nd w s)" "inflight (local_state i b d nd w s) i (local_skb (ihl_bytes w) (brk s) b)"
proof -
  let ?s = "s\<lparr>brk := brk s + 1, rtables := (rtables s)(brk s \<mapsto> in_rt (os s) (brk s) d nd (ld32 w 16) (ld32 w 12) (w ! 1))\<rparr>"
  have "inflight ?s i b" using assms(2) by (simp add: inflight_def)
  then show "stack_inv d nd H (local_state i b d nd w s)"
    using stack_inv_skb [OF stack_inv_rt [OF assms(1)]] by (simp add: local_state_def)
  show "inflight (local_state i b d nd w s) i (local_skb (ihl_bytes w) (brk s) b)"
    using assms(2) by (simp add: inflight_def local_state_def)
qed

lemma udp_rcv_inv:
  assumes inv: "stack_inv d nd H s" "inflight s i b" "transport_skb b nh" "unat (skb_len b) \<le> 1480"
  shows "wp (udp_rcv i) (\<lambda>rc t. rc = 0 \<and> stack_inv d nd (deliver (map_option (\<lambda>sk. (sk, message_of b)) (udp_owner s (window b))) H) t) s"
proof (cases "udp_owner s (window b)")
  case None
  then show ?thesis
    using udp_rcv_apply [of s i b nh] inv stack_inv_skb [OF inv(1,2)] by (simp add: wp_def inflight_def deliver_def)
next
  case (Some sk)
  then have len: "8 \<le> unat (skb_len b)" and own: "socks s sk \<noteq> None"
    using inv(1,3) length_window [of b]
    by (auto simp: udp_owner_def transport_skb_def stack_inv_def upper_inv_def not_less split: if_splits)
  then obtain xs where xs: "queue_rep s (Receive_queue sk) xs"
      "\<forall>i \<in> set xs. \<exists>b. skbs s i = Some b \<and> datagram_ok b" "sk < brk s" "queue_rep s (Write_queue sk) []"
      "inbox H sk = map (\<lambda>i. message_of (the (skbs s i))) xs"
    using inv(1) by (auto simp: stack_inv_def upper_inv_def sock_ok_def)
  let ?t = "enq_state s (Receive_queue sk) i" and ?H = "H\<lparr>inbox := (inbox H)(sk := inbox H sk @ [message_of b])\<rparr>"
  have b: "skbs s i = Some b" "i \<notin> set xs" using inv(2) inflight_not_queued [OF inv(2) xs(1)] by (auto simp: inflight_def)
  have run: "udp_rcv i s = Inr (0, ?t)"
    using udp_rcv_apply [OF b(1) inv(3)] Some skb_queue_tail_apply [OF xs(1), of i] b(1) by (simp add: comp_simps)
  have fr: "mem_frame {Receive_queue sk} {i} s ?t" by (rule mem_frame_enq [OF xs(1)])
  have "link_inv d nd ?t"
    using inv(1) inflight_not_queued [OF inv(2)] by (intro link_inv_frame [OF _ fr]) (auto simp: stack_inv_def link_inv_def)
  moreover have "upper_inv d ?H ?t"
  proof -
    have "sock_ok ?t k (inbox ?H k)" if k: "socks s k \<noteq> None" for k
    proof (cases "k = sk")
      case True
      have "queue_rep ?t (Receive_queue sk) (xs @ [i])" using enq_state_rep [OF xs(1)] b by simp
      moreover have "queue_rep ?t (Write_queue sk) []" using enq_state_frame [OF xs(1,4)] by simp
      moreover have "\<forall>i \<in> set (xs @ [i]). \<exists>b. skbs ?t i = Some b \<and> datagram_ok b"
        using xs(2) b(1) inv(3,4) len by (auto simp: datagram_ok_def)
      ultimately show ?thesis unfolding sock_ok_def True using xs(3,5) b(1) by (intro conjI exI [of _ "xs @ [i]"]) simp_all
    next
      case False
      have "sock_ok ?t k (inbox H k)"
        by (rule sock_ok_frame [OF _ fr])
          (use inv(1) k False inflight_not_queued [OF inv(2)] in \<open>auto simp: stack_inv_def upper_inv_def\<close>)
      with False show ?thesis by simp
    qed
    moreover have "routes_ok d ?t" "port_owner ?t = port_owner s" "socket_ok ?t = socket_ok s" "icmp_ok ?t = icmp_ok s" "ptype_base ?t = ptype_base s"
      using inv(1) by (simp_all add: stack_inv_def upper_inv_def routes_ok_def fib_rep_def port_owner_def socket_ok_def icmp_ok_def fun_eq_iff enq_state_def)
    moreover have "same_upper s ?t" by (simp add: same_upper_def enq_state_def)
    then have "host_view ?H ?t = host_view H s" "tables_ok ?t = tables_ok s"
      using host_view_same [of s ?t] by (simp_all add: host_view_def)
    ultimately show ?thesis using inv(1) own by (simp add: stack_inv_def upper_inv_def)
  qed
  ultimately show ?thesis using Some by (simp add: wp_def run stack_inv_def deliver_def)
qed

subsection \<open>Echo requests\<close>

text \<open>The header of the reply to a request \<open>w\<close>, and the flow it is sent with.\<close>

definition reply_header :: "u8 list \<Rightarrow> u8 list" where
  "reply_header w = put_bytes ((take 8 w)[0 := 0]) 2 (bytes16 0)"

definition reply_flow :: "rtable \<Rightarrow> flowi" where
  "reply_flow ri = zero_flowi\<lparr>fl4_dst := rt_src ri, fl4_src := rt_dst ri, fl_proto := IPPROTO_ICMP\<rparr>"

definition pulled :: "sk_buff \<Rightarrow> sk_buff" where
  "pulled b = b\<lparr>skb_len := skb_len b - 8, skb_data := skb_data b + 8\<rparr>"

lemma length_reply_header: "8 \<le> length w \<Longrightarrow> length (reply_header w) = 8"
  by (simp add: reply_header_def)

lemma pulled_facts:
  assumes "transport_skb b nh" "8 \<le> unat (skb_len b)"
  shows "wf_skb (pulled b)" "window (pulled b) = drop 8 (window b)" "h_raw (pulled b) = Some (skb_data b)"
    "in_block (pulled b) (skb_data b) 8" "get_bytes (skb_buf (pulled b)) (nat (skb_data b)) 8 = take 8 (window b)"
    "in_block (pulled b) (skb_data b) 1" "skb_buf (pulled b) ! nat (skb_data b) = window b ! 0" "skb_dst (pulled b) = skb_dst b"
    "unat (skb_len (pulled b)) = unat (skb_len b) - 8"
proof -
  from assms(1) have b: "wf_skb b" "h_raw b = Some (skb_data b)" by (simp_all add: transport_skb_def)
  have le: "8 \<le> skb_len b" using assms(2) by (simp add: word_le_nat_alt)
  show "wf_skb (pulled b)" "window (pulled b) = drop 8 (window b)"
    using wf_skb_pulled [OF b(1) le] window_pull [OF b(1) le] by (simp_all add: pulled_def)
  show "in_block (pulled b) (skb_data b) 8" "in_block (pulled b) (skb_data b) 1"
    using in_block_window [OF b(1), of 0 8] in_block_window [OF b(1), of 0 1] assms(2) by (simp_all add: pulled_def in_block_def)
  show "get_bytes (skb_buf (pulled b)) (nat (skb_data b)) 8 = take 8 (window b)" "skb_buf (pulled b) ! nat (skb_data b) = window b ! 0"
    using load_window(4) [OF b(1), of 0 8] load_window(3) [OF b(1), of 0] assms(2) by (simp_all add: pulled_def get_bytes_def)
  show "unat (skb_len (pulled b)) = unat (skb_len b) - 8" using le by (simp add: pulled_def unat_sub)
qed (use assms in \<open>simp_all add: pulled_def transport_skb_def\<close>)

lemma icmp_rcv_cases:
  assumes b: "skbs s i = Some b" "transport_skb b nh"
  shows "icmp_rcv i s = (let w = window b; s' = s\<lparr>skbs := (skbs s)(i \<mapsto> pulled b)\<rparr> in
    if length w < 8 then Inr (-1, s)
    else if w ! 0 > 18 then Inr (0, s\<lparr>skbs := (skbs s)(i := None)\<rparr>)
    else if w ! 0 = 8 then bindM (icmp_echo i) (\<lambda>_. bindM (kfree_skb i) (\<lambda>_. returnM 0)) s'
    else Inl Null_deref)"
proof (cases "8 \<le> unat (skb_len b)")
  case True
  note p = pulled_facts [OF b(2) True]
  have len: "\<not> length (window b) < 8" using True b(2) by (simp add: transport_skb_def)
  have "on_skb i (skb_pull 8) s = Inr (Some (skb_data b + 8), s\<lparr>skbs := (skbs s)(i \<mapsto> pulled b)\<rparr>)"
    using b(1) True by (simp add: comp_simps skb_pull_def pulled_def word_less_nat_alt)
  then show ?thesis
    using p len by (auto simp: icmp_rcv_def comp_simps load_defs icmp_pointers_def Let_def)
next
  case False
  then have len: "length (window b) < 8" using b(2) by (simp add: transport_skb_def)
  have "(skbs s)(i \<mapsto> b) = skbs s" using b(1) by (simp add: fun_upd_idem)
  then show ?thesis using b(1) len False
    by (simp add: icmp_rcv_def comp_simps skb_pull_def word_less_nat_alt Let_def)
qed

lemma icmp_echo_apply:
  assumes b: "skbs s i = Some (pulled b)" "transport_skb b nh" "8 \<le> unat (skb_len b)" "unat (skb_len b) \<le> 65515"
    and rt: "skb_dst b = Some rt0" "rtables s rt0 = Some ri"
  shows "icmp_echo i s = bindM (ip_route_output_flow (reply_flow ri)) (\<lambda>r. case r of None \<Rightarrow> returnM ()
    | Some rt \<Rightarrow> icmp_push_reply \<lparr>bxm_skb = i, bxm_offset = 0, bxm_data_len = int (length (window (pulled b))),
        bxm_icmph = reply_header (window b), bxm_head_len = 8\<rparr> rt) s"
proof -
  note p = pulled_facts [OF b(2,3)]
  have "skb_len (pulled b) = of_nat (unat (skb_len (pulled b)))" by simp
  then have "skb_len (pulled b) = of_nat (unat (skb_len b) - 8)" unfolding p(9) .
  then have "sint (skb_len (pulled b)) = int (length (window (pulled b)))"
    using sint_of_nat_u32 [of "unat (skb_len b) - 8"] b(3,4) p(1,9) by simp
  moreover have "put_bytes ((take 8 (window b))[0 := 0]) 2 (bytes16 0) = reply_header (window b)" by (simp add: reply_header_def)
  ultimately show ?thesis
    using p(3-8) b(1) rt
    by (simp add: icmp_echo_def icmp_reply_def comp_simps load_defs reply_flow_def ip_route_output_flow_def Let_def)
qed

definition icmp_sock :: "'z sock_store_scheme \<Rightarrow> nat \<Rightarrow> udp_sock \<Rightarrow> bool" where
  "icmp_sock s sk x \<longleftrightarrow> (\<exists>so z. icmp_socket s = Some so \<and> sockets s so = Some z \<and> socket_sk z = Some sk \<and> socks s sk = Some x)"

lemma stack_inv_icmp_sock:
  assumes "stack_inv d nd H s"
  obtains sk x where "icmp_sock s sk x" "sk_protocol x = IPPROTO_ICMP"
  using assms by (auto simp: stack_inv_def upper_inv_def icmp_ok_def icmp_sock_def sock_kind_def)

lemma icmp_sock_writable: "stack_inv d nd H s \<Longrightarrow> icmp_sock s sk x \<Longrightarrow> queue_rep s (Write_queue sk) []"
  by (auto simp: icmp_sock_def stack_inv_def upper_inv_def sock_ok_def)

lemma inflight_routed: "inflight s i b \<Longrightarrow> inflight (routed_state fl fi type d nd s) i b"
  by (rule inflight_frame [OF _ routed_state_frame [where I = "{}"]]) simp_all

lemma icmp_push_reply_inv:
  assumes inv: "stack_inv d nd H s" and i: "inflight s i c" "wf_skb c" "length (window c) \<le> 65507"
    and rt: "rtables s rt = Some ro" "out_route ro n d" "resolver_rep s n d nd before r"
    and hdr: "length hdr = 8" and sk: "icmp_sock s sk x"
  shows "wp (icmp_push_reply \<lparr>bxm_skb = i, bxm_offset = 0, bxm_data_len = int (length (window c)), bxm_icmph = hdr, bxm_head_len = 8\<rparr> rt)
    (\<lambda>_ t. stack_inv d nd H t \<and> inflight t i c \<and>
    (\<exists>r'. rstep r (Send (rt_src ro) (ETH_P_IP, ip_datagram (sk_protocol x) (rt_src ro) (rt_dst ro)
        (reply_segment s hdr (window c)))) r' \<and> resolver_rep t n d nd before r')) s"
proof -
  from sk obtain so z where so: "icmp_socket s = Some so" "sockets s so = Some z" "socket_sk z = Some sk" "socks s sk = Some x"
    by (auto simp: icmp_sock_def)
  have w: "in_block c (skb_data c) (length (window c))" "get_bytes (skb_buf c) (nat (skb_data c)) (length (window c)) = window c"
    using in_block_window [OF i(2), of 0 "unat (skb_len c)"] i(2) by simp (simp add: i(2), simp add: window_def)
  have h: "heap_ok s" "mem_ok s" using inv by (simp_all add: stack_inv_def link_inv_def)
  have c: "skbs s i = Some c" using i(1) by (simp add: inflight_def)
  show ?thesis
  proof (rule wp_mono [OF icmp_push_reply_sends [OF so icmp_sock_writable [OF inv sk] h rt c w i(3) hdr]], elim conjE exE)
    fix t r' assume t: "send_frame sk x n s t" "resolver_rep t n d nd before r'"
      "rstep r (Send (rt_src ro) (ETH_P_IP, ip_datagram (sk_protocol x) (rt_src ro) (rt_dst ro) (reply_segment s hdr (window c)))) r'"
    have "inflight t i c" using inflight_frame [OF i(1), of "{Arp_queue n, Write_queue sk}" "{}" t] t(1) by (simp add: send_frame_def)
    with stack_inv_send [OF inv so(4) t(1,2)] t(2,3) show "stack_inv d nd H t \<and> inflight t i c \<and>
      (\<exists>r'. rstep r (Send (rt_src ro) (ETH_P_IP, ip_datagram (sk_protocol x) (rt_src ro) (rt_dst ro)
        (reply_segment s hdr (window c)))) r' \<and> resolver_rep t n d nd before r')" by blast
  qed
qed

lemma out_rt_route:
  "out_route (out_rt e k (out_flow fl fi nd) type d (Some n)) n d"
  "rt_dst (out_rt e k (out_flow fl fi nd) type d n') = fl4_dst fl"
  "rt_src (out_rt e k (out_flow fl fi nd) type d n') = (if fl4_src fl = 0 then fib_prefsrc fi else fl4_src fl)"
  by (simp_all add: out_route_def out_rt_def out_flow_def)

lemma icmp_echo_inv:
  assumes inv: "stack_inv d nd H s" and b: "inflight s i (pulled b)" "transport_skb b nh" "unat (skb_len b) \<le> 65515" "8 \<le> unat (skb_len b)"
    and rt: "skb_dst b = Some rt0" "rtables s rt0 = Some ri"
  shows "wp (icmp_echo i) (\<lambda>_ t. stack_inv d nd H t \<and> inflight t i (pulled b)) s"
proof -
  let ?fl = "reply_flow ri"
  note p = pulled_facts [OF b(2,4)]
  have s: "routes_ok d s" "link_inv d nd s" "skbs s i = Some (pulled b)"
    using inv b(1) by (simp_all add: inflight_def stack_inv_def upper_inv_def)
  have "wp (ip_route_output_flow ?fl) (\<lambda>r t. (r = None \<and> t = s) \<or>
      (\<exists>fi type. r = Some (brk s) \<and> t = routed_state ?fl fi type d nd s)) s"
    using s by (intro ip_route_output_inv) (simp_all add: reply_flow_def zero_flowi_def)
  moreover have "wp (icmp_push_reply \<lparr>bxm_skb = i, bxm_offset = 0, bxm_data_len = int (length (window (pulled b))),
        bxm_icmph = reply_header (window b), bxm_head_len = 8\<rparr> (brk s))
      (\<lambda>_ t. stack_inv d nd H t \<and> inflight t i (pulled b)) (routed_state ?fl fi type d nd s)" for fi type
  proof -
    let ?t = "routed_state ?fl fi type d nd s"
    obtain before r where "peer_rep s (fl4_dst ?fl) d nd before r" by (rule link_inv_peer [OF s(2)])
    then have rep: "resolver_rep ?t (peer s (fl4_dst ?fl) d) d nd before r"
      using s(2) by (intro routed_state_rep link_inv_fresh_rt) (auto simp: link_inv_def)
    obtain sk x where sk: "icmp_sock ?t sk x" "sk_protocol x = IPPROTO_ICMP" by (rule stack_inv_icmp_sock [OF stack_inv_routed [OF inv]])
    have hl: "length (reply_header (window b)) = 8" using b(2,4) by (simp add: length_reply_header transport_skb_def)
    have wl: "length (window (pulled b)) \<le> 65507" using p(1,9) b(3) by simp
    show ?thesis
      by (rule wp_mono [OF icmp_push_reply_inv [OF stack_inv_routed [OF inv] inflight_routed [OF b(1)] p(1) wl
           routed_state_simps(5) out_rt_route(1) rep hl sk(1)]]) blast
  qed
  ultimately show ?thesis
    using icmp_echo_apply [OF s(3) b(2,4,3) rt] inv b(1) by (auto simp: wp_bindM wp_iff comp_simps split: option.split)
qed

lemma icmp_rcv_inv:
  assumes inv: "stack_inv d nd H s" and b: "inflight s i b" "transport_skb b nh" "unat (skb_len b) \<le> 65515"
    and rt: "skb_dst b = Some rt0" "rtables s rt0 = Some ri"
    and ty: "length (window b) < 8 \<or> window b ! 0 > 18 \<or> window b ! 0 = 8"
  shows "wp (icmp_rcv i) (\<lambda>rc t. rc \<noteq> NET_RX_DROP \<and> stack_inv d nd H t) s"
proof -
  have sb: "skbs s i = Some b" using b(1) by (simp add: inflight_def)
  show ?thesis
  proof (cases "8 \<le> length (window b) \<and> window b ! 0 = 8")
    case False
    then show ?thesis
      using icmp_rcv_cases [OF sb b(2)] ty inv stack_inv_skb [OF inv b(1)] by (auto simp: wp_def Let_def)
  next
    case True
    then have len: "8 \<le> unat (skb_len b)" using b(2) by (simp add: transport_skb_def)
    let ?s = "s\<lparr>skbs := (skbs s)(i \<mapsto> pulled b)\<rparr>"
    have s': "stack_inv d nd H ?s" "inflight ?s i (pulled b)"
      using stack_inv_skb [OF inv b(1), of "Some (pulled b)"] b(1) by (simp_all add: inflight_def)
    have "wp (icmp_echo i) (\<lambda>_ t. stack_inv d nd H t \<and> inflight t i (pulled b)) ?s"
      by (rule icmp_echo_inv [OF s' b(2,3) len rt(1)]) (simp add: rt(2))
    then show ?thesis
      using icmp_rcv_cases [OF sb b(2)] True
      by (auto simp: wp_iff Let_def comp_simps inflight_def intro!: stack_inv_skb)
  qed
qed

end
