(* ===== verification/Frame_Input.thy ===== *)
theory Frame_Input
  imports Stack_Invariant
begin

text \<open>
  The receive path on arbitrary frames: \<^verbatim>\<open>ether_rx\<close> of the driver, \<^verbatim>\<open>netif_rx\<close>, and below it \<^verbatim>\<open>ip_rcv\<close> and \<^verbatim>\<open>arp_rcv\<close>
  with everything they call. The lemmas \<open>*_apply\<close> rewrite a handler to the computation it performs on the bytes
  of the packet, the lemmas \<open>*_stack\<close> say that it returns and keeps \<open>stack_inv\<close>. \<open>ether_rx_stack\<close> puts them together: one round of the
  receive loop returns and keeps the invariant on every frame but those of \<open>icmp_unhandled\<close>.
\<close>

unbundle bit_operations_syntax

lemma stack_inv_arp_send:
  assumes "stack_inv d nd H s"
  shows "stack_inv d nd H ((alloc_state s 2 c)\<lparr>tap_out := o'\<rparr>)" "inflight s i b \<Longrightarrow> inflight ((alloc_state s 2 c)\<lparr>tap_out := o'\<rparr>) i b"
proof -
  have h: "heap_ok s" using assms by (simp add: stack_inv_def link_inv_def)
  have "mem_frame {} {} s (alloc_state s 2 c)" using h by (rule mem_frame_alloc) simp
  moreover have "mem_frame {} {} (alloc_state s 2 c) ((alloc_state s 2 c)\<lparr>tap_out := o'\<rparr>)" by (rule mem_frame_same) simp_all
  ultimately have fr: "mem_frame {} {} s ((alloc_state s 2 c)\<lparr>tap_out := o'\<rparr>)" by (rule mem_frame_trans)
  show "stack_inv d nd H ((alloc_state s 2 c)\<lparr>tap_out := o'\<rparr>)"
    by (rule stack_inv_quiet [OF assms fr]) (simp_all add: same_upper_def alloc_state_def)
  show "inflight s i b \<Longrightarrow> inflight ((alloc_state s 2 c)\<lparr>tap_out := o'\<rparr>) i b" by (rule inflight_frame [OF _ fr]) simp_all
qed

lemma stack_inv_create:
  assumes "stack_inv d nd H s" "length key = 4"
  shows "stack_inv d nd H (create_state key d s)" "inflight s i b \<Longrightarrow> inflight (create_state key d s) i b"
proof -
  have "same_upper s (create_state key d s)" "ptype_base (create_state key d s) = ptype_base s" "socks (create_state key d s) = socks s"
    by (simp_all add: same_upper_def create_state_def)
  then have "upper_inv d H (create_state key d s)"
    using assms by (intro upper_inv_frame [OF _ create_state_frame [where I = "{}"]]) (simp_all add: stack_inv_def)
  then show "stack_inv d nd H (create_state key d s)" using assms by (simp add: stack_inv_def link_inv_create)
  show "inflight s i b \<Longrightarrow> inflight (create_state key d s) i b" by (rule inflight_frame [OF _ create_state_frame [where I = "{}"]]) simp_all
qed

text \<open>A step that keeps the invariant and leaves the buffers alone that are on no queue.\<close>

definition safe_step :: "nat \<Rightarrow> net_device \<Rightarrow> host \<Rightarrow> 'z sock_store_scheme \<Rightarrow> 'z sock_store_scheme \<Rightarrow> bool" where
  "safe_step d nd H s t \<longleftrightarrow> stack_inv d nd H t \<and> (\<forall>i b. inflight s i b \<longrightarrow> inflight t i b)"

lemma safe_step_trans: "safe_step d nd H s t \<Longrightarrow> safe_step d nd H t u \<Longrightarrow> safe_step d nd H s u"
  by (simp add: safe_step_def)

lemma safe_step_refl: "stack_inv d nd H s \<Longrightarrow> safe_step d nd H s s"
  by (simp add: safe_step_def)

text \<open>The release of a packet at the end of its handler.\<close>

lemma release_stack:
  assumes "safe_step d nd H s t" "inflight s i b"
  shows "wp (bindM (kfree_skb i) (\<lambda>_. returnM (0 :: int))) (\<lambda>rc u. rc = 0 \<and> stack_inv d nd H u) t"
proof -
  from assms have t: "stack_inv d nd H t" "inflight t i b" by (simp_all add: safe_step_def)
  then show ?thesis using stack_inv_skb [OF t] by (simp add: wp_simps inflight_def)
qed

lemma neigh_update_stack:
  assumes inv: "stack_inv d nd H s" and n: "n \<in> set (buckets (ntables s Arp_tbl))" and a: "6 \<le> length a"
  shows "wp (neigh_update n (Some a) NUD_REACHABLE) (\<lambda>rc t. safe_step d nd H s t) s"
proof -
  have l: "link_inv d nd s" using inv by (simp add: stack_inv_def)
  show ?thesis
  proof (rule wp_mono [OF neigh_update_inv [OF l n a]], elim conjE exE)
    fix rc t xs assume t: "link_inv d nd t" "queue_rep s (Arp_queue n) xs" "output_frame {} n (set xs) s t"
    from t(3) have f: "mem_frame {Arp_queue n} (set xs) s t" "ptype_base t = ptype_base s" by (simp_all add: output_frame_def)
    have u: "same_upper s t \<and> socks t = socks s" using t(3) by (intro more_same_upper) (simp add: output_frame_def)
    have "upper_inv d H t"
      using inv f u queue_rep_disjoint [OF t(2)]
      by (intro upper_inv_frame [OF _ f(1)]) (auto simp: stack_inv_def)
    moreover have "inflight t i b" if "inflight s i b" for i b
      using inflight_not_queued [OF that t(2)] by (intro inflight_frame [OF that f(1)]) auto
    ultimately show "safe_step d nd H s t" using t(1) by (simp add: stack_inv_def safe_step_def)
  qed
qed

lemma neigh_lookup_creat_stack:
  assumes inv: "stack_inv d nd H s"
  shows "wp (neigh_lookup_creat Arp_tbl (bytes32 ip) d c) (\<lambda>r t. safe_step d nd H s t \<and>
    (\<forall>n. r = Some n \<longrightarrow> n \<in> set (buckets (ntables t Arp_tbl)))) s"
proof -
  have s: "neigh_inv s" "malloc_ok (os s) (brk s)" using inv by (simp_all add: stack_inv_def link_inv_def mem_ok_def)
  have "neigh_lookup Arp_tbl (bytes32 ip) d s = Inr (neigh_find s (bytes32 ip, d), s)" using neigh_lookup_find [OF s(1), of "(bytes32 ip, d)"] by simp
  then show ?thesis
    using neigh_create_apply [OF s(1), of "bytes32 ip" d] s(2) inv stack_inv_create [OF inv, of "bytes32 ip"]
    by (auto simp: neigh_lookup_creat_def wp_def comp_simps safe_step_def dest: neigh_find_in)
qed

lemma neigh_event_ns_stack:
  assumes inv: "stack_inv d nd H s" and a: "6 \<le> length a"
  shows "wp (neigh_event_ns Arp_tbl (Some a) (bytes32 ip) d) (\<lambda>r t. safe_step d nd H s t) s"
  unfolding neigh_event_ns_def
proof (rule wp_bindM_I [OF neigh_lookup_creat_stack [OF inv]], elim conjE)
  fix r t assume t: "safe_step d nd H s t" "\<forall>n. r = Some n \<longrightarrow> n \<in> set (buckets (ntables t Arp_tbl))"
  then have "wp (neigh_update n (Some a) NUD_REACHABLE) (\<lambda>_ u. safe_step d nd H s u) t" if "r = Some n" for n
    using that a safe_step_trans [OF t(1)] by (intro wp_mono [OF neigh_update_stack [of d nd H t]]) (auto simp: safe_step_def)
  with t show "wp (case r of None \<Rightarrow> returnM None | Some n \<Rightarrow> bindM (neigh_update n (Some a) NUD_REACHABLE) (\<lambda>_. returnM (Some n)))
      (\<lambda>r t. safe_step d nd H s t) t"
    by (cases r) (simp_all add: wp_simps)
qed

lemma arp_update_known_stack:
  assumes inv: "stack_inv d nd H s" "inflight s i b" and a: "6 \<le> length sha"
  shows "wp (arp_update_known i sip sha d) (\<lambda>rc t. rc = 0 \<and> stack_inv d nd H t) s"
  unfolding arp_update_known_def
proof (rule wp_bindM_I [OF neigh_lookup_creat_stack [OF inv(1)]], elim conjE)
  fix r t assume t: "safe_step d nd H s t" "\<forall>n. r = Some n \<longrightarrow> n \<in> set (buckets (ntables t Arp_tbl))"
  then have upd: "wp (neigh_update n (Some sha) NUD_REACHABLE) (\<lambda>_ u. safe_step d nd H s u) t" if "r = Some n" for n
    using that a safe_step_trans [OF t(1)] by (intro wp_mono [OF neigh_update_stack [of d nd H t]]) (auto simp: safe_step_def)
  show "wp (bindM (case r of None \<Rightarrow> returnM () | Some n \<Rightarrow> bindM (neigh_update n (Some sha) NUD_REACHABLE) (\<lambda>_. returnM ()))
      (\<lambda>_. bindM (kfree_skb i) (\<lambda>_. returnM (0 :: int)))) (\<lambda>rc t. rc = 0 \<and> stack_inv d nd H t) t"
  proof (rule wp_bindM_I [where R = "\<lambda>_ u. safe_step d nd H s u"])
    show "wp (case r of None \<Rightarrow> returnM () | Some n \<Rightarrow> bindM (neigh_update n (Some sha) NUD_REACHABLE) (\<lambda>_. returnM ()))
      (\<lambda>_ u. safe_step d nd H s u) t" using upd t(1) by (cases r) (simp_all add: wp_simps)
  qed (rule release_stack [OF _ inv(2)])
qed

lemma ip_route_input_stack:
  assumes inv: "stack_inv d nd H s" "inflight s i b"
  shows "wp (ip_route_input i daddr saddr tos d) (\<lambda>rc t. (rc = -1 \<and> t = s) \<or>
    (rc = 0 \<and> stack_inv d nd H t \<and> inflight t i (b\<lparr>skb_dst := Some (brk s)\<rparr>) \<and>
       rtables t (brk s) = Some (in_rt (os s) (brk s) d nd daddr saddr tos))) s"
proof -
  obtain lcl mn where fib: "fib_rep s lcl mn" using inv(1) by (auto simp: stack_inv_def upper_inv_def routes_ok_def)
  have s: "devs s d = Some nd" "skbs s i = Some b" "mem_ok s"
    using inv by (simp_all add: stack_inv_def link_inv_def inflight_def)
  let ?s = "s\<lparr>brk := brk s + 1, rtables := (rtables s)(brk s \<mapsto> in_rt (os s) (brk s) d nd daddr saddr tos)\<rparr>"
  let ?t = "?s\<lparr>skbs := (skbs s)(i \<mapsto> b\<lparr>skb_dst := Some (brk s)\<rparr>)\<rparr>"
  have "stack_inv d nd H ?s" using inv(1) by (rule stack_inv_rt)
  moreover have "inflight ?s i b" using inv(2) by (simp add: inflight_def)
  ultimately have "stack_inv d nd H ?t" using stack_inv_skb [of d nd H ?s i b] by simp
  moreover have "inflight ?t i (b\<lparr>skb_dst := Some (brk s)\<rparr>)" using inv(2) by (simp add: inflight_def)
  ultimately show ?thesis
    using ip_route_input_apply [OF fib s] by (auto simp: wp_def split: option.split)
qed

lemma arp_reply_stack:
  assumes inv: "stack_inv d nd H s" "inflight s i b" and a: "length sha = 6"
  shows "wp (bindM (neigh_event_ns Arp_tbl (Some sha) (bytes32 sip) d) (\<lambda>p.
      bindM (case p of None \<Rightarrow> returnM () | Some _ \<Rightarrow> bindM (get_dev d) (\<lambda>nd.
        arp_send ARPOP_REPLY ETH_P_ARP sip d tip (Some sha) (Some (dev_addr nd)) (Some sha))) (\<lambda>_.
      bindM (kfree_skb i) (\<lambda>_. returnM (0 :: int))))) (\<lambda>rc t. rc = 0 \<and> stack_inv d nd H t) s"
proof (rule wp_bindM_I [OF neigh_event_ns_stack [OF inv(1)]])
  fix p t assume t: "safe_step d nd H s t"
  then have st: "stack_inv d nd H t" and d: "devs t d = Some nd" "eth_dev nd" "mem_ok t"
    by (simp_all add: safe_step_def stack_inv_def link_inv_def)
  let ?f = "arp_frame nd ARPOP_REPLY ETH_P_ARP sip tip (Some sha) (Some (dev_addr nd)) (Some sha)"
  let ?u = "(alloc_state t 2 (arp_skb d ?f))\<lparr>tap_out := tap_out t @ [?f]\<rparr>"
  have "arp_send ARPOP_REPLY ETH_P_ARP sip d tip (Some sha) (Some (dev_addr nd)) (Some sha) t = Inr ((), ?u)"
    using d a by (intro arp_send_apply) (auto simp: eth_dev_def)
  moreover have "safe_step d nd H s ?u"
    using stack_inv_arp_send [OF st] safe_step_trans [OF t] by (simp add: safe_step_def)
  ultimately have "wp (case p of None \<Rightarrow> returnM () | Some _ \<Rightarrow> bindM (get_dev d) (\<lambda>nd.
        arp_send ARPOP_REPLY ETH_P_ARP sip d tip (Some sha) (Some (dev_addr nd)) (Some sha))) (\<lambda>_ u. safe_step d nd H s u) t"
    using t d(1) by (cases p) (simp_all add: wp_def comp_simps)
  then show "wp (bindM (case p of None \<Rightarrow> returnM () | Some _ \<Rightarrow> bindM (get_dev d) (\<lambda>nd.
        arp_send ARPOP_REPLY ETH_P_ARP sip d tip (Some sha) (Some (dev_addr nd)) (Some sha))) (\<lambda>_.
      bindM (kfree_skb i) (\<lambda>_. returnM (0 :: int)))) (\<lambda>rc t. rc = 0 \<and> stack_inv d nd H t) t"
    by (rule wp_bindM_I) (rule release_stack [OF _ inv(2)])
qed (use a in simp)

text \<open>What \<^verbatim>\<open>arp_process\<close> does with the packet \<open>w\<close>.\<close>

definition arp_answer :: "nat \<Rightarrow> nat \<Rightarrow> u32 \<Rightarrow> u32 \<Rightarrow> u8 list \<Rightarrow> ('z sock_store_scheme, int) comp" where
  "arp_answer i d sip tip sha = bindM (neigh_event_ns Arp_tbl (Some sha) (bytes32 sip) d) (\<lambda>p.
     bindM (case p of None \<Rightarrow> returnM () | Some _ \<Rightarrow> bindM (get_dev d) (\<lambda>nd.
       arp_send ARPOP_REPLY ETH_P_ARP sip d tip (Some sha) (Some (dev_addr nd)) (Some sha))) (\<lambda>_.
     bindM (kfree_skb i) (\<lambda>_. returnM 0)))"

definition arp_ok :: "u8 list \<Rightarrow> bool" where
  "arp_ok w \<longleftrightarrow> ld16 w 2 = htons ETH_P_IP \<and> ld16 w 0 = htons (ARPHRD_ETHER :: u16) \<and>
     ld16 w 6 \<in> {htons (ARPOP_REPLY :: u16), htons (ARPOP_REQUEST :: u16)} \<and> \<not> LOOPBACK (ld32 w 24) \<and> \<not> MULTICAST (ld32 w 24)"

lemma arp_process_apply:
  assumes s: "skbs s i = Some b" "devs s d = Some nd" "eth_dev nd"
    and b: "wf_skb b" "nh_raw b = Some (skb_data b)" "skb_dev b = Some d" "28 \<le> unat (skb_len b)"
  defines "w \<equiv> window b"
  shows "arp_process i s = (if \<not> arp_ok w then bindM (kfree_skb i) (\<lambda>_. returnM 0)
    else bindM (if ld16 w 6 = htons (ARPOP_REQUEST :: u16) then ip_route_input i (ld32 w 24) (ld32 w 14) 0 d else returnM (-1)) (\<lambda>err.
      if err = 0 then
        bindM (get_skb i) (\<lambda>b. bindM (nonnull (skb_dst b)) (\<lambda>dst. bindM (get_rt dst) (\<lambda>rt.
          if rt_type rt = RTN_LOCAL then arp_answer i d (ld32 w 14) (ld32 w 24) (get_bytes w 8 6)
          else arp_update_known i (ld32 w 14) (get_bytes w 8 6) d)))
      else arp_update_known i (ld32 w 14) (get_bytes w 8 6) d)) s"
proof -
  have blk: "in_block b (skb_data b + int k) n" if "k + n \<le> 28" for k n using in_block_window [OF b(1), of k n] that b(4) by simp
  have ld: "load16 i (skb_data b + 2) s = Inr (ld16 w 2, s)" "load16 i (skb_data b) s = Inr (ld16 w 0, s)"
      "load16 i (skb_data b + 6) s = Inr (ld16 w 6, s)" "load_bytes i (skb_data b + 8) 6 s = Inr (get_bytes w 8 6, s)"
      "load32 i (skb_data b + 14) s = Inr (ld32 w 14, s)" "load32 i (skb_data b + 24) s = Inr (ld32 w 24, s)"
      "load32 i (24 + skb_data b) s = Inr (ld32 w 24, s)"
    using blk [of 2 2] blk [of 0 2] blk [of 6 2] blk [of 8 6] blk [of 14 4] blk [of 24 4] b(4) s(1) load_window(1) [OF b(1), of 2]
      load_window(1) [OF b(1), of 0] load_window(1) [OF b(1), of 6] load_window(4) [OF b(1), of 8 6]
      load_window(2) [OF b(1), of 14] load_window(2) [OF b(1), of 24]
    by (simp_all add: load_defs comp_simps w_def add.commute)
  have len: "unat (addr_len nd) = 6" "dev_type nd = ARPHRD_ETHER" using s(3) by (simp_all add: eth_dev_def)
  have off: "skb_data b + 8 + 6 = skb_data b + 14" "skb_data b + 14 + 4 + 6 = skb_data b + 24" by simp_all
  have eq: "arp_process i s = (let out = bindM (kfree_skb i) (\<lambda>_. returnM 0) in
     if ld16 w 2 \<noteq> htons ETH_P_IP \<or> htons (ARPHRD_ETHER :: u16) \<noteq> ld16 w 0 then out
     else if ld16 w 6 \<noteq> htons (ARPOP_REPLY :: u16) \<and> ld16 w 6 \<noteq> htons (ARPOP_REQUEST :: u16) then out
     else if LOOPBACK (ld32 w 24) \<or> MULTICAST (ld32 w 24) then out
     else bindM (if ld16 w 6 = htons (ARPOP_REQUEST :: u16) then ip_route_input i (ld32 w 24) (ld32 w 14) 0 d else returnM (-1)) (\<lambda>err.
      if err = 0 then
        bindM (get_skb i) (\<lambda>b. bindM (nonnull (skb_dst b)) (\<lambda>dst. bindM (get_rt dst) (\<lambda>rt.
          if rt_type rt = RTN_LOCAL then arp_answer i d (ld32 w 14) (ld32 w 24) (get_bytes w 8 6)
          else arp_update_known i (ld32 w 14) (get_bytes w 8 6) d)))
      else arp_update_known i (ld32 w 14) (get_bytes w 8 6) d)) s"
    unfolding arp_process_def arp_answer_def Let_def
    by (simp add: bindM_apply [of "get_skb i"] bindM_apply [of "get_dev d"] bindM_apply [of "nonnull x" for x] bindM_apply [of "load16 i k" for k]
       bindM_apply [of "load_bytes i k n" for k n] bindM_apply [of "load32 i k" for k]
       get_skb_Some [OF s(1)] get_dev_apply [OF s(2)] b nonnull_Some ld len off)
  show ?thesis unfolding eq Let_def arp_ok_def by auto
qed


lemma arp_rcv_stack:
  assumes inv: "stack_inv d nd H s" "inflight s i b" and b: "wf_skb b" "nh_raw b = Some (skb_data b)" "skb_dev b = Some d"
  shows "wp (arp_rcv i d) (\<lambda>rc t. rc = 0 \<and> stack_inv d nd H t) s"
proof -
  have s: "skbs s i = Some b" "devs s d = Some nd" "eth_dev nd" using inv by (simp_all add: inflight_def stack_inv_def link_inv_def)
  have out: "wp (bindM (kfree_skb i) (\<lambda>_. returnM (0 :: int))) (\<lambda>rc t. rc = 0 \<and> stack_inv d nd H t) s"
    by (rule release_stack [OF safe_step_refl [OF inv(1)] inv(2)])
  have al: "addr_len nd = 6" using s(3) by (simp add: eth_dev_def)
  have proc: "wp (arp_process i) (\<lambda>rc t. rc = 0 \<and> stack_inv d nd H t) s" if len: "28 \<le> unat (skb_len b)"
  proof -
    let ?w = "window b"
    let ?sip = "ld32 ?w 14" and ?tip = "ld32 ?w 24" and ?sha = "get_bytes ?w 8 6"
    have sha: "length ?sha = 6" using b(1) len by simp
    have known: "wp (arp_update_known i ?sip ?sha d) (\<lambda>rc t. rc = 0 \<and> stack_inv d nd H t) s"
      using inv sha by (intro arp_update_known_stack) simp_all
    have "wp (bindM (if ld16 ?w 6 = htons (ARPOP_REQUEST :: u16) then ip_route_input i ?tip ?sip 0 d else returnM (-1)) (\<lambda>err.
      if err = 0 then
        bindM (get_skb i) (\<lambda>b. bindM (nonnull (skb_dst b)) (\<lambda>dst. bindM (get_rt dst) (\<lambda>rt.
          if rt_type rt = RTN_LOCAL then arp_answer i d ?sip ?tip ?sha else arp_update_known i ?sip ?sha d)))
      else arp_update_known i ?sip ?sha d)) (\<lambda>rc t. rc = 0 \<and> stack_inv d nd H t) s"
    proof (rule wp_bindM_I [where R = "\<lambda>rc t. (rc = -1 \<and> t = s) \<or>
        (rc = 0 \<and> stack_inv d nd H t \<and> inflight t i (b\<lparr>skb_dst := Some (brk s)\<rparr>) \<and>
         rtables t (brk s) = Some (in_rt (os s) (brk s) d nd ?tip ?sip 0))"])
      fix err t assume "(err = -1 \<and> t = s) \<or>
        (err = (0 :: int) \<and> stack_inv d nd H t \<and> inflight t i (b\<lparr>skb_dst := Some (brk s)\<rparr>) \<and>
         rtables t (brk s) = Some (in_rt (os s) (brk s) d nd ?tip ?sip 0))"
      then show "wp (if err = 0 then
        bindM (get_skb i) (\<lambda>b. bindM (nonnull (skb_dst b)) (\<lambda>dst. bindM (get_rt dst) (\<lambda>rt.
          if rt_type rt = RTN_LOCAL then arp_answer i d ?sip ?tip ?sha else arp_update_known i ?sip ?sha d)))
        else arp_update_known i ?sip ?sha d) (\<lambda>rc t. rc = 0 \<and> stack_inv d nd H t) t"
      proof
        assume t: "err = 0 \<and> stack_inv d nd H t \<and> inflight t i (b\<lparr>skb_dst := Some (brk s)\<rparr>) \<and>
          rtables t (brk s) = Some (in_rt (os s) (brk s) d nd ?tip ?sip 0)"
        then have "wp (arp_answer i d ?sip ?tip ?sha) (\<lambda>rc t. rc = 0 \<and> stack_inv d nd H t) t"
          unfolding arp_answer_def using sha by (intro arp_reply_stack) auto
        with t show ?thesis by (simp add: wp_def comp_simps inflight_def in_rt_def)
      qed (use known in simp)
    qed (use ip_route_input_stack [OF inv] in \<open>auto simp: wp_returnM\<close>)
    then show ?thesis
      using out unfolding wp_def arp_process_apply [OF s b len] by (simp split: if_split)
  qed
  have blk: "in_block b (skb_data b + 4) 1" "in_block b (skb_data b + 5) 1" if "28 \<le> unat (skb_len b)"
    using in_block_window [OF b(1), of 4 1] in_block_window [OF b(1), of 5 1] that by simp_all
  show ?thesis
    using s b al out proc blk
    by (cases "28 \<le> unat (skb_len b)")
      (simp_all add: arp_rcv_def wp_def comp_simps load_defs skb_may_pull_def word_le_nat_alt Let_def)
qed

lemma ip_rcv_undeliverable:
  assumes b: "skbs s i = Some b" "wf_skb b" "nh_raw b = Some (skb_data b)" "skb_dst b = None" "skb_dev b = Some d"
    and s: "devs s d = Some nd" "mem_ok s" "ip_ok (window b)"
    and fib: "fib_rep s lcl mn" "\<And>l fa. fib_route lcl mn (ld32 (window b) 16) = Some (l, fa) \<Longrightarrow> fa_type fa \<noteq> RTN_LOCAL"
  shows "ip_rcv_finish i s = Inr (NET_RX_DROP, s)"
proof -
  have len: "20 \<le> unat (skb_len b)" using s(3) b(2) by (simp add: ip_ok_def)
  have ld: "load32 i (skb_data b + 16) s = Inr (ld32 (window b) 16, s)" "load32 i (skb_data b + 12) s = Inr (ld32 (window b) 12, s)"
    "load8 i (skb_data b + 1) s = Inr (window b ! 1, s)"
    using in_block_window [OF b(2), of 16 4] in_block_window [OF b(2), of 12 4] in_block_window [OF b(2), of 1 1]
      load_window(2) [OF b(2), of 16] load_window(2) [OF b(2), of 12] load_window(3) [OF b(2), of 1] len b(1)
    by (simp_all add: load_defs comp_simps)
  have "ip_route_input i (ld32 (window b) 16) (ld32 (window b) 12) (window b ! 1) d s = Inr (-1, s)"
    using ip_route_input_apply [OF fib(1) s(1) b(1) s(2)] fib(2) by (auto split: option.split)
  then show ?thesis using b ld by (simp add: ip_rcv_finish_def comp_simps)
qed

subsection \<open>A frame from the driver to its handler\<close>

definition rx_skb :: "nat \<Rightarrow> net_device \<Rightarrow> u8 list \<Rightarrow> sk_buff" where
  "rx_skb d nd f = zero_skb\<lparr>skb_dev := Some d, input_dev := Some d, h_raw := Some 14, nh_raw := Some 14, mac_raw := Some 0,
     skb_len := of_nat (length f) - 14, mac_len := 14, skb_protocol := ld16 f 12, pkt_type := eth_class nd f 0, skb_data := 14,
     skb_tail := int (length f), skb_end := int (length f), skb_buf := f\<rparr>"

lemma rx_skb_facts:
  assumes "14 \<le> length f" "length f \<le> 1514"
  shows "wf_skb (rx_skb d nd f)" "window (rx_skb d nd f) = drop 14 f" "nh_raw (rx_skb d nd f) = Some (skb_data (rx_skb d nd f))"
    "skb_dst (rx_skb d nd f) = None" "skb_dev (rx_skb d nd f) = Some d" "unat (skb_len (rx_skb d nd f)) = length f - 14"
    "pkt_type (rx_skb d nd f) = eth_class nd f 0"
proof -
  have u: "unat (of_nat (length f) :: u32) = length f" using assms(2) by (intro unat_of_nat_u32) simp
  then have le: "14 \<le> (of_nat (length f) :: u32)" using assms(1) by (simp add: word_le_nat_alt)
  show len: "unat (skb_len (rx_skb d nd f)) = length f - 14" using le u by (simp add: rx_skb_def unat_sub)
  then have "uint (skb_len (rx_skb d nd f)) = int (length f) - 14" using assms(1) by (simp add: uint_nat of_nat_diff)
  then show "wf_skb (rx_skb d nd f)" using assms by (simp add: wf_skb_def) (simp add: rx_skb_def zero_skb_def)
  show "window (rx_skb d nd f) = drop 14 f" unfolding window_def len by (simp add: rx_skb_def get_bytes_def)
qed (simp_all add: rx_skb_def zero_skb_def)

definition receive :: "nat \<Rightarrow> nat \<Rightarrow> u8 list \<Rightarrow> ('z sock_store_scheme, unit) comp" where
  "receive d i f = bindM (getsM ptype_base) (\<lambda>pts.
     bindM (case find_ptype (ld16 f 12) (Some d) pts of Some g \<Rightarrow> call_packet_fn g i (Some d) | None \<Rightarrow> returnM NET_RX_DROP) (\<lambda>ret.
     bindM (if ret = NET_RX_DROP then kfree_skb i else returnM ()) (\<lambda>_. returnM ())))"

lemma ether_rx_apply:
  assumes s: "mem_ok s" "devs s d = Some nd" "eth_dev nd" and f: "f = take 1514 frame" "14 \<le> length f"
  shows "ether_rx d (Some frame) s = receive d (brk s) f (alloc_state s 2 (rx_skb d nd f))"
proof -
  define S where "S c = alloc_state s 2 c" for c
  let ?i = "brk s"
  have len: "length f \<le> 1514" using f by simp
  have u: "uint (of_nat (length f) :: u32) = int (length f)" "unat (of_nat (length f) :: u32) = length f"
    using uint_of_nat_add_u32 [of "length f" 0] unat_of_nat_u32 [of "length f"] len by simp_all
  have get: "skbs (S c) ?i = Some c" for c by (simp add: S_def)
  have upd: "(S c)\<lparr>skbs := (skbs (S c))(?i \<mapsto> c')\<rparr> = S c'" for c c' by (simp add: S_def alloc_state_def)
  let ?n = "new_skb s (of_nat (length f))"
  let ?b1 = "?n\<lparr>skb_tail := int (length f), skb_len := of_nat (length f), skb_buf := f, skb_dev := Some d\<rparr>"
  let ?b2 = "?b1\<lparr>mac_raw := Some 0, skb_len := of_nat (length f) - 14, skb_data := 14, pkt_type := eth_class nd f 0\<rparr>"
  let ?b3 = "?b2\<lparr>skb_protocol := ld16 f 12\<rparr>"
  have alloc: "dev_alloc_skb (of_nat (length f)) s = Inr (Some ?i, S ?n)"
    using s(1) by (simp add: dev_alloc_skb_def alloc_skb_apply mem_ok_def S_def)
  have put: "on_skb ?i (skb_put (of_nat (length f))) (S ?n) = Inr (Some 0, S (?n\<lparr>skb_tail := int (length f), skb_len := of_nat (length f)\<rparr>))"
    by (simp add: on_skb_apply [OF get] upd skb_put_def u)
  have store: "store_bytes ?i 0 f (S (?n\<lparr>skb_tail := int (length f), skb_len := of_nat (length f)\<rparr>)) =
      Inr ((), S (?n\<lparr>skb_tail := int (length f), skb_len := of_nat (length f), skb_buf := f\<rparr>))"
    using u by (simp add: store_bytes_apply [OF get] in_block_def upd put_bytes_all)
  have wf: "wf_skb ?b1" "window ?b1 = f" using len u
    by (simp_all add: wf_skb_def new_skb_def zero_skb_def window_def get_bytes_def)
  have trans: "eth_type_trans ?i d (S ?b1) = Inr (ld16 f 12, S ?b2)"
    using eth_type_trans_apply [of "S ?b1" ?i ?b1 d nd] get wf s f(2) u by (simp add: S_def eth_dev_def)
  have pt: "ptype_base (S c) = ptype_base s" for c by (simp add: S_def alloc_state_def)
  have netif: "netif_rx ?i (S ?b3) = bindM (case find_ptype (ld16 f 12) (Some d) (ptype_base s) of
      Some g \<Rightarrow> call_packet_fn g ?i (Some d) | None \<Rightarrow> returnM NET_RX_DROP) (\<lambda>ret.
      if ret = NET_RX_DROP then bindM (kfree_skb ?i) (\<lambda>_. returnM ret) else returnM ret) (S (rx_skb d nd f))"
  proof -
    have fin: "?b3\<lparr>input_dev := Some d, nh_raw := Some 14, h_raw := Some 14, mac_len := 14\<rparr> = rx_skb d nd f"
      by (simp add: rx_skb_def new_skb_def zero_skb_def u)
    show ?thesis
      unfolding fin [symmetric]
      by (simp add: netif_rx_def netif_receive_skb_def bindM_apply upd_skb_apply [OF get] upd get_skb_Some [OF get] returnM_apply getsM_apply pt
          cong: option.case_cong)
  qed
  have run: "ether_rx d (Some frame) s = bindM (netif_rx ?i) (\<lambda>_. returnM ()) (S ?b3)"
    using f s(1) by (simp add: ether_rx_def Let_def f(1) [symmetric] bindM_apply alloc put nonnull_Some store
        upd_skb_apply [OF get] upd trans)
  show ?thesis
    unfolding run S_def [symmetric] receive_def bindM_apply netif getsM_apply
    by (simp add: comp_simps pt split: sum.split)
qed

text \<open>The one kind of packet that the stack does not survive: ICMP messages of a known type without a handler.\<close>

definition icmp_unhandled :: "u8 list \<Rightarrow> bool" where
  "icmp_unhandled w \<longleftrightarrow> ip_ok w \<and> w ! 9 = IPPROTO_ICMP \<and>
     (let m = drop (ihl_bytes w) w in 8 \<le> length m \<and> m ! 0 \<le> 18 \<and> m ! 0 \<noteq> 8)"

lemma find_protocol_registered:
  "find_protocol p [udp_protocol, icmp_protocol] =
     (if p = IPPROTO_UDP then Some Udp_rcv else if p = IPPROTO_ICMP then Some Icmp_rcv else None)"
  by (simp add: udp_protocol_def icmp_protocol_def)

lemma ip_rcv_stack:
  assumes inv: "stack_inv d nd H s" "inflight s i b"
    and b: "wf_skb b" "nh_raw b = Some (skb_data b)" "skb_dst b = None" "skb_dev b = Some d" "unat (skb_len b) \<le> 1500"
    and ok: "\<not> icmp_unhandled (window b)"
  shows "wp (ip_rcv i) (\<lambda>rc t. stack_inv d nd (deliver (if pkt_type b \<in> {PACKET_OTHERHOST, PACKET_MULTICAST, PACKET_BROADCAST} then None
    else segment_for H (window b)) H) t \<and> (rc = NET_RX_DROP \<longrightarrow> inflight t i b)) s" (is "wp _ (\<lambda>rc t. stack_inv d nd ?H t \<and> _) s")
proof -
  have s: "skbs s i = Some b" "devs s d = Some nd" "mem_ok s" "inet_protos s = [udp_protocol, icmp_protocol]"
    using inv by (simp_all add: inflight_def stack_inv_def link_inv_def upper_inv_def)
  obtain lcl mn where fib: "fib_rep s lcl mn" using inv(1) by (auto simp: stack_inv_def upper_inv_def routes_ok_def)
  let ?w = "window b"
  have addr: "addresses H = local_addr s" using inv(1) by (simp add: stack_inv_def upper_inv_def host_view_def)
  show ?thesis
  proof (cases "pkt_type b \<notin> {PACKET_OTHERHOST, PACKET_MULTICAST, PACKET_BROADCAST} \<and> ip_ok ?w")
    case False
    then have "?H = H" by (auto simp: deliver_def segment_for_def Let_def)
    with False ip_rcv_cases [OF s(1) b(1,2)] inv show ?thesis by (auto simp: wp_def)
  next
    case True
    then have w: "ip_ok ?w" and rcv: "ip_rcv i s = ip_rcv_finish i s" and H: "?H = deliver (segment_for H ?w) H"
      using ip_rcv_cases [OF s(1) b(1,2)] by auto
    show ?thesis
    proof (cases "\<exists>l fa. fib_route lcl mn (ld32 ?w 16) = Some (l, fa) \<and> fa_type fa = RTN_LOCAL")
      case False
      then have "segment_for H ?w = None" using addr local_addr_iff [OF fib] by (auto simp: segment_for_def Let_def)
      with False ip_rcv_undeliverable [OF s(1) b(1-4) s(2,3) w fib] inv rcv show ?thesis unfolding H by (auto simp: wp_def deliver_def)
    next
      case True
      then obtain l fa where r: "fib_route lcl mn (ld32 ?w 16) = Some (l, fa)" "fa_type fa = RTN_LOCAL" by blast
      let ?t = "local_state i b d nd ?w s" and ?c = "local_skb (ihl_bytes ?w) (brk s) b"
      have acc: "accepts_local s i b d nd" using s b \<open>pkt_type b \<notin> _ \<and> _\<close> by (simp add: accepts_local_def)
      note t = stack_inv_local [OF inv, of ?w]
      have k: "20 \<le> ihl_bytes ?w" "ihl_bytes ?w \<le> unat (skb_len b)" using w b(1) by (simp_all add: ip_ok_def)
      note c = local_skb_simps [OF b(1) k b(2), of "brk s"]
      have cl: "unat (skb_len ?c) \<le> 1480"
        using length_window [of ?c] c(1,2) b(1,5) k by (simp add: transport_skb_def)
      then have cl': "unat (skb_len ?c) \<le> 65515" by simp
      have rt: "rtables ?t (brk s) = Some (in_rt (os s) (brk s) d nd (ld32 ?w 16) (ld32 ?w 12) (?w ! 1))"
        by (simp add: local_state_def)
      have ty: "length (window ?c) < 8 \<or> 18 < window ?c ! 0 \<or> window ?c ! 0 = 8" if "?w ! 9 = IPPROTO_ICMP"
        using ok w that c(2) by (auto simp: icmp_unhandled_def Let_def not_le not_less)
      have seg: "segment_for H ?w = (if ?w ! 9 = IPPROTO_UDP then map_option (\<lambda>sk. (sk, message_of ?c)) (udp_owner ?t (window ?c)) else None)"
      proof -
        have "ports H = port_owner ?t" using t(1) by (simp add: stack_inv_def upper_inv_def host_view_def)
        moreover have "addresses H (ld32 ?w 16)" using r addr local_addr_iff [OF fib] by auto
        moreover have "message_of ?c = (ld32 ?w 12, ld16 (window ?c) 0, drop 8 (window ?c))"
          using c(1,5) by (simp add: message_of_def transport_skb_def)
        ultimately show ?thesis using w by (simp add: segment_for_def Let_def udp_owner_def c(2))
      qed
      have udp: "wp (udp_rcv i) (\<lambda>rc t. stack_inv d nd (deliver (segment_for H ?w) H) t \<and> (rc = NET_RX_DROP \<longrightarrow> inflight t i b)) ?t" if "?w ! 9 = IPPROTO_UDP"
        by (rule wp_mono [OF udp_rcv_inv [OF t c(1) cl]]) (simp add: seg that)
      have other: "deliver (segment_for H ?w) H = H" if "?w ! 9 \<noteq> IPPROTO_UDP" using that by (simp add: seg deliver_def)
      have icmp: "wp (icmp_rcv i) (\<lambda>rc t. stack_inv d nd (deliver (segment_for H ?w) H) t \<and> (rc = NET_RX_DROP \<longrightarrow> inflight t i b)) ?t" if "?w ! 9 = IPPROTO_ICMP"
        by (rule wp_mono [OF icmp_rcv_inv [OF t c(1) cl' c(4) rt ty [OF that]]]) (use other that in simp)
      show ?thesis
        using icmp udp t(1) other unfolding H wp_def ip_rcv_deliver [OF acc w fib r] s(4) find_protocol_registered
        by (simp add: call_handler_def returnM_apply)
    qed
  qed
qed

lemma find_ptype_registered:
  "find_ptype p dev [ip_packet_type, arp_packet_type] =
     (if p = htons ETH_P_IP then Some Ip_rcv else if p = htons ETH_P_ARP then Some Arp_rcv else None)"
  by (auto simp: ip_packet_type_def arp_packet_type_def)

lemma ether_rx_stack:
  assumes inv: "stack_inv d nd H s"
    and ok: "\<And>frame. input = Some frame \<Longrightarrow> ld16 frame 12 = htons ETH_P_IP \<Longrightarrow> \<not> icmp_unhandled (drop 14 (take 1514 frame))"
  shows "wp (ether_rx d input) (\<lambda>_ t. stack_inv d nd (case input of None \<Rightarrow> H | Some frame \<Rightarrow> deliver (frame_for nd H (take 1514 frame)) H) t) s"
proof (cases input)
  case None
  then show ?thesis using inv by (simp add: ether_rx_def wp_def comp_simps)
next
  case (Some frame)
  define f where "f = take 1514 frame"
  show ?thesis
  proof (cases "14 \<le> length f")
    case False
    then show ?thesis using inv Some by (simp add: ether_rx_def wp_def comp_simps Let_def f_def frame_for_def deliver_def)
  next
    case True
    have s: "mem_ok s" "devs s d = Some nd" "eth_dev nd" "heap_ok s" "ptype_base s = [ip_packet_type, arp_packet_type]"
      using inv by (simp_all add: stack_inv_def link_inv_def upper_inv_def)
    let ?i = "brk s" and ?b = "rx_skb d nd f" and ?H = "deliver (frame_for nd H f) H"
    let ?t = "alloc_state s 2 ?b"
    have len: "length f \<le> 1514" by (simp add: f_def)
    note b = rx_skb_facts [OF True len, of d nd]
    have t: "stack_inv d nd H ?t" "inflight ?t ?i ?b" "ptype_base ?t = [ip_packet_type, arp_packet_type]"
      using stack_inv_arp_send(1) [OF inv, where c = ?b and o' = "tap_out s"] s(5) by (simp_all add: inflight_def alloc_state_def)
    have nz: "ld16 f 12 = ld16 frame 12" using True by (simp add: f_def ld16_def)
    have drop: "wp (bindM (if ret = NET_RX_DROP then kfree_skb ?i else returnM ()) (\<lambda>_. returnM ())) (\<lambda>_ u. stack_inv d nd ?H u) u"
      if "stack_inv d nd ?H u" "ret = NET_RX_DROP \<longrightarrow> inflight u ?i ?b" for ret :: int and u
      using that stack_inv_skb [of d nd ?H u ?i ?b] by (auto simp: wp_simps inflight_def)
    have other: "?H = H" if "ld16 f 12 \<noteq> htons ETH_P_IP" using that by (simp add: frame_for_def deliver_def)
    have arp: "wp (arp_rcv ?i d) (\<lambda>rc u. stack_inv d nd ?H u \<and> (rc = NET_RX_DROP \<longrightarrow> inflight u ?i ?b)) ?t" if "ld16 f 12 \<noteq> htons ETH_P_IP"
      by (rule wp_mono [OF arp_rcv_stack [OF t(1,2) b(1,3,5)]]) (simp add: other [OF that])
    have H: "?H = deliver (if pkt_type ?b \<in> {PACKET_OTHERHOST, PACKET_MULTICAST, PACKET_BROADCAST} then None else segment_for H (window ?b)) H"
      if "ld16 f 12 = htons ETH_P_IP" using that True unfolding b(2,7) frame_for_def by simp
    have ip: "wp (ip_rcv ?i) (\<lambda>rc u. stack_inv d nd ?H u \<and> (rc = NET_RX_DROP \<longrightarrow> inflight u ?i ?b)) ?t" if "ld16 f 12 = htons ETH_P_IP"
      unfolding H [OF that] using ok [OF Some] that nz b len by (intro ip_rcv_stack [OF t(1,2) b(1,3-5)]) (simp_all add: f_def)
    have "wp (case find_ptype (ld16 f 12) (Some d) (ptype_base ?t) of Some g \<Rightarrow> call_packet_fn g ?i (Some d) | None \<Rightarrow> returnM NET_RX_DROP)
        (\<lambda>rc u. stack_inv d nd ?H u \<and> (rc = NET_RX_DROP \<longrightarrow> inflight u ?i ?b)) ?t"
      unfolding t(3) find_ptype_registered using arp ip t(1,2) other by (simp add: call_packet_fn_def wp_simps)
    then have "wp (receive d ?i f) (\<lambda>_ u. stack_inv d nd ?H u) ?t"
      unfolding receive_def wp_bindM [of "getsM ptype_base"] wp_getsM by (rule wp_bindM_I) (use drop in blast)
    then show ?thesis unfolding Some wp_def ether_rx_apply [OF s(1-3) f_def True] option.case f_def .
  qed
qed

end
