(* ===== verification/Socket_Calls.thy ===== *)
theory Socket_Calls
  imports Frame_Input
begin

text \<open>
  The system calls of \<^verbatim>\<open>core/socket.c\<close> on the running stack. When the state stands for the host \<open>H\<close>, each of them returns,
  and the new state stands for a host that a step of \<open>host_step\<close> leads to from \<open>H\<close> with the same result; \<^verbatim>\<open>sys_recvfrom\<close> waits
  while the inbox is empty.
\<close>

section \<open>Descriptors and ports\<close>

lemma stack_inv_view:
  assumes "stack_inv d nd H s"
  shows "descriptors H = fd_descriptor s" "ports H = port_owner s" "tables_ok s" "\<And>sk. socks s sk = None \<Longrightarrow> inbox H sk = []"
    "\<And>sk. socks s sk \<noteq> None \<Longrightarrow> sock_ok s sk (inbox H sk)"
  using assms by (simp_all add: stack_inv_def upper_inv_def host_view_def)

lemma descriptors_used: "stack_inv d nd H s \<Longrightarrow> k < 512 \<Longrightarrow> descriptors H k \<noteq> Closed \<longleftrightarrow> map_used (socket_maps s k)"
  using stack_inv_view(1,3) [of d nd H s] by (auto simp: fd_descriptor_def fd_socket_def tables_ok_def split: option.splits)

lemma ports_used: "stack_inv d nd H s \<Longrightarrow> k < 512 \<Longrightarrow> ports H k \<noteq> None \<longleftrightarrow> map_used (udptable s k)"
  using stack_inv_view(2,3) [of d nd H s] by (auto simp: port_owner_def tables_ok_def)

lemma first_unused_least:
  assumes "\<And>k. k < 512 \<Longrightarrow> used k \<longleftrightarrow> map_used (m k)"
  shows "if first_unused m 0 512 = 512 then no_free used else least_free used (first_unused m 0 512)"
  using first_unused_spec [of 0 512 m] assms by (auto simp: no_free_def least_free_def)

lemma descriptor_closed:
  assumes "stack_inv d nd H s" "descriptor_of H fd = Closed" "0 \<le> fd" "fd < 512"
  shows "sock_from_fd fd s = Inr (None, s)"
  using assms descriptors_used [OF assms(1), of "nat fd"] by (simp add: descriptor_of_def sock_from_fd_def read_map_def comp_simps)

lemma udp_fdE:
  assumes "stack_inv d nd H s" "descriptor_of H fd = Udp_descriptor sk"
  obtains so z x xs where "sock_from_fd fd s = Inr (Some so, s)" "sockets s so = Some z" "sock_ops z = Some Inet_dgram_ops" "socket_sk z = Some sk"
    "socks s sk = Some x" "sk_prot x = Udp_prot" "sk_protocol x = IPPROTO_UDP"
    "queue_rep s (Receive_queue sk) xs" "\<forall>i \<in> set xs. \<exists>b. skbs s i = Some b \<and> datagram_ok b"
    "inbox H sk = map (\<lambda>i. message_of (the (skbs s i))) xs"
proof -
  from assms obtain so z where so: "map_sk (socket_maps s (nat fd)) = Some so" "map_used (socket_maps s (nat fd))" "nat fd < 512" "0 \<le> fd"
      "sockets s so = Some z" "sock_ops z = Some Inet_dgram_ops" "socket_sk z = Some sk"
    using proto_ops_ptr.exhaust stack_inv_view(1) [OF assms(1)]
    by (auto simp: descriptor_of_def fd_descriptor_def fd_sock_def fd_socket_def split: option.splits if_splits) metis
  then have "socket_ok s so" using assms(1) by (auto simp: stack_inv_def upper_inv_def)
  with so obtain x where x: "socks s sk = Some x" "sk_prot x = Udp_prot" "sk_protocol x = IPPROTO_UDP"
    by (auto simp: socket_ok_def sock_kind_def)
  then have "sock_ok s sk (inbox H sk)" using stack_inv_view(5) [OF assms(1)] by simp
  moreover have "sock_from_fd fd s = Inr (Some so, s)" using so by (simp add: sock_from_fd_def read_map_def comp_simps)
  ultimately show ?thesis using that so x by (auto simp: sock_ok_def)
qed

lemma stack_inv_socks:
  assumes "stack_inv d nd H s" "socks s sk = Some x" "sock_kind y = sock_kind x"
  shows "stack_inv d nd H (s\<lparr>socks := (socks s)(sk \<mapsto> y)\<rparr>)"
  using assms by (intro stack_inv_quiet [OF assms(1) mem_frame_same]) (simp_all add: same_upper_def)

lemma stack_inv_tables:
  assumes inv: "stack_inv d nd H s" and t: "t = s\<lparr>udptable := u, socket_maps := m\<rparr>" "tables_ok t"
    and "\<And>p sk. port_owner t p = Some sk \<Longrightarrow> socks s sk \<noteq> None"
    and "\<And>fd so. fd < 512 \<Longrightarrow> map_used (m fd) \<Longrightarrow> map_sk (m fd) = Some so \<Longrightarrow> socket_ok s so"
  shows "stack_inv d nd (H\<lparr>descriptors := fd_descriptor t, ports := port_owner t\<rparr>) t"
proof -
  have fr: "mem_frame {} {} s t" unfolding t(1) by (rule mem_frame_same) simp_all
  have "link_inv d nd t" unfolding t(1) by (rule link_inv_frame [OF _ fr [unfolded t(1)]]) (use inv in \<open>simp_all add: stack_inv_def link_inv_def\<close>)
  moreover have "sock_ok t sk (inbox H sk)" if "socks s sk \<noteq> None" for sk
    by (rule sock_ok_frame [OF _ fr]) (use that stack_inv_view(5) [OF inv] in auto)
  moreover have "routes_ok d t" "socket_ok t = socket_ok s" "icmp_ok t = icmp_ok s" "local_addr t = local_addr s"
    using inv t(1) by (simp_all add: stack_inv_def upper_inv_def routes_ok_def fib_rep_def socket_ok_def icmp_ok_def local_addr_def fun_eq_iff)
  ultimately show ?thesis using inv assms(3-) t(1) by (simp add: stack_inv_def upper_inv_def host_view_def) blast
qed

lemma stack_inv_port:
  assumes inv: "stack_inv d nd H s" and "socks s sk \<noteq> None" "p < 512"
  shows "stack_inv d nd (H\<lparr>ports := (ports H)(p \<mapsto> sk)\<rparr>) (s\<lparr>udptable := (udptable s)(p := \<lparr>map_sk = Some sk, map_used = True\<rparr>)\<rparr>)"
    (is "stack_inv d nd ?H ?t")
proof -
  note v = stack_inv_view [OF inv]
  have "stack_inv d nd (H\<lparr>descriptors := fd_descriptor ?t, ports := port_owner ?t\<rparr>) ?t"
    by (rule stack_inv_tables [OF inv, where u = "udptable ?t" and m = "socket_maps s"])
      (use assms v(3) in \<open>auto simp: stack_inv_def upper_inv_def port_owner_def tables_ok_def split: if_splits\<close>)
  moreover have "port_owner ?t = (ports H)(p \<mapsto> sk)" using v(2) assms(3) by (simp add: fun_eq_iff port_owner_def)
  moreover have "fd_descriptor ?t = descriptors H" unfolding v(1) by (intro fd_sock_same fd_socket_same) simp_all
  ultimately show ?thesis by simp
qed

definition socket_descriptor :: "'z sock_store_scheme \<Rightarrow> nat \<Rightarrow> descriptor" where
  "socket_descriptor s so = (case sockets s so of None \<Rightarrow> Raw_descriptor
     | Some z \<Rightarrow> if sock_ops z = None then Raw_descriptor else (case socket_sk z of None \<Rightarrow> Raw_descriptor | Some sk \<Rightarrow> Udp_descriptor sk))"

lemma fd_descriptor_socket: "fd_descriptor s fd = (case fd_socket s fd of None \<Rightarrow> Closed | Some so \<Rightarrow> socket_descriptor s so)"
  by (simp add: fd_descriptor_def fd_sock_def socket_descriptor_def split: option.split)

lemma stack_inv_fd:
  assumes inv: "stack_inv d nd H s" and "socket_ok s so" "fd < 512"
  shows "stack_inv d nd (H\<lparr>descriptors := (descriptors H)(fd := socket_descriptor s so)\<rparr>)
    (s\<lparr>socket_maps := (socket_maps s)(fd := \<lparr>map_sk = Some so, map_used = True\<rparr>)\<rparr>)" (is "stack_inv d nd ?H ?t")
proof -
  note v = stack_inv_view [OF inv]
  have "stack_inv d nd (H\<lparr>descriptors := fd_descriptor ?t, ports := port_owner ?t\<rparr>) ?t"
    by (rule stack_inv_tables [OF inv, where u = "udptable s" and m = "socket_maps ?t"])
      (use assms v(3) in \<open>auto simp: stack_inv_def upper_inv_def port_owner_def tables_ok_def split: if_splits\<close>)
  moreover have "port_owner ?t = ports H" unfolding v(2) by (simp add: fun_eq_iff port_owner_def)
  moreover have sd: "socket_descriptor ?t = socket_descriptor s" by (simp add: socket_descriptor_def fun_eq_iff)
  have "fd_descriptor ?t = (descriptors H)(fd := socket_descriptor s so)"
    unfolding v(1) fd_descriptor_socket [abs_def] sd using assms(3) by (simp add: fun_eq_iff fd_socket_def)
  ultimately show ?thesis by simp
qed

section \<open>Creating a socket\<close>

text \<open>
  The state after a socket of a known protocol has been created: the socket, and its sock with two empty queues, at
  fresh addresses.
\<close>

definition socket_state :: "proto_ops_ptr option \<Rightarrow> int \<Rightarrow> udp_sock \<Rightarrow> 'z sock_store_scheme \<Rightarrow> 'z sock_store_scheme" where
  "socket_state ops type x s = (let sk = brk s + 1; w = Write_queue sk; r = Receive_queue sk in
     s\<lparr>brk := brk s + 2, nxt := (nxt s)(w \<mapsto> w, r \<mapsto> r), prv := (prv s)(w \<mapsto> w, r \<mapsto> r), qlen := (qlen s)(w := 0, r := 0),
       socks := (socks s)(sk \<mapsto> x),
       sockets := (sockets s)(brk s \<mapsto> \<lparr>sock_ops = ops, socket_sk = Some sk, sock_type = type\<rparr>)\<rparr>)"

definition new_sock :: "proto_ptr \<Rightarrow> int \<Rightarrow> udp_sock" where
  "new_sock p protocol = (zero_sock p)\<lparr>sk_family := 2, sk_protocol := word_of_int protocol\<rparr>"

definition dead_socket :: "int \<Rightarrow> 'z sock_store_scheme \<Rightarrow> 'z sock_store_scheme" where
  "dead_socket type s = s\<lparr>brk := brk s + 1, sockets := (sockets s)(brk s \<mapsto> \<lparr>sock_ops = None, socket_sk = None, sock_type = type\<rparr>)\<rparr>"

lemma sock_create_apply:
  assumes "mem_ok s"
  shows "sock_create family type protocol s = (
    if family < 0 \<or> family \<ge> 32 \<or> type < 0 \<or> type \<ge> 4 then Inr (None, s)
    else if net_families s (nat family) = None \<or> protocol \<notin> {0, 1, 17} then Inr (None, dead_socket type s)
    else if protocol = 17 then Inr (Some (brk s), socket_state (Some Inet_dgram_ops) type (new_sock Udp_prot protocol) s)
    else Inr (Some (brk s), socket_state None type (new_sock Raw_prot protocol) s))"
  using assms by (cases "net_families s (nat family)") (simp_all add: sock_create_def sock_alloc_def inet_create_def comp_simps mem_ok_def inetsw_array_def
    dead_socket_def socket_state_def new_sock_def Let_def sk_alloc_def sock_init_data_def skb_queue_head_init_def zero_sock_def)

lemma socket_state_tables [simp]:
  "socket_maps (socket_state ops type x s) = socket_maps s" "socket_maps (dead_socket type s) = socket_maps s"
  "fd_socket (socket_state ops type x s) = fd_socket s" "fd_socket (dead_socket type s) = fd_socket s"
  "udptable (socket_state ops type x s) = udptable s" "udptable (dead_socket type s) = udptable s"
  by (simp_all add: socket_state_def dead_socket_def Let_def fd_socket_def fun_eq_iff)

text \<open>A state with more sockets stands for the same host.\<close>

lemma host_view_sockets:
  assumes inv: "stack_inv d nd H s" and t: "socket_maps t = socket_maps s" "udptable t = udptable s" "\<And>so. so < brk s \<Longrightarrow> sockets t so = sockets s so"
    "ip_fib_local_table t = ip_fib_local_table s" "ip_fib_main_table t = ip_fib_main_table s"
  shows "host_view H t" "tables_ok t"
proof -
  have "fd_descriptor t fd = fd_descriptor s fd" for fd
  proof (cases "fd_socket s fd")
    case (Some so)
    then have "socket_ok s so" using inv by (auto simp: stack_inv_def upper_inv_def fd_socket_def split: if_splits)
    then have "sockets t so = sockets s so" using t(3) by (simp add: socket_ok_def)
    with Some show ?thesis by (simp add: fd_descriptor_socket socket_descriptor_def fd_socket_same [OF t(1)])
  qed (simp add: fd_descriptor_socket fd_socket_same [OF t(1)])
  moreover have "port_owner t = port_owner s" using t(2) by (simp add: port_owner_def fun_eq_iff)
  ultimately show "host_view H t"
    using inv local_addr_same [OF t(4,5)] by (simp add: stack_inv_def upper_inv_def host_view_def fun_eq_iff)
  show "tables_ok t" using stack_inv_view(3) [OF inv] t(1,2) by (simp add: tables_ok_def)
qed

lemma socket_state_frame: "mem_frame {Write_queue (brk s + 1), Receive_queue (brk s + 1)} I s (socket_state ops type x s)"
proof -
  have "queue_rep (socket_state ops type x s) q ys" if "q \<notin> {Write_queue (brk s + 1), Receive_queue (brk s + 1)}" "queue_rep s q ys" for q ys
    by (rule queue_rep_frame [OF that(2)]) (use that in \<open>auto simp: socket_state_def Let_def queue_rep_def\<close>)
  then show ?thesis by (auto simp: mem_frame_def heap_ok_def socket_state_def Let_def less_Suc_eq)
qed

lemma fresh_sock: "stack_inv d nd H s \<Longrightarrow> socks s (brk s + k) = None \<and> inbox H (brk s + k) = []"
  using stack_inv_view(4,5) [of d nd H s "brk s + k"] by (cases "socks s (brk s + k)") (auto simp: sock_ok_def)

lemma socket_state_ok:
  assumes inv: "stack_inv d nd H s" and ops: "ops \<noteq> None \<Longrightarrow> sock_kind x = (Udp_prot, IPPROTO_UDP)"
  shows "socket_ok (socket_state ops type x s) (brk s)" "stack_inv d nd H (socket_state ops type x s)"
proof -
  let ?t = "socket_state ops type x s" and ?Q = "{Write_queue (brk s + 1), Receive_queue (brk s + 1)}"
  note fr = socket_state_frame [of s "{}" ops type x]
  show new: "socket_ok ?t (brk s)" using ops by (simp add: socket_ok_def socket_state_def Let_def)
  have old: "socket_ok ?t so" if "socket_ok s so" for so
  proof -
    from that inv have "so < brk s" "\<exists>z sk. sockets s so = Some z \<and> socket_sk z = Some sk \<and> socks s sk \<noteq> None \<and> sk < brk s \<and>
     (sock_ops z \<noteq> None \<longrightarrow> map_option sock_kind (socks s sk) = Some (Udp_prot, IPPROTO_UDP))"
      by (auto simp: socket_ok_def stack_inv_def upper_inv_def sock_ok_def)
    then show ?thesis unfolding socket_ok_def socket_state_def Let_def by (elim conjE exE, intro conjI exI) auto
  qed
  have icmp: "icmp_ok ?t"
  proof -
    from inv obtain so z sk where "icmp_socket s = Some so" "so < brk s" "sockets s so = Some z" "socket_sk z = Some sk"
      "map_option sock_kind (socks s sk) = Some (Raw_prot, IPPROTO_ICMP)" "sk < brk s"
      by (auto simp: stack_inv_def upper_inv_def icmp_ok_def sock_ok_def)
    then show ?thesis unfolding icmp_ok_def socket_state_def Let_def by (intro exI conjI) auto
  qed
  have "link_inv d nd ?t"
  proof (rule link_inv_frame [OF _ fr])
    show "r < brk ?t" if "rtables ?t r \<noteq> None" for r
      using that inv by (auto simp: stack_inv_def link_inv_def socket_state_def Let_def intro: less_trans)
  qed (use inv in \<open>auto simp: stack_inv_def socket_state_def Let_def\<close>)
  moreover have "upper_inv d H ?t"
  proof -
    have fresh: "inbox H (brk s + 1) = []" using fresh_sock [OF inv, of 1] by simp
    have "sock_ok ?t sk (inbox H sk)" if "socks ?t sk \<noteq> None" for sk
    proof (cases "sk = brk s + 1")
      case True
      then show ?thesis using fresh unfolding sock_ok_def socket_state_def Let_def
        by (intro conjI exI [of _ "[]"]) (simp_all add: queue_rep_def)
    next
      case False
      with that inv have "sock_ok s sk (inbox H sk)" by (auto simp: stack_inv_def upper_inv_def socket_state_def Let_def)
      then show ?thesis by (rule sock_ok_frame [OF _ fr]) (use False in auto)
    qed
    moreover have "routes_ok d ?t" "port_owner ?t = port_owner s" "ptype_base ?t = ptype_base s" "inet_protos ?t = inet_protos s"
       "net_families ?t = net_families s" "icmp_socket ?t = icmp_socket s" "socket_maps ?t = socket_maps s"
       "\<And>sk. socks s sk \<noteq> None \<Longrightarrow> socks ?t sk \<noteq> None" "\<And>sk. socks ?t sk = None \<Longrightarrow> socks s sk = None"
      using inv by (auto simp: stack_inv_def upper_inv_def routes_ok_def fib_rep_def port_owner_def socket_state_def Let_def fun_eq_iff split: if_splits)
    moreover have "host_view H ?t" "tables_ok ?t" by (rule host_view_sockets [OF inv]; simp add: socket_state_def Let_def)+
    ultimately show ?thesis using inv old icmp unfolding stack_inv_def upper_inv_def by metis
  qed
  ultimately show "stack_inv d nd H ?t" by (simp add: stack_inv_def)
qed

lemma dead_socket_ok:
  assumes inv: "stack_inv d nd H s"
  shows "stack_inv d nd H (dead_socket type s)"
proof -
  let ?t = "dead_socket type s"
  have fr: "mem_frame {} {} s ?t" by (rule mem_frame_same) (simp_all add: dead_socket_def)
  have "link_inv d nd ?t"
  proof (rule link_inv_frame [OF _ fr])
    show "r < brk ?t" if "rtables ?t r \<noteq> None" for r
      using that inv by (auto simp: stack_inv_def link_inv_def dead_socket_def intro: less_trans)
  qed (use inv in \<open>auto simp: stack_inv_def dead_socket_def\<close>)
  moreover have "sock_ok ?t sk (inbox H sk)" if "socks s sk \<noteq> None" for sk
    by (rule sock_ok_frame [OF _ fr]) (use that inv in \<open>auto simp: stack_inv_def upper_inv_def\<close>)
  moreover have "host_view H ?t" "tables_ok ?t" by (rule host_view_sockets [OF inv]; simp add: dead_socket_def)+
  moreover have "socket_ok ?t so" if "socket_ok s so" for so
    using that by (auto simp: socket_ok_def dead_socket_def)
  moreover have "icmp_ok s \<Longrightarrow> icmp_ok ?t" unfolding icmp_ok_def dead_socket_def by fastforce
  moreover have "routes_ok d ?t" "port_owner ?t = port_owner s" "ptype_base ?t = ptype_base s" "inet_protos ?t = inet_protos s"
       "net_families ?t = net_families s" "icmp_socket ?t = icmp_socket s" "socket_maps ?t = socket_maps s" "socks ?t = socks s"
    using inv by (auto simp: stack_inv_def upper_inv_def routes_ok_def fib_rep_def port_owner_def dead_socket_def fun_eq_iff)
  ultimately show ?thesis using inv unfolding stack_inv_def upper_inv_def by metis
qed


section \<open>System calls\<close>

lemma sys_socket_new:
  assumes inv: "stack_inv d nd H s" and v: "valid_socket family type protocol"
    and c: "sock_create family type protocol s = Inr (Some (brk s), socket_state ops type (new_sock p protocol) s)"
    and ops: "if protocol = 17 then p = Udp_prot \<and> ops \<noteq> None else ops = None"
  shows "wp (sys_socket family type protocol) (\<lambda>rc t. \<exists>H'. host_step nd H (Socket family type protocol) (rc, []) H' \<and> stack_inv d nd H' t) s"
proof -
  let ?fd = "first_unused (socket_maps s) 0 512" and ?t = "socket_state ops type (new_sock p protocol) s"
  have ok: "socket_ok ?t (brk s)" "stack_inv d nd H ?t"
    using ops by (auto intro!: socket_state_ok [OF inv] simp: sock_kind_def new_sock_def zero_sock_def split: if_splits)
  note fd = first_unused_least [of "\<lambda>k. descriptors H k \<noteq> Closed" "socket_maps s", OF descriptors_used [OF inv]]
  show ?thesis
  proof (cases "?fd = 512")
    case True
    with fd have "host_step nd H (Socket family type protocol) (-1, []) H" by (intro host_step.socket_refused) simp
    with True c ok show ?thesis by (auto simp: wp_def sys_socket_def comp_simps Let_def)
  next
    case False
    with fd have lf: "least_free (\<lambda>k. descriptors H k \<noteq> Closed) ?fd" by simp
    let ?u = "?t\<lparr>socket_maps := (socket_maps ?t)(?fd := \<lparr>map_sk = Some (brk s), map_used = True\<rparr>)\<rparr>"
      and ?H = "H\<lparr>descriptors := (descriptors H)(?fd := socket_descriptor ?t (brk s))\<rparr>"
    have u: "stack_inv d nd ?H ?u" using stack_inv_fd [OF ok(2,1), of ?fd] lf by (simp add: least_free_def)
    have run: "sys_socket family type protocol s = Inr (int ?fd, ?u)" using c False by (simp add: sys_socket_def comp_simps Let_def)
    have "host_step nd H (Socket family type protocol) (int ?fd, []) ?H"
    proof (cases "protocol = 17")
      case True
      have "Udp_descriptor (brk s + 1) \<notin> range (descriptors H)"
      proof
        assume "Udp_descriptor (brk s + 1) \<in> range (descriptors H)"
        then obtain fd where "descriptor_of H (int fd) = Udp_descriptor (brk s + 1)" by (auto simp: descriptor_of_def)
        from udp_fdE [OF inv this] fresh_sock [OF inv, of 1] show False by (metis option.distinct(1))
      qed
      moreover have "Some (brk s + 1) \<notin> range (ports H)"
      proof
        assume "Some (brk s + 1) \<in> range (ports H)"
        then obtain k where "port_owner s k = Some (brk s + 1)" using stack_inv_view(2) [OF inv] by (metis imageE)
        then have "socks s (brk s + 1) \<noteq> None" using inv unfolding stack_inv_def upper_inv_def by blast
        with fresh_sock [OF inv, of 1] show False by simp
      qed
      moreover have "socket_descriptor ?t (brk s) = Udp_descriptor (brk s + 1)"
        using True ops by (simp add: socket_descriptor_def socket_state_def Let_def)
      ultimately show ?thesis using True v lf fresh_sock [OF inv, of 1] by (auto intro: host_step.socket_udp)
    next
      case False
      then have "socket_descriptor ?t (brk s) = Raw_descriptor" using ops by (simp add: socket_descriptor_def socket_state_def Let_def)
      with False v lf show ?thesis by (auto intro: host_step.socket_raw)
    qed
    with u run show ?thesis by (auto simp: wp_def)
  qed
qed

lemma sys_socket_stack:
  assumes inv: "stack_inv d nd H s"
  shows "wp (sys_socket family type protocol) (\<lambda>rc t. \<exists>H'. host_step nd H (Socket family type protocol) (rc, []) H' \<and> stack_inv d nd H' t) s"
proof -
  have m: "mem_ok s" "net_families s = [2 \<mapsto> Inet_family_ops]" using inv by (simp_all add: stack_inv_def link_inv_def upper_inv_def)
  note c = sock_create_apply [OF m(1), of family type protocol]
  show ?thesis
  proof (cases "valid_socket family type protocol")
    case False
    then obtain t where "sock_create family type protocol s = Inr (None, t)" "t \<in> {s, dead_socket type s}"
      using c m(2) unfolding valid_socket_def by (auto split: if_splits)
    moreover have "host_step nd H (Socket family type protocol) (-1, []) H" using False by (intro host_step.socket_refused) simp
    ultimately show ?thesis using inv dead_socket_ok [OF inv, of type] by (auto simp: wp_def sys_socket_def comp_simps)
  next
    case True
    with c m(2) show ?thesis
      by (intro sys_socket_new [OF inv True, where p = "if protocol = 17 then Udp_prot else Raw_prot" and ops = "if protocol = 17 then Some Inet_dgram_ops else None"])
        (auto simp: valid_socket_def)
  qed
qed

text \<open>The port that a socket gets: the one asked for, or the least free one; and why there is none.\<close>

definition port_choice :: "host \<Rightarrow> u16 \<Rightarrow> nat \<Rightarrow> bool" where
  "port_choice H snum p \<longleftrightarrow> (if snum = 0 then least_free (\<lambda>k. ports H k \<noteq> None) p else p < 512 \<and> ports H p = None \<and> p = unat snum)"

definition no_port :: "host \<Rightarrow> u16 \<Rightarrow> bool" where
  "no_port H snum \<longleftrightarrow> (if snum = 0 then no_free (\<lambda>k. ports H k \<noteq> None) else 512 \<le> unat snum \<or> ports H (unat snum) \<noteq> None)"

lemma udp_v4_get_port_stack:
  assumes inv: "stack_inv d nd H s" and x: "socks s sk = Some x"
  shows "wp (udp_v4_get_port sk snum) (\<lambda>rc t. socket_maps t = socket_maps s \<and> sockets t = sockets s \<and> (\<exists>n. socks t = (socks s)(sk \<mapsto> x\<lparr>inet_num := n\<rparr>)) \<and>
    ((rc = 0 \<and> (\<exists>p. port_choice H snum p \<and> stack_inv d nd (H\<lparr>ports := (ports H)(p \<mapsto> sk)\<rparr>) t)) \<or>
     (rc = -1 \<and> no_port H snum \<and> stack_inv d nd H t))) s"
proof -
  have go: "stack_inv d nd (H\<lparr>ports := (ports H)(p \<mapsto> sk)\<rparr>)
      (s\<lparr>udptable := (udptable s)(p := \<lparr>map_sk = Some sk, map_used = True\<rparr>), socks := (socks s)(sk \<mapsto> x\<lparr>inet_num := n\<rparr>)\<rparr>)" if "p < 512" for p n
    using stack_inv_socks [OF stack_inv_port [OF inv, of sk p], of sk x "x\<lparr>inet_num := n\<rparr>"] x that by (simp add: sock_kind_def)
  have same: "\<exists>n. socks s = (socks s)(sk \<mapsto> x\<lparr>inet_num := n\<rparr>)" using x by (intro exI [of _ "inet_num x"]) (simp add: fun_upd_idem)
  let ?p = "first_unused (udptable s) 0 512"
  note p = first_unused_least [of "\<lambda>k. ports H k \<noteq> None" "udptable s", OF ports_used [OF inv]]
  show ?thesis
  proof (cases "snum = 0")
    case True
    then have "?p \<noteq> 512 \<Longrightarrow> port_choice H snum ?p \<and> ?p < 512" "?p = 512 \<Longrightarrow> no_port H snum"
      using p by (simp_all add: port_choice_def no_port_def least_free_def)
    then show ?thesis using True x inv same go [of ?p]
      by (cases "?p = 512") (auto simp: udp_v4_get_port_def wp_def comp_simps take_port_def Let_def)
  next
    case False
    then have "unat snum < 512 \<Longrightarrow> \<not> map_used (udptable s (unat snum)) \<Longrightarrow> port_choice H snum (unat snum)"
      "512 \<le> unat snum \<or> map_used (udptable s (unat snum)) \<Longrightarrow> no_port H snum"
      using ports_used [OF inv, of "unat snum"] by (auto simp: port_choice_def no_port_def) (meson not_le)
    then show ?thesis using False x inv same go [of "unat snum"]
      by (auto simp: udp_v4_get_port_def wp_def comp_simps take_port_def Let_def not_le)
  qed
qed

lemma sys_bind_stack:
  assumes inv: "stack_inv d nd H s" and fd: "descriptor_of H fd = Udp_descriptor sk"
  shows "wp (sys_bind fd addr addrlen) (\<lambda>rc t. \<exists>H'. host_step nd H (Bind fd addr addrlen) (rc, []) H' \<and> stack_inv d nd H' t) s"
proof -
  obtain so z x where z: "sock_from_fd fd s = Inr (Some so, s)" "sockets s so = Some z" "sock_ops z = Some Inet_dgram_ops" "socket_sk z = Some sk"
    and x: "socks s sk = Some x" "sk_prot x = Udp_prot" by (rule udp_fdE [OF inv fd])
  define y where "y = x\<lparr>inet_rcv_saddr := sin_addr addr, inet_saddr := sin_addr addr\<rparr>"
  let ?s = "s\<lparr>socks := (socks s)(sk \<mapsto> y)\<rparr>" and ?n = "ntohs (sin_port addr)"
  have y: "stack_inv d nd H ?s" "socks ?s sk = Some y" "sk_prot y = Udp_prot"
    using x by (auto intro: stack_inv_socks [OF inv x(1)] simp: y_def sock_kind_def)
  have n: "?n = 0 \<longleftrightarrow> sin_port addr = 0"
    using htons_eq_iff [of "sin_port addr" 0] by (simp add: ntohs_def htons_def [of "0 :: u16"])
  obtain rc t where run: "udp_v4_get_port sk ?n ?s = Inr (rc, t)" and t:
      "(rc = 0 \<and> (\<exists>p. port_choice H ?n p \<and> stack_inv d nd (H\<lparr>ports := (ports H)(p \<mapsto> sk)\<rparr>) t)) \<or> (rc = -1 \<and> no_port H ?n \<and> stack_inv d nd H t)"
    using udp_v4_get_port_stack [OF y(1,2), of ?n] unfolding wp_iff by fastforce
  have "sys_bind fd addr addrlen s = Inr (rc, t)"
    using t z x run y(2,3) by (auto simp: sys_bind_def inet_bind_def comp_simps Let_def y_def call_get_port_def)
  moreover have "\<exists>H'. host_step nd H (Bind fd addr addrlen) (rc, []) H' \<and> stack_inv d nd H' t"
    using t host_step.bind_port [OF fd, of addr] host_step.bind_refused [OF fd, of addr] unfolding port_choice_def no_port_def n by blast
  ultimately show ?thesis by (simp add: wp_def)
qed

lemma udp_sendmsg_stack:
  assumes inv: "stack_inv d nd H s" and x: "socks s sk = Some x" "sk_protocol x = IPPROTO_UDP"
    and m: "msg_name msg = Some usin" and len: "k \<le> length (iov_base (msg_iov msg))" "k \<le> 65507"
  shows "wp (udp_sendmsg sk msg (of_nat k)) (\<lambda>rc t. rc \<in> {0, -1} \<and> stack_inv d nd H t \<and> same_upper s t) s"
proof (cases "(word_of_int (msg_namelen msg) :: 64 word) < 8 \<or> sin_family usin \<noteq> 2 \<or> sin_port usin = 0")
  case True
  then show ?thesis using inv m by (auto simp: wp_def udp_sendmsg_def udp_msg_dest_def comp_simps same_upper_def)
next
  case False
  let ?fl = "zero_flowi\<lparr>fl4_dst := sin_addr usin\<rparr>"
  have s: "routes_ok d s" "link_inv d nd s" "queue_rep s (Write_queue sk) []"
    using inv x by (auto simp: stack_inv_def upper_inv_def sock_ok_def)
  have "wp (ip_route_output_flow ?fl) (\<lambda>r t. (r = None \<and> t = s) \<or> (\<exists>fi type. r = Some (brk s) \<and> t = routed_state ?fl fi type d nd s)) s"
    using s by (intro ip_route_output_inv) (simp_all add: zero_flowi_def)
  then consider "ip_route_output_flow ?fl s = Inr (None, s)"
    | fi type where "ip_route_output_flow ?fl s = Inr (Some (brk s), routed_state ?fl fi type d nd s)" by (auto simp: wp_iff)
  then show ?thesis
  proof cases
    case 1
    then show ?thesis using inv m False by (auto simp: wp_def udp_sendmsg_def udp_msg_dest_def comp_simps same_upper_def Let_def)
  next
    case 2
    let ?t = "routed_state ?fl fi type d nd s"
    obtain before r where "peer_rep s (fl4_dst ?fl) d nd before r" by (rule link_inv_peer [OF s(2)])
    then have rep: "resolver_rep ?t (peer s (fl4_dst ?fl) d) d nd before r"
      using s(2) by (intro routed_state_rep link_inv_fresh_rt) (auto simp: link_inv_def)
    have inv': "stack_inv d nd H ?t" by (rule stack_inv_routed [OF inv])
    have t: "socks ?t sk = Some x" "queue_rep ?t (Write_queue sk) []" "mem_ok ?t" "heap_ok ?t"
      using x inv' s(3) by (auto simp: stack_inv_def link_inv_def intro: routed_state_queue)
    have u: "same_upper s ?t" by (simp add: same_upper_def routed_state_def bind_state_def create_state_def split: option.split)
    have dst: "rt_dst (out_rt (os s) (brk s) (out_flow ?fl fi nd) type d (Some (peer s (fl4_dst ?fl) d))) = sin_addr usin"
      by (simp add: out_rt_route)
    have fin: "rc \<in> {0, -1} \<and> stack_inv d nd H v \<and> same_upper s v" if v: "rc = 0 \<and> send_frame sk x (peer s (fl4_dst ?fl) d) ?t v \<and>
        (\<exists>r'. rstep r act r' \<and> resolver_rep v (peer s (fl4_dst ?fl) d) d nd before r')" for rc :: int and v act
    proof -
      from v u have "same_upper s v" by (simp add: same_upper_def send_frame_def)
      with v stack_inv_send [OF inv' t(1)] show ?thesis by blast
    qed
    show ?thesis
      by (rule wp_mono [OF udp_sendmsg_datagram [OF m _ _ _ 2 routed_state_simps(5) out_rt_route(1) dst t(1) x(2) t(2) rep t(3,4) len]])
        (use False in simp, use False in simp, use False in simp, rule fin)
  qed
qed

lemma inet_autobind_stack:
  assumes inv: "stack_inv d nd H s" and x: "socks s sk = Some x" "sk_prot x = Udp_prot"
  shows "wp (if inet_num x = 0 then inet_autobind sk else returnM 0) (\<lambda>rc t. rc \<in> {0, -1} \<and>
    (\<exists>y. socks t sk = Some y \<and> sock_kind y = sock_kind x) \<and>
    (stack_inv d nd H t \<or> (\<exists>p. least_free (\<lambda>k. ports H k \<noteq> None) p \<and> stack_inv d nd (H\<lparr>ports := (ports H)(p \<mapsto> sk)\<rparr>) t))) s"
proof (cases "inet_num x = 0")
  case True
  obtain rc t n where run: "udp_v4_get_port sk 0 s = Inr (rc, t)" and t: "socks t = (socks s)(sk \<mapsto> x\<lparr>inet_num := n\<rparr>)" and
      r: "(rc = 0 \<and> (\<exists>p. port_choice H 0 p \<and> stack_inv d nd (H\<lparr>ports := (ports H)(p \<mapsto> sk)\<rparr>) t)) \<or> (rc = -1 \<and> stack_inv d nd H t)"
    using udp_v4_get_port_stack [OF inv x(1), of 0] unfolding wp_iff by blast
  let ?y = "x\<lparr>inet_num := n, inet_sport := htons n\<rparr>"
  have "stack_inv d nd H' (t\<lparr>socks := (socks t)(sk \<mapsto> ?y)\<rparr>)" if "stack_inv d nd H' t" for H'
    using t by (intro stack_inv_socks [where x = "x\<lparr>inet_num := n\<rparr>", OF that]) (simp_all add: sock_kind_def)
  then show ?thesis
    using True x run t r by (auto simp: wp_def inet_autobind_def comp_simps call_get_port_def sock_kind_def port_choice_def)
next
  case False
  then show ?thesis using inv x by (simp add: wp_simps)
qed

lemma sys_sendto_stack:
  assumes inv: "stack_inv d nd H s" and fd: "descriptor_of H fd = Udp_descriptor sk" and len: "k \<le> length buff" "k \<le> 65507"
  shows "wp (sys_sendto fd buff (of_nat k) (Some addr) alen) (\<lambda>rc t. \<exists>H'. host_step nd H (Sendto fd buff k addr alen) (rc, []) H' \<and> stack_inv d nd H' t) s"
proof -
  obtain so z x where z: "sock_from_fd fd s = Inr (Some so, s)" "sockets s so = Some z" "sock_ops z = Some Inet_dgram_ops" "socket_sk z = Some sk"
    and x: "socks s sk = Some x" "sk_prot x = Udp_prot" "sk_protocol x = IPPROTO_UDP" by (rule udp_fdE [OF inv fd])
  let ?msg = "\<lparr>msg_name = Some addr, msg_namelen = alen, msg_iov = \<lparr>iov_base = buff, iov_len = ucast (of_nat k :: u32)\<rparr>, msg_iovlen = 1\<rparr>"
  obtain rc t y where run: "(if inet_num x = 0 then inet_autobind sk else returnM 0) s = Inr (rc, t)" and t: "rc \<in> {0, -1}"
      "socks t sk = Some y" "sock_kind y = sock_kind x"
      "stack_inv d nd H t \<or> (\<exists>p. least_free (\<lambda>k. ports H k \<noteq> None) p \<and> stack_inv d nd (H\<lparr>ports := (ports H)(p \<mapsto> sk)\<rparr>) t)"
    using inet_autobind_stack [OF inv x(1,2)] unfolding wp_iff by blast
  have "sk_protocol y = IPPROTO_UDP" using t(3) x(3) by (simp add: sock_kind_def)
  then have sent: "wp (udp_sendmsg sk ?msg (of_nat k)) (\<lambda>rc u. rc \<in> {0, -1} \<and> stack_inv d nd H' u) t" if "stack_inv d nd H' t" for H'
    using udp_sendmsg_stack [OF that t(2), of ?msg addr k] len by (auto elim: wp_mono)
  obtain H' where H': "stack_inv d nd H' t" "\<And>rc. rc \<in> {0, -1} \<Longrightarrow> host_step nd H (Sendto fd buff k addr alen) (rc, []) H'"
    using t(4)
  proof
    assume "stack_inv d nd H t"
    then show thesis by (rule that) (rule host_step.send [OF fd])
  next
    assume "\<exists>p. least_free (\<lambda>k. ports H k \<noteq> None) p \<and> stack_inv d nd (H\<lparr>ports := (ports H)(p \<mapsto> sk)\<rparr>) t"
    then obtain p where p: "least_free (\<lambda>k. ports H k \<noteq> None) p" "stack_inv d nd (H\<lparr>ports := (ports H)(p \<mapsto> sk)\<rparr>) t" by blast
    show thesis by (rule that [OF p(2)]) (rule host_step.send_autobind [OF fd _ p(1)])
  qed
  from sent [OF H'(1)] obtain rc' u where u: "udp_sendmsg sk ?msg (of_nat k) t = Inr (rc', u)" "rc' \<in> {0, -1}" "stack_inv d nd H' u"
    by (auto simp: wp_iff)
  have "\<exists>rc u. sys_sendto fd buff (of_nat k) (Some addr) alen s = Inr (rc, u) \<and> rc \<in> {0, -1} \<and> stack_inv d nd H' u"
    using z x run u t(1) H'(1) by (auto simp: sys_sendto_def sock_sendmsg_def inet_sendmsg_def comp_simps Let_def)
  with H'(2) show ?thesis unfolding wp_iff by blast
qed

lemma stack_inv_deq:
  assumes inv: "stack_inv d nd H s" and q: "queue_rep s (Receive_queue sk) (i # is)" and own: "socks s sk \<noteq> None"
  shows "stack_inv d nd (H\<lparr>inbox := (inbox H)(sk := tl (inbox H sk))\<rparr>) ((deq_state s (Receive_queue sk) i)\<lparr>skbs := (skbs s)(i := v)\<rparr>)"
proof -
  let ?t = "deq_state s (Receive_queue sk) i" and ?H = "H\<lparr>inbox := (inbox H)(sk := tl (inbox H sk))\<rparr>"
  have inf: "\<exists>b. inflight ?t i b" using q by (auto simp: inflight_def queue_rep_def deq_state_def)
  have fr: "mem_frame {Receive_queue sk} {i} s ?t" by (rule mem_frame_deq [OF q])
  have dis: "set ys \<inter> {i} = {}" if "queue_rep s p ys" "p \<noteq> Receive_queue sk" for p ys
    using queue_rep_disjoint [OF q that(1)] that(2) by auto
  have "link_inv d nd ?t"
    by (rule link_inv_frame [OF _ fr]) (use inv dis in \<open>auto simp: stack_inv_def link_inv_def\<close>)
  moreover have "sock_ok ?t k (inbox ?H k)" if k: "socks s k \<noteq> None" for k
  proof (cases "k = sk")
    case True
    from stack_inv_view(5) [OF inv own] obtain xs where xs: "queue_rep s (Write_queue sk) []" "sk < brk s" "queue_rep s (Receive_queue sk) xs"
        "\<forall>j \<in> set xs. \<exists>b. skbs s j = Some b \<and> datagram_ok b" "inbox H sk = map (\<lambda>i. message_of (the (skbs s i))) xs" by (auto simp: sock_ok_def)
    have w: "queue_rep ?t (Write_queue sk) []" using deq_state_frame [OF q xs(1)] by simp
    have "xs = i # is" using queue_rep_unique [OF xs(3) q] .
    with xs(4,5) have "\<forall>j \<in> set is. \<exists>b. skbs ?t j = Some b \<and> datagram_ok b" "inbox ?H sk = map (\<lambda>i. message_of (the (skbs ?t i))) is" by simp_all
    with w deq_state_rep [OF q] xs(2) show ?thesis unfolding sock_ok_def True by (intro conjI exI [of _ "is"]) simp_all
  next
    case False
    have "sock_ok ?t k (inbox H k)"
      by (rule sock_ok_frame [OF _ fr]) (use stack_inv_view(5) [OF inv] k False dis in auto)
    with False show ?thesis by simp
  qed
  moreover have "routes_ok d ?t" "port_owner ?t = port_owner s" "socket_ok ?t = socket_ok s" "icmp_ok ?t = icmp_ok s" "ptype_base ?t = ptype_base s"
    using inv by (simp_all add: stack_inv_def upper_inv_def routes_ok_def fib_rep_def port_owner_def socket_ok_def icmp_ok_def fun_eq_iff deq_state_def)
  moreover have "same_upper s ?t" by (simp add: same_upper_def deq_state_def)
  then have "host_view ?H ?t = host_view H s" "tables_ok ?t = tables_ok s" using host_view_same [of s ?t] by (simp_all add: host_view_def)
  ultimately have "stack_inv d nd ?H ?t" using inv own by (simp add: stack_inv_def upper_inv_def)
  with inf show ?thesis using stack_inv_skb [of d nd ?H ?t i] by auto
qed

text \<open>The first message of an inbox is in the first buffer of the queue.\<close>

lemma inbox_first:
  assumes inv: "stack_inv d nd H s" and fd: "descriptor_of H fd = Udp_descriptor sk" and m: "inbox H sk = (src, sport, payload) # ms"
  obtains i "is" b nh where "queue_rep s (Receive_queue sk) (i # is)" "skbs s i = Some b" "transport_skb b nh" "8 \<le> unat (skb_len b)"
    "drop 8 (window b) = payload" "length payload = unat (skb_len b) - 8"
proof -
  obtain xs where x: "queue_rep s (Receive_queue sk) xs" "\<forall>i \<in> set xs. \<exists>b. skbs s i = Some b \<and> datagram_ok b"
    "inbox H sk = map (\<lambda>i. message_of (the (skbs s i))) xs" by (rule udp_fdE [OF inv fd])
  with m obtain i "is" where xs: "xs = i # is" by (cases xs) auto
  with x(2) obtain b nh where b: "skbs s i = Some b" "transport_skb b nh" "8 \<le> unat (skb_len b)" by (auto simp: datagram_ok_def)
  moreover have "drop 8 (window b) = payload" using x(3) m b(1) by (simp add: xs message_of_def)
  moreover from this have "length payload = unat (skb_len b) - 8" using b(2) by (auto simp: transport_skb_def)
  ultimately show ?thesis using that x(1) by (simp add: xs)
qed

lemma sys_recvfrom_stack:
  assumes inv: "stack_inv d nd H s" and fd: "descriptor_of H fd = Udp_descriptor sk" and m: "inbox H sk = (src, sport, payload) # ms"
    and len: "length payload \<le> length ubuf"
  shows "wp (sys_recvfrom fd ubuf sz) (\<lambda>(rc, buf) t. rc = 0 \<and> buf = put_bytes ubuf 0 payload \<and> stack_inv d nd (H\<lparr>inbox := (inbox H)(sk := ms)\<rparr>) t) s"
proof -
  obtain so z x where z: "sock_from_fd fd s = Inr (Some so, s)" "sockets s so = Some z" "sock_ops z = Some Inet_dgram_ops" "socket_sk z = Some sk"
    and x: "socks s sk = Some x" "sk_prot x = Udp_prot" by (rule udp_fdE [OF inv fd])
  obtain i "is" b nh where b: "queue_rep s (Receive_queue sk) (i # is)" "skbs s i = Some b" "transport_skb b nh" "8 \<le> unat (skb_len b)"
    "drop 8 (window b) = payload" "length payload = unat (skb_len b) - 8" by (rule inbox_first [OF inv fd m])
  define t where "t = (deq_state s (Receive_queue sk) i)\<lparr>skbs := (skbs s)(i \<mapsto> b\<lparr>skb_len := skb_len b - 8, skb_data := skb_data b + 8\<rparr>)\<rparr>"
  have "stack_inv d nd (H\<lparr>inbox := (inbox H)(sk := ms)\<rparr>) t"
    unfolding t_def using stack_inv_deq [OF inv b(1), where v = "Some (b\<lparr>skb_len := skb_len b - 8, skb_data := skb_data b + 8\<rparr>)"] x(1) m by simp
  moreover have "sys_recvfrom fd ubuf sz s = Inr ((0, put_bytes ubuf 0 payload), t)"
    using z x(1,2) udp_recvmsg_apply [OF b(1-4)] len b(5,6)
    by (simp add: sys_recvfrom_def sock_recvmsg_def sock_common_recvmsg_def comp_simps Let_def t_def)
  ultimately show ?thesis by (simp add: wp_def)
qed

lemma sys_recvfrom_waits:
  assumes inv: "stack_inv d nd H s" and fd: "descriptor_of H fd = Udp_descriptor sk" and m: "inbox H sk = []"
  shows "sys_recvfrom fd ubuf sz s = Inl Diverges"
proof -
  obtain so z x xs where z: "sock_from_fd fd s = Inr (Some so, s)" "sockets s so = Some z" "sock_ops z = Some Inet_dgram_ops" "socket_sk z = Some sk"
    and x: "socks s sk = Some x" "sk_prot x = Udp_prot" "queue_rep s (Receive_queue sk) xs" "inbox H sk = map (\<lambda>i. message_of (the (skbs s i))) xs"
    by (rule udp_fdE [OF inv fd])
  from x(3,4) m have "queue_rep s (Receive_queue sk) []" by simp
  from skb_recv_datagram_waits [OF this] z x show ?thesis
    by (simp add: sys_recvfrom_def sock_recvmsg_def sock_common_recvmsg_def udp_recvmsg_def comp_simps Let_def)
qed

lemma sys_recvfrom_overruns:
  assumes inv: "stack_inv d nd H s" and fd: "descriptor_of H fd = Udp_descriptor sk" and m: "inbox H sk = (src, sport, payload) # ms"
    and len: "length ubuf < length payload"
  shows "sys_recvfrom fd ubuf sz s = Inl Out_of_bounds"
proof -
  obtain so z x where z: "sock_from_fd fd s = Inr (Some so, s)" "sockets s so = Some z" "sock_ops z = Some Inet_dgram_ops" "socket_sk z = Some sk"
    and x: "socks s sk = Some x" "sk_prot x = Udp_prot" by (rule udp_fdE [OF inv fd])
  obtain i "is" b nh where q: "queue_rep s (Receive_queue sk) (i # is)" and b: "skbs s i = Some b" and tr: "transport_skb b nh" "8 \<le> unat (skb_len b)"
    and pay: "drop 8 (window b) = payload" "length payload = unat (skb_len b) - 8" by (rule inbox_first [OF inv fd m])
  have b': "wf_skb b" "8 \<le> unat (skb_len b)" using tr by (simp_all add: transport_skb_def)
  have l: "unat (skb_len b - 8) = unat (skb_len b) - 8" using b'(2) by (simp add: unat_sub word_le_nat_alt)
  have w: "in_block b (skb_data b + 8) (unat (skb_len b) - 8)" using in_block_window [OF b'(1), of 8 "unat (skb_len b) - 8"] b'(2) by simp
  have "\<not> skb_len b < 8" using b'(2) by (simp add: word_less_nat_alt)
  moreover have "\<not> unat (skb_len b) - 8 \<le> length ubuf" using len pay(2) by simp
  moreover have "length (get_bytes (skb_buf b) k (unat (skb_len b) - 8)) = unat (skb_len b) - 8" if "k = nat (skb_data b + 8)" for k
    using w unfolding that get_bytes_def in_block_def by (simp add: min_def) linarith
  ultimately have "udp_recvmsg sk msg n s = Inl Out_of_bounds" if "iov_base (msg_iov msg) = ubuf" for msg n
    unfolding udp_recvmsg_def using b that skb_recv_datagram_apply [OF q] w l
    by (simp add: comp_simps skb_copy_datagram_iovec_def skb_pull_def load_defs in_block_def)
  then show ?thesis
    using z x(1,2) by (simp add: sys_recvfrom_def sock_recvmsg_def sock_common_recvmsg_def comp_simps Let_def)
qed

section \<open>Descriptors that a call cannot use\<close>

lemma raw_fdE:
  assumes "stack_inv d nd H s" "descriptor_of H fd = Raw_descriptor"
  obtains so z where "sock_from_fd fd s = Inr (Some so, s)" "sockets s so = Some z" "sock_ops z = None"
proof -
  from assms obtain so where so: "map_sk (socket_maps s (nat fd)) = Some so" "map_used (socket_maps s (nat fd))" "nat fd < 512" "0 \<le> fd"
      "fd_sock s fd = None"
    using stack_inv_view(1) [OF assms(1)] by (auto simp: descriptor_of_def fd_descriptor_def fd_socket_def split: option.splits if_splits)
  then have "socket_ok s so" using assms(1) by (auto simp: stack_inv_def upper_inv_def)
  then obtain z sk where "sockets s so = Some z" "socket_sk z = Some sk" by (auto simp: socket_ok_def)
  moreover from this have "sock_ops z = None" using so by (auto simp: fd_sock_def fd_socket_def split: if_splits)
  moreover have "sock_from_fd fd s = Inr (Some so, s)" using so by (simp add: sock_from_fd_def read_map_def comp_simps)
  ultimately show ?thesis using that by blast
qed

text \<open>A number outside the table is an access outside an array; a raw socket has no operations, and the call follows a null pointer.\<close>

definition fd_fault :: "host \<Rightarrow> int \<Rightarrow> fault option" where
  "fd_fault H fd = (if fd < 0 \<or> 512 \<le> fd then Some Out_of_bounds else if descriptor_of H fd = Raw_descriptor then Some Null_deref else None)"

lemma fd_fault_calls:
  assumes inv: "stack_inv d nd H s" and f: "fd_fault H fd = Some f"
  shows "sys_bind fd addr addrlen s = Inl f" "sys_sendto fd buff len dest alen s = Inl f" "sys_recvfrom fd ubuf sz s = Inl f"
proof -
  consider "sock_from_fd fd s = Inl Out_of_bounds" "f = Out_of_bounds" | "descriptor_of H fd = Raw_descriptor" "f = Null_deref"
    using f by (auto simp: fd_fault_def sock_from_fd_def read_map_def comp_simps split: if_splits)
  then have "sys_bind fd addr addrlen s = Inl f \<and> sys_sendto fd buff len dest alen s = Inl f \<and> sys_recvfrom fd ubuf sz s = Inl f"
  proof cases
    case 2
    obtain so z where "sock_from_fd fd s = Inr (Some so, s)" "sockets s so = Some z" "sock_ops z = None" by (rule raw_fdE [OF inv 2(1)])
    with 2(2) show ?thesis
      by (simp add: sys_bind_def sys_sendto_def sys_recvfrom_def sock_sendmsg_def sock_recvmsg_def comp_simps Let_def)
  qed (simp add: sys_bind_def sys_sendto_def sys_recvfrom_def comp_simps)
  then show "sys_bind fd addr addrlen s = Inl f" "sys_sendto fd buff len dest alen s = Inl f" "sys_recvfrom fd ubuf sz s = Inl f" by simp_all
qed

end
