(* ===== verification/Startup.thy ===== *)
theory Startup
  imports Socket_Calls
begin

text \<open>
  From the static data of the program to the running stack: \<^verbatim>\<open>main\<close> up to its receive loop, the device and the routes it
  leaves behind, and that the invariant holds then.
\<close>

unbundle bit_operations_syntax

text \<open>The device and its address, as the driver sets them up, and the state before the routes of the address are added.\<close>

definition eth0 :: net_device where
  "eth0 = (ether_setup zero_dev)\<lparr>dev_name := ''eth0'', ip_ptr := Some 5\<rparr>"

definition eth0_ifa :: in_ifaddr where
  "eth0_ifa = \<lparr>ifa_dev = Some 5, ifa_address = FIXED_IP_ADDR, ifa_mask = FIXED_NETMASK,
     ifa_broadcast = FIXED_IP_ADDR OR NOT FIXED_NETMASK, ifa_scope = 0, ifa_prefixlen = FIXED_IP_PREFIXLEN\<rparr>"

definition net_state :: "os_env \<Rightarrow> sock_store" where
  "net_state e = (socket_state None SOCK_RAW (new_sock Raw_prot IPPROTO_ICMP) ((boot_state e)\<lparr>brk := 2\<rparr>))
     \<lparr>brk := 7, devs := [4 \<mapsto> eth0], in_devs := [5 \<mapsto> \<lparr>indev_dev = Some 4, ifa_list = [eth0_ifa]\<rparr>], dev_base := Some 4,
      last_ifindex := 1, ptype_base := [ip_packet_type, arp_packet_type], neigh_tables := [Arp_tbl],
      ip_fib_local_table := Some (empty_fib RT_TABLE_LOCAL), ip_fib_main_table := Some (empty_fib RT_TABLE_MAIN),
      net_families := (\<lambda>_. None)(2 \<mapsto> Inet_family_ops), icmp_socket := Some 2, inet_protos := [udp_protocol, icmp_protocol]\<rparr>"

lemma inet_init_boot:
  assumes "\<forall>k. malloc_ok e k"
  shows "inet_init (boot_state e) = Inr (0, (net_state e)\<lparr>brk := 4, devs := Map.empty, in_devs := Map.empty, dev_base := None, last_ifindex := 0\<rparr>)"
  using assms
  by (simp add: inet_init_def sock_register_def inet_add_protocol_def arp_init_def neigh_table_init_def ip_init_def ip_rt_init_def ip_fib_init_def
    fib_hash_init_def icmp_init_def dev_add_pack_def comp_simps boot_state_def sock_create_apply mem_ok_def socket_state_def Let_def
    net_state_def empty_fib_def numeral_2_eq_2 numeral_3_eq_3)

lemma main_init_boot:
  assumes "\<forall>k. malloc_ok e k"
  shows "main_init (boot_state e) = bindM (fib_netdev_event NETDEV_UP 4) (\<lambda>ret. if ret \<noteq> 0 then returnM (-1) else returnM 0) (net_state e)"
proof -
  define s where "s = (net_state e)\<lparr>brk := 4, devs := Map.empty, in_devs := Map.empty, dev_base := None, last_ifindex := 0\<rparr>"
  have "inet_init (boot_state e) = Inr (0, s)" using inet_init_boot [OF assms] by (simp add: s_def)
  moreover have "ether_init_module s = bindM (fib_netdev_event NETDEV_UP 4) (\<lambda>ret. if ret \<noteq> 0 then returnM (-1) else returnM 0) (net_state e)"
    using assms unfolding s_def net_state_def socket_state_def boot_state_def Let_def
    by (simp add: ether_init_module_def alloc_netdev_def register_netdevice_def dev_new_index_def config_netdevice_def inetdev_init_def
     inet_alloc_ifa_def inet_insert_ifa_def in_dev_get_def comp_simps eth0_def eth0_ifa_def ether_setup_def zero_dev_def zero_ifaddr_def)
  ultimately show ?thesis
    by (auto simp: main_init_def comp_simps split: sum.split)
qed

text \<open>The routes after start: the own address is local, the two ends of its network are broadcast addresses, the network is on the link.\<close>

definition boot_local :: "u32 \<Rightarrow> (nat \<times> fib_alias) option" where
  "boot_local = [FIXED_IP_ADDR \<mapsto> (32, ifa_alias RTN_LOCAL eth0_ifa 4 eth0), 0x0000000a \<mapsto> (32, ifa_alias RTN_BROADCAST eth0_ifa 4 eth0),
     0x0000000a OR NOT FIXED_NETMASK \<mapsto> (32, ifa_alias RTN_BROADCAST eth0_ifa 4 eth0)]"

definition boot_main :: "u32 \<Rightarrow> (nat \<times> fib_alias) option" where
  "boot_main dst = (if in_prefix 24 0x0000000a dst then Some (24, ifa_alias RTN_UNICAST eth0_ifa 4 eth0) else None)"

lemma net_state_fib: "fib_rep (net_state e) (\<lambda>_. None) (\<lambda>_. None)"
  by (rule fib_repI [where l = "empty_fib RT_TABLE_LOCAL" and m = "empty_fib RT_TABLE_MAIN"])
    (simp_all add: net_state_def fib.inv_empty fib.lookup_empty fun_eq_iff)

lemma main_init_routes:
  assumes "\<forall>k. malloc_ok e k"
  shows "wp main_init (\<lambda>rc t. rc = 0 \<and> fib_frame (net_state e) t \<and> fib_rep t boot_local boot_main) (boot_state e)"
proof -
  have s: "devs (net_state e) 4 = Some eth0" "ip_ptr eth0 = Some 5" "os (net_state e) = e"
     "in_devs (net_state e) 5 = Some \<lparr>indev_dev = Some 4, ifa_list = [eth0_ifa]\<rparr>" "dev_base (net_state e) = Some 4"
    by (simp_all add: net_state_def eth0_def socket_state_def boot_state_def Let_def)
  have "ifa_ready (net_state e) eth0_ifa 4 eth0" using s assms by (simp add: ifa_ready_def mem_ok_def eth0_ifa_def)
  moreover have i: "ifa_address eth0_ifa = FIXED_IP_ADDR" "ifa_mask eth0_ifa = FIXED_NETMASK" "ifa_prefixlen eth0_ifa = 24"
    by (simp_all add: eth0_ifa_def)
  ultimately have "wp (fib_add_ifaddr eth0_ifa) (\<lambda>_ t. fib_frame (net_state e) t \<and> fib_rep t
      ((\<lambda>_. None)(FIXED_IP_ADDR \<mapsto> (32, ifa_alias RTN_LOCAL eth0_ifa 4 eth0),
         FIXED_IP_ADDR AND FIXED_NETMASK \<mapsto> (32, ifa_alias RTN_BROADCAST eth0_ifa 4 eth0),
         FIXED_IP_ADDR AND FIXED_NETMASK OR NOT FIXED_NETMASK \<mapsto> (32, ifa_alias RTN_BROADCAST eth0_ifa 4 eth0)))
      (\<lambda>dst. better (unat (24 :: u8)) (FIXED_IP_ADDR AND FIXED_NETMASK) (ifa_alias RTN_UNICAST eth0_ifa 4 eth0) dst None)) (net_state e)"
    using fib_add_ifaddr_step [OF net_state_fib, where ifa = eth0_ifa and d = 4 and nd = eth0] i by simp
  then
  have "wp (fib_add_ifaddr eth0_ifa) (\<lambda>_ t. fib_frame (net_state e) t \<and> fib_rep t boot_local boot_main) (net_state e)"
    by (rule wp_mono) (simp add: boot_local_def boot_main_def [abs_def] better_def)
  then show ?thesis
    unfolding wp_iff main_init_boot [OF assms]
    by (auto simp: fib_netdev_event_def in_dev_get_def comp_simps s)
qed


lemma boot_route_dev:
  assumes "fib_route boot_local boot_main dst = Some (l, fa)"
  shows "\<exists>fi. fa_info fa = Some fi \<and> nh_dev (fib_nh0 fi) = Some 4"
  using assms by (auto simp: fib_route_def boot_local_def boot_main_def ifa_alias_def split: option.splits if_splits)

text \<open>The host after start: one address, and nothing open.\<close>

definition boot_host :: host where
  "boot_host = \<lparr>addresses = (\<lambda>ip. ip = FIXED_IP_ADDR), descriptors = (\<lambda>_. Closed), ports = (\<lambda>_. None), inbox = (\<lambda>_. [])\<rparr>"

lemma boot_local_route: "(\<exists>l fa. fib_route boot_local boot_main ip = Some (l, fa) \<and> fa_type fa = RTN_LOCAL) \<longleftrightarrow> ip = FIXED_IP_ADDR"
  by (auto simp: fib_route_def boot_local_def boot_main_def ifa_alias_def split: option.splits if_splits)

lemma boot_stack_inv:
  assumes e: "\<forall>k. malloc_ok e k" "\<forall>k. malloc_ptr e k = None" and t: "fib_frame (net_state e) t" "fib_rep t boot_local boot_main"
  shows "stack_inv 4 eth0 boot_host t"
proof -
  from t(1) obtain k l m where t': "7 \<le> k" "t = (net_state e)\<lparr>brk := k, ip_fib_local_table := l, ip_fib_main_table := m\<rparr>"
    by (auto simp: fib_frame_def net_state_def)
  note s = t'(2) net_state_def socket_state_def boot_state_def Let_def
  have f: "os t = e" "brk t = k" "skbs t = Map.empty" "rtables t = Map.empty" "devs t = [4 \<mapsto> eth0]" "buckets (ntables t Arp_tbl) = []"
      "ntables t Arp_tbl = arp_tbl" "neighs t = Map.empty" "ptype_base t = [ip_packet_type, arp_packet_type]" "inet_protos t = [udp_protocol, icmp_protocol]"
      "net_families t = [2 \<mapsto> Inet_family_ops]" "icmp_socket t = Some 2" "socks t = [3 \<mapsto> new_sock Raw_prot 1]"
      "sockets t = [2 \<mapsto> \<lparr>sock_ops = None, socket_sk = Some 3, sock_type = 3\<rparr>]" "socket_maps t = (\<lambda>_. \<lparr>map_sk = None, map_used = False\<rparr>)"
      "udptable t = (\<lambda>_. \<lparr>map_sk = None, map_used = False\<rparr>)" "queue_rep t (Write_queue 3) []" "queue_rep t (Receive_queue 3) []" "dev_base t = Some 4"
    by (simp_all add: s queue_rep_def arp_tbl_def)
  have "link_inv 4 eth0 t"
    using e f by (simp add: link_inv_def mem_ok_def heap_ok_def neigh_inv_def arp_tbl_def) (simp add: eth0_def eth_dev_def ether_setup_def zero_dev_def)
  moreover have "fib_route boot_local boot_main FIXED_IP_ADDR = Some (32, ifa_alias RTN_LOCAL eth0_ifa 4 eth0)"
    by (simp add: fib_route_def boot_local_def)
  then have "\<exists>l fa. fib_route boot_local boot_main FIXED_IP_ADDR = Some (l, fa) \<and> fa_type fa = RTN_LOCAL" by (auto simp: ifa_alias_def)
  with t(2) boot_route_dev have "routes_ok 4 t" unfolding routes_ok_def by blast
  moreover have "sock_ok t 3 []" using f t'(1) by (auto simp: sock_ok_def intro!: exI [of _ "[]"])
  moreover have "icmp_ok t" using f t'(1) by (simp add: icmp_ok_def sock_kind_def new_sock_def zero_sock_def)
  moreover have "host_view boot_host t" "tables_ok t"
    using f boot_local_route local_addr_iff [OF t(2)]
    by (simp_all add: host_view_def boot_host_def fun_eq_iff fd_descriptor_def fd_socket_def port_owner_def tables_ok_def)
  ultimately show ?thesis using f by (simp add: stack_inv_def upper_inv_def port_owner_def boot_host_def)
qed

end
