(* ===== verification/End_To_End.thy ===== *)
theory End_To_End
  imports Startup
begin

text \<open>
  Whole frames through the running stack: a UDP datagram reaches the socket bound to its port, an ICMP echo request is answered,
  an ARP request for the address of the host is answered. Each lemma starts from \<open>stack_inv\<close> and the bytes of the frame and ends with the state
  of the queues, of address resolution and of the wire.
\<close>

unbundle bit_operations_syntax

section \<open>Datagrams for this host\<close>

text \<open>A frame from the hardware address \<open>sa\<close> to the device \<open>nd\<close>, which has a unicast address.\<close>

definition host_frame :: "net_device \<Rightarrow> u8 list \<Rightarrow> u16 \<Rightarrow> u8 list \<Rightarrow> u8 list" where
  "host_frame nd sa type packet = eth_frame (take 6 (dev_addr nd)) sa type packet"

definition unicast_dev :: "net_device \<Rightarrow> bool" where
  "unicast_dev nd \<longleftrightarrow> \<not> is_multicast_ether_addr (dev_addr nd)"

lemma host_frame_facts:
  assumes "eth_dev nd" "unicast_dev nd" "length sa = 6"
  shows "length (host_frame nd sa type p) = 14 + length p" "drop 14 (host_frame nd sa type p) = p"
    "ld16 (host_frame nd sa type p) 12 = htons type" "eth_class nd (host_frame nd sa type p) 0 = PACKET_HOST"
proof -
  obtain a where a: "length a = 6" "take 6 (dev_addr nd) = a" "is_multicast_ether_addr (dev_addr nd) = is_multicast_ether_addr a"
    using assms(1) by (metis eth_dev_def is_multicast_take length_take min.absorb2 zero_less_numeral)
  show "length (host_frame nd sa type p) = 14 + length p" "drop 14 (host_frame nd sa type p) = p"
    using assms(3) a by (simp_all add: host_frame_def eth_frame_def)
  show "ld16 (host_frame nd sa type p) 12 = htons type"
    using assms(3) a by (simp add: host_frame_def eth_frame_def ld16_def nth_append bytes16_def)
  have "take 6 (host_frame nd sa type p) = a" "host_frame nd sa type p ! 0 = a ! 0"
    using a by (simp_all add: host_frame_def eth_frame_def nth_append)
  then show "eth_class nd (host_frame nd sa type p) 0 = PACKET_HOST"
    using assms(2) a by (simp add: eth_class_def unicast_dev_def is_multicast_ether_addr_def)
qed

lemma host_frame_receive:
  assumes inv: "stack_inv d nd H s" and nd: "unicast_dev nd" "length sa = 6" "length p \<le> 1500"
    and f_def: "f = host_frame nd sa type p"
  shows "ether_rx d (Some f) s = receive d (brk s) f (alloc_state s 2 (rx_skb d nd f))"
    "stack_inv d nd H (alloc_state s 2 (rx_skb d nd f))" "inflight (alloc_state s 2 (rx_skb d nd f)) (brk s) (rx_skb d nd f)"
    "window (rx_skb d nd f) = p" "accepts_local (alloc_state s 2 (rx_skb d nd f)) (brk s) (rx_skb d nd f) d nd"
proof -
  have s: "mem_ok s" "devs s d = Some nd" "eth_dev nd" "heap_ok s"
    using inv by (simp_all add: stack_inv_def link_inv_def)
  note f = host_frame_facts [OF s(3) nd(1,2), of type p, unfolded f_def [symmetric]]
  have len: "14 \<le> length f" "length f \<le> 1514" using f(1) nd(3) by simp_all
  note b = rx_skb_facts [OF len, of d nd]
  show "ether_rx d (Some f) s = receive d (brk s) f (alloc_state s 2 (rx_skb d nd f))"
    using len by (intro ether_rx_apply [OF s(1-3)]) simp_all
  show "stack_inv d nd H (alloc_state s 2 (rx_skb d nd f))"
    using stack_inv_arp_send(1) [OF inv, where c = "rx_skb d nd f" and o' = "tap_out s"] by (simp add: alloc_state_def)
  show "inflight (alloc_state s 2 (rx_skb d nd f)) (brk s) (rx_skb d nd f)" by (simp add: inflight_def)
  show "window (rx_skb d nd f) = p" using b(2) f(2) by simp
  show "accepts_local (alloc_state s 2 (rx_skb d nd f)) (brk s) (rx_skb d nd f) d nd"
    using b s f(4) by (simp add: accepts_local_def mem_ok_def)
qed

lemma receive_ip:
  assumes "ptype_base s = [ip_packet_type, arp_packet_type]" "ld16 f 12 = htons ETH_P_IP"
    "wp (ip_rcv i) (\<lambda>rc t. rc = 0 \<and> Q t) s"
  shows "wp (receive d i f) (\<lambda>_ t. Q t) s"
  using assms(3) unfolding receive_def wp_bindM wp_getsM assms(1,2) find_ptype_registered
  by (auto simp: call_packet_fn_def wp_iff returnM_apply intro!: exI [of _ "0 :: int"])

lemma local_route:
  assumes "stack_inv d nd H s"
  obtains lcl mn l fa where "fib_rep s lcl mn" "fib_route lcl mn FIXED_IP_ADDR = Some (l, fa)" "fa_type fa = RTN_LOCAL"
  using assms by (auto simp: stack_inv_def upper_inv_def routes_ok_def)

lemma ip_rcv_protocol:
  assumes "accepts_local s i b d nd" "window b = ip_datagram p src dst sg @ pad" "20 + length sg \<le> 65535"
    and "fib_rep s lcl mn" "fib_route lcl mn dst = Some (l, fa)" "fa_type fa = RTN_LOCAL" "inet_protos s = [udp_protocol, icmp_protocol]"
  shows "ip_rcv i s = (if p = IPPROTO_UDP then udp_rcv i else if p = IPPROTO_ICMP then icmp_rcv i else returnM 0) 
    (local_state i b d nd (ip_datagram p src dst sg @ pad) s)"
  unfolding ip_rcv_local [OF assms(1-6)] assms(7) find_protocol_registered assms(2) by (simp add: call_handler_def)

text \<open>
  A datagram for this host that arrives in the frame \<open>f\<close>: the state and the buffer with which the handler of its transport
  protocol is called.
\<close>

definition arrival :: "nat \<Rightarrow> net_device \<Rightarrow> u8 list \<Rightarrow> 'z sock_store_scheme \<Rightarrow> 'z sock_store_scheme" where
  "arrival d nd f s = local_state (brk s) (rx_skb d nd f) d nd (drop 14 f) (alloc_state s 2 (rx_skb d nd f))"

definition arrival_skb :: "nat \<Rightarrow> net_device \<Rightarrow> u8 list \<Rightarrow> 'z sock_store_scheme \<Rightarrow> sk_buff" where
  "arrival_skb d nd f s = local_skb 20 (brk s + 2) (rx_skb d nd f)"

definition host_datagram :: "net_device \<Rightarrow> u8 list \<Rightarrow> u8 \<Rightarrow> u32 \<Rightarrow> u8 list \<Rightarrow> u8 list \<Rightarrow> u8 list" where
  "host_datagram nd sa p src sg pad = host_frame nd sa ETH_P_IP (ip_datagram p src FIXED_IP_ADDR sg @ pad)"

lemma arrival_facts:
  assumes inv: "stack_inv d nd H s" and nd: "unicast_dev nd" "length sa = 6" and len: "length (sg @ pad) \<le> 1480"
    and f: "f = host_datagram nd sa p src sg pad"
  shows "stack_inv d nd H (arrival d nd f s)" "inflight (arrival d nd f s) (brk s) (arrival_skb d nd f s)"
    "transport_skb (arrival_skb d nd f s) 14" "window (arrival_skb d nd f s) = sg @ pad"
    "unat (skb_len (arrival_skb d nd f s)) = length (sg @ pad)" "skb_dst (arrival_skb d nd f s) = Some (brk s + 2)"
    "rtables (arrival d nd f s) (brk s + 2) = Some (in_rt (os s) (brk s + 2) d nd FIXED_IP_ADDR src 0)"
    "ether_rx d (Some f) s = receive d (brk s) f (alloc_state s 2 (rx_skb d nd f))" "ld16 f 12 = htons ETH_P_IP"
    "ip_rcv (brk s) (alloc_state s 2 (rx_skb d nd f)) =
       (if p = IPPROTO_UDP then udp_rcv (brk s) else if p = IPPROTO_ICMP then icmp_rcv (brk s) else returnM 0) (arrival d nd f s)"
proof -
  let ?w = "ip_datagram p src FIXED_IP_ADDR sg @ pad" and ?b = "rx_skb d nd f" and ?c = "arrival_skb d nd f s"
  let ?s = "alloc_state s 2 ?b"
  have wl: "length ?w = 20 + length (sg @ pad)" "length ?w \<le> 1500" using len by (simp_all add: ip_datagram_nth)
  note r = host_frame_receive [OF inv nd wl(2) f [unfolded host_datagram_def]]
  have eth: "eth_dev nd" "inet_protos ?s = [udp_protocol, icmp_protocol]"
    using inv by (simp_all add: stack_inv_def link_inv_def upper_inv_def)
  note ff = host_frame_facts [OF eth(1) nd, of ETH_P_IP ?w, folded host_datagram_def, folded f]
  have t: "arrival d nd f s = local_state (brk s) ?b d nd ?w ?s" by (simp add: arrival_def ff(2))
  from r(5) have b: "wf_skb ?b" "nh_raw ?b = Some (skb_data ?b)" by (simp_all add: accepts_local_def)
  have bl: "20 \<le> unat (skb_len ?b)" using length_window [OF b(1)] r(4) wl(1) by simp
  note c = local_skb_simps [OF b(1) order_refl bl b(2), of "brk s + 2", folded arrival_skb_def]
  show "stack_inv d nd H (arrival d nd f s)" "inflight (arrival d nd f s) (brk s) ?c"
    using stack_inv_local [OF r(2,3), of ?w] by (simp_all add: t arrival_skb_def ip_datagram_ihl)
  show tr: "transport_skb ?c 14" using c(1) by (simp add: rx_skb_def)
  show w: "window ?c = sg @ pad" unfolding c(2) r(4) by (rule ip_datagram_fields)
  have "wf_skb ?c" using tr by (simp add: transport_skb_def)
  from length_window [OF this] show "unat (skb_len ?c) = length (sg @ pad)" unfolding w by simp
  show "skb_dst ?c = Some (brk s + 2)" by (rule c(4))
  show "rtables (arrival d nd f s) (brk s + 2) = Some (in_rt (os s) (brk s + 2) d nd FIXED_IP_ADDR src 0)"
    unfolding t local_state_def ip_datagram_fields by simp
  show "ether_rx d (Some f) s = receive d (brk s) f ?s" "ld16 f 12 = htons ETH_P_IP" by (rule r(1) ff(3))+
  obtain lcl mn l fa where fib: "fib_rep ?s lcl mn" "fib_route lcl mn FIXED_IP_ADDR = Some (l, fa)" "fa_type fa = RTN_LOCAL"
    by (rule local_route [OF r(2)])
  show "ip_rcv (brk s) ?s = (if p = IPPROTO_UDP then udp_rcv (brk s) else if p = IPPROTO_ICMP then icmp_rcv (brk s) else returnM 0) (arrival d nd f s)"
    unfolding t using len by (intro ip_rcv_protocol [OF r(5,4) _ fib eth(2)]) simp
qed

lemma arrival_rx:
  assumes inv: "stack_inv d nd H s" and nd: "unicast_dev nd" "length sa = 6" and len: "length (sg @ pad) \<le> 1480"
    and f: "f = host_datagram nd sa p src sg pad"
    and Q: "wp (if p = IPPROTO_UDP then udp_rcv (brk s) else if p = IPPROTO_ICMP then icmp_rcv (brk s) else returnM 0)
      (\<lambda>rc t. rc = 0 \<and> Q t) (arrival d nd f s)"
  shows "wp (ether_rx d (Some f)) (\<lambda>_ t. Q t) s"
proof -
  note a = arrival_facts [OF inv nd len f]
  have "ptype_base (alloc_state s 2 (rx_skb d nd f)) = [ip_packet_type, arp_packet_type]" using inv by (simp add: stack_inv_def upper_inv_def)
  from receive_ip [OF this a(9), of "brk s" Q] Q show ?thesis by (simp add: wp_def a(8,10))
qed

text \<open>The message that a UDP datagram for this host carries.\<close>

lemma host_datagram_for:
  assumes nd: "eth_dev nd" "unicast_dev nd" "length sa = 6" and H: "addresses H FIXED_IP_ADDR" "ports H p = Some sk" "p < 65536"
    and len: "length (payload @ pad) \<le> 1472"
    and f: "f = host_datagram nd sa IPPROTO_UDP src (udp_segment src FIXED_IP_ADDR sport (htons (of_nat p :: u16)) payload) pad"
  shows "take 1514 f = f" "ld16 f 12 = htons ETH_P_IP" "drop 14 f ! 9 = IPPROTO_UDP" "frame_for nd H f = Some (sk, src, sport, payload @ pad)"
proof -
  let ?seg = "udp_segment src FIXED_IP_ADDR sport (htons (of_nat p :: u16)) payload"
  let ?w = "ip_datagram IPPROTO_UDP src FIXED_IP_ADDR ?seg @ pad"
  note ff = host_frame_facts [OF nd, of ETH_P_IP ?w, folded host_datagram_def, folded f]
  have sl: "length ?seg = 8 + length payload" by simp
  have wl: "length ?w = 20 + length (?seg @ pad)" by (simp add: ip_datagram_nth)
  show "take 1514 f = f" "ld16 f 12 = htons ETH_P_IP" using ff(1,3) wl len sl by simp_all
  show nine: "drop 14 f ! 9 = IPPROTO_UDP" unfolding ff(2) by (simp add: ip_datagram_fields)
  have "ip_ok ?w" using len sl by (intro ip_ok_datagram_pad) simp
  then have "segment_for H ?w = Some (sk, src, sport, payload @ pad)"
    using H sl unfolding segment_for_def Let_def ip_datagram_ihl ip_datagram_fields udp_segment_fields by (simp add: unat_of_nat_u16)
  then show "frame_for nd H f = Some (sk, src, sport, payload @ pad)"
    using ff by (simp add: frame_for_def)
qed

lemma frame_to_socket:
  assumes inv: "stack_inv d nd H s" and nd: "unicast_dev nd" "length sa = 6" and port: "ports H p = Some sk" and len: "length (payload @ pad) \<le> 1472"
  shows "wp (ether_rx d (Some (host_datagram nd sa IPPROTO_UDP src (udp_segment src FIXED_IP_ADDR sport (htons (of_nat p :: u16)) payload) pad)))
    (\<lambda>_ t. stack_inv d nd (H\<lparr>inbox := (inbox H)(sk := inbox H sk @ [(src, sport, payload @ pad)])\<rparr>) t) s"
proof -
  define f where "f = host_datagram nd sa IPPROTO_UDP src (udp_segment src FIXED_IP_ADDR sport (htons (of_nat p :: u16)) payload) pad"
  have "p < 512" using port stack_inv_view(2) [OF inv] by (simp add: port_owner_def split: if_splits)
  moreover have "addresses H FIXED_IP_ADDR"
    by (rule local_route [OF inv]) (use inv in \<open>auto simp: stack_inv_def upper_inv_def host_view_def local_addr_def\<close>)
  moreover have "eth_dev nd" using inv by (simp add: stack_inv_def link_inv_def)
  ultimately have ff: "take 1514 f = f" "drop 14 f ! 9 = IPPROTO_UDP" "frame_for nd H f = Some (sk, src, sport, payload @ pad)"
    using host_datagram_for [OF _ nd _ port _ len f_def] by simp_all
  then have "\<not> icmp_unhandled (drop 14 (take 1514 f))" by (simp add: icmp_unhandled_def)
  then have "wp (ether_rx d (Some f)) (\<lambda>_ t. stack_inv d nd (deliver (frame_for nd H f) H) t) s"
    using ether_rx_stack [OF inv, of "Some f"] ff(1) by simp
  then show ?thesis unfolding f_def [symmetric] ff(3) by (simp add: deliver_def)
qed

text \<open>A message that the dispatch of ICMP does not survive.\<close>

lemma frame_crash:
  assumes inv: "stack_inv d nd H s" and nd: "unicast_dev nd" "length sa = 6"
    and msg: "8 \<le> length msg" "length msg \<le> 1480" "msg ! 0 \<le> 18" "msg ! 0 \<noteq> 8"
  shows "ether_rx d (Some (host_datagram nd sa IPPROTO_ICMP src msg [])) s = Inl Null_deref"
proof -
  define f where "f = host_datagram nd sa IPPROTO_ICMP src msg []"
  have ml: "length (msg @ []) \<le> 1480" using msg by simp
  note a = arrival_facts [OF inv nd ml f_def]
  have c: "skbs (arrival d nd f s) (brk s) = Some (arrival_skb d nd f s)" using a(2) by (simp add: inflight_def)
  have "\<not> 18 < msg ! 0" using msg(3) by (simp add: not_less)
  then have "icmp_rcv (brk s) (arrival d nd f s) = Inl Null_deref"
    using icmp_rcv_cases [OF c a(3)] msg unfolding a(4) by (simp add: Let_def)
  then have ip: "ip_rcv (brk s) (alloc_state s 2 (rx_skb d nd f)) = Inl Null_deref" unfolding a(10) by simp
  have pt: "ptype_base (alloc_state s 2 (rx_skb d nd f)) = [ip_packet_type, arp_packet_type]"
    using inv by (simp add: stack_inv_def upper_inv_def)
  show ?thesis
    unfolding f_def [symmetric] a(8) receive_def bindM_apply getsM_apply sum.case prod.case pt a(9) find_ptype_registered
    by (simp add: call_packet_fn_def ip)
qed

section \<open>Echo requests\<close>

lemma resolver_rep_mem:
  assumes "resolver_rep s n d nd before r" "mem_frame {} I s t" "neighs t = neighs s" "devs t = devs s"
    "rtables s \<subseteq>\<^sub>m rtables t" "tap_out t = tap_out s" "\<And>xs. queue_rep s (Arp_queue n) xs \<Longrightarrow> set xs \<inter> I = {}"
  shows "resolver_rep t n d nd before r"
proof (rule resolver_rep_frame [OF assms(1)])
  fix xs assume q: "queue_rep s (Arp_queue n) xs"
  then show "queue_rep t (Arp_queue n) xs" using assms(2,7) by (auto simp: mem_frame_def)
  show "skbs t j = skbs s j" if "j \<in> set xs" for j
    using that q assms(2) assms(7) [OF q] unfolding mem_frame_def queue_rep_def by blast
qed (use assms in simp_all)

lemma peer_rep_mem:
  assumes "peer_rep s ip d nd before r" "mem_frame {} I s t" "neighs t = neighs s" "ntables t = ntables s" "devs t = devs s"
    "rtables s \<subseteq>\<^sub>m rtables t" "tap_out t = tap_out s" "\<And>n xs. queue_rep s (Arp_queue n) xs \<Longrightarrow> set xs \<inter> I = {}"
  shows "peer_rep t ip d nd before r"
proof -
  have "neigh_is t = neigh_is s" using assms(3) by (simp add: neigh_is_def [abs_def])
  then have "neigh_find t = neigh_find s" using assms(4) by (simp add: neigh_find_def [abs_def])
  then show ?thesis using assms by (auto simp: peer_rep_def intro: resolver_rep_mem split: option.splits)
qed

lemma icmp_echo_sends:
  assumes inv: "stack_inv d nd H s" and b: "inflight s i (pulled b)" "transport_skb b nh" "unat (skb_len b) \<le> 65515" "8 < unat (skb_len b)"
    and rt: "skb_dst b = Some rt0" "rtables s rt0 = Some ri" "rt_dst ri \<noteq> 0"
    and fib: "fib_rep s lcl mn" "fib_route lcl mn (rt_src ri) = Some (l, fa)" and r: "peer_rep s (rt_src ri) d nd before r"
  shows "wp (icmp_echo i) (\<lambda>_ t. stack_inv d nd H t \<and> inflight t i (pulled b) \<and>
    (\<exists>r'. rstep r (Send (rt_dst ri) (ETH_P_IP, ip_datagram IPPROTO_ICMP (rt_dst ri) (rt_src ri)
       (echo_bytes (reply_header (window b)) (drop 8 (window b))))) r' \<and> resolver_rep t (peer s (rt_src ri) d) d nd before r')) s"
proof -
  let ?fl = "reply_flow ri"
  have fl: "fl4_dst ?fl = rt_src ri" "fl4_src ?fl = rt_dst ri" "fl_iif ?fl = 0" by (simp_all add: reply_flow_def zero_flowi_def)
  note p = pulled_facts [OF b(2) less_imp_le [OF b(4)]]
  have s: "link_inv d nd s" "skbs s i = Some (pulled b)" using inv b(1) by (simp_all add: inflight_def stack_inv_def)
  obtain fi where fi: "fa_info fa = Some fi" "nh_dev (fib_nh0 fi) = Some d"
  proof -
    obtain lcl' mn' where f: "fib_rep s lcl' mn'" "\<forall>dst l fa. fib_route lcl' mn' dst = Some (l, fa) \<longrightarrow>
       (\<exists>fi. fa_info fa = Some fi \<and> nh_dev (fib_nh0 fi) = Some d)" using inv by (auto simp: stack_inv_def upper_inv_def routes_ok_def)
    with fib that fib_rep_unique [OF fib(1) f(1)] show thesis by blast
  qed
  let ?t = "routed_state ?fl fi (fa_type fa) d nd s"
  have route: "ip_route_output_flow ?fl s = Inr (Some (brk s), ?t)"
    using ip_route_output_routed [OF fib(1) _ fi] fib(2) s(1) fl by (simp add: link_inv_def)
  have rep: "resolver_rep ?t (peer s (fl4_dst ?fl) d) d nd before r"
    using s(1) r fl by (intro routed_state_rep link_inv_fresh_rt) (auto simp: link_inv_def)
  obtain sk x where sk: "icmp_sock ?t sk x" "sk_protocol x = IPPROTO_ICMP" by (rule stack_inv_icmp_sock [OF stack_inv_routed [OF inv]])
  have hl: "length (reply_header (window b)) = 8" using b(2,4) by (simp add: length_reply_header transport_skb_def)
  have wl: "length (window (pulled b)) \<le> 65507" using p(1,9) b(3) by simp
  have ne: "drop 8 (window b) \<noteq> []" using b(2,4) by (simp add: transport_skb_def)
  note push = icmp_push_reply_inv [OF stack_inv_routed [OF inv] inflight_routed [OF b(1)] p(1) wl routed_state_simps(5) out_rt_route(1) rep hl sk(1)]
  have "icmp_echo i s = icmp_push_reply \<lparr>bxm_skb = i, bxm_offset = 0, bxm_data_len = int (length (window (pulled b))),
        bxm_icmph = reply_header (window b), bxm_head_len = 8\<rparr> (brk s) ?t"
    using icmp_echo_apply [OF s(2) b(2) less_imp_le [OF b(4)] b(3) rt(1,2)] route by (simp add: comp_simps)
  moreover have "reply_segment ?t h (window (pulled b)) = echo_bytes h (drop 8 (window b))" for h
    using ne by (simp add: reply_segment_def p(2))
  ultimately show ?thesis
    using push unfolding wp_def sk(2) out_rt_route(2,3) fl by (simp only: rt(3) if_False)
qed


lemma icmp_rcv_echo:
  assumes inv: "stack_inv d nd H s" and b: "inflight s i b" "transport_skb b nh" "unat (skb_len b) \<le> 65515" "8 < unat (skb_len b)" "window b ! 0 = 8"
    and rt: "skb_dst b = Some rt0" "rtables s rt0 = Some ri" "rt_dst ri \<noteq> 0"
    and fib: "fib_rep s lcl mn" "fib_route lcl mn (rt_src ri) = Some (l, fa)" and r: "peer_rep s (rt_src ri) d nd before r"
  shows "wp (icmp_rcv i) (\<lambda>rc t. rc = 0 \<and> stack_inv d nd H t \<and>
    (\<exists>r'. rstep r (Send (rt_dst ri) (ETH_P_IP, ip_datagram IPPROTO_ICMP (rt_dst ri) (rt_src ri)
       (echo_bytes (reply_header (window b)) (drop 8 (window b))))) r' \<and> resolver_rep t (peer s (rt_src ri) d) d nd before r')) s"
proof -
  have sb: "skbs s i = Some b" and lw: "length (window b) = unat (skb_len b)" using b(1,2) by (simp_all add: inflight_def transport_skb_def)
  let ?s = "s\<lparr>skbs := (skbs s)(i \<mapsto> pulled b)\<rparr>"
  have s': "stack_inv d nd H ?s" "inflight ?s i (pulled b)"
    using stack_inv_skb [OF inv b(1), of "Some (pulled b)"] b(1) by (simp_all add: inflight_def)
  have fr: "mem_frame {} {i} s ?s" using sb by (intro mem_frame_skb) simp_all
  have r': "peer_rep ?s (rt_src ri) d nd before r"
    using inflight_not_queued [OF b(1)] by (intro peer_rep_mem [OF r fr]) (simp_all add: map_le_def)
  have pe: "peer ?s (rt_src ri) d = peer s (rt_src ri) d"
    by (simp add: peer_def bound_neigh_def neigh_find_def neigh_is_def [abs_def] split: option.split)
  have f': "fib_rep ?s lcl mn" using fib(1) by (simp add: fib_rep_def)
  have rt': "rtables ?s rt0 = Some ri" using rt(2) by simp
  note echo = icmp_echo_sends [OF s' b(2-4) rt(1) rt' rt(3) f' fib(2) r', unfolded pe]
  have free: "resolver_rep (t\<lparr>skbs := (skbs t)(i := None)\<rparr>) n d nd before q" if "resolver_rep t n d nd before q" "inflight t i (pulled b)" for t n q
  proof (rule resolver_rep_mem [OF that(1)])
    show "mem_frame {} {i} t (t\<lparr>skbs := (skbs t)(i := None)\<rparr>)" using that(2) by (intro mem_frame_skb) (simp_all add: inflight_def)
  qed (use inflight_not_queued [OF that(2)] in \<open>simp_all add: map_le_def\<close>)
  have free': "stack_inv d nd H (t\<lparr>skbs := (skbs t)(i := None)\<rparr>)" if "stack_inv d nd H t" "inflight t i (pulled b)" for t
    using stack_inv_skb [OF that] .
  have "icmp_rcv i s = bindM (icmp_echo i) (\<lambda>_. bindM (kfree_skb i) (\<lambda>_. returnM 0)) ?s"
    using icmp_rcv_cases [OF sb b(2)] b(4,5) lw by (simp add: Let_def)
  moreover have "wp (bindM (icmp_echo i) (\<lambda>_. bindM (kfree_skb i) (\<lambda>_. returnM (0 :: int)))) (\<lambda>rc t. rc = 0 \<and> stack_inv d nd H t \<and>
    (\<exists>r'. rstep r (Send (rt_dst ri) (ETH_P_IP, ip_datagram IPPROTO_ICMP (rt_dst ri) (rt_src ri)
       (echo_bytes (reply_header (window b)) (drop 8 (window b))))) r' \<and> resolver_rep t (peer s (rt_src ri) d) d nd before r')) ?s"
    using free free' by (intro wp_bindM_I [OF echo]) (auto simp: wp_simps inflight_def)
  ultimately show ?thesis by (simp add: wp_def)
qed

lemma local_peer:
  assumes inv: "stack_inv d nd H s" "inflight s i b" and r: "peer_rep s ip d nd before r"
  shows "peer_rep (local_state i b d nd w s) ip d nd before r"
proof (rule peer_rep_mem [OF r])
  let ?s = "s\<lparr>brk := brk s + 1, rtables := (rtables s)(brk s \<mapsto> in_rt (os s) (brk s) d nd (ld32 w 16) (ld32 w 12) (w ! 1))\<rparr>"
  have "mem_frame {} {i} s ?s" by (rule mem_frame_same) simp_all
  moreover have "mem_frame {} {i} ?s (local_state i b d nd w s)"
    using inv(2) by (intro mem_frame_skb) (simp_all add: local_state_def inflight_def)
  ultimately show "mem_frame {} {i} s (local_state i b d nd w s)" by (rule mem_frame_trans)
  show "rtables s \<subseteq>\<^sub>m rtables (local_state i b d nd w s)"
    using link_inv_fresh_rt [of d nd s] inv(1) by (auto simp: local_state_def map_le_def stack_inv_def)
qed (use inflight_not_queued [OF inv(2)] in \<open>simp_all add: local_state_def\<close>)

lemma alloc_peer:
  assumes inv: "stack_inv d nd H s" and r: "peer_rep s ip d nd before r"
  shows "peer_rep (alloc_state s 2 b) ip d nd before r"
proof (rule peer_rep_mem [OF r])
  show "mem_frame {} {} s (alloc_state s 2 b)" using inv by (intro mem_frame_alloc) (simp_all add: stack_inv_def link_inv_def)
qed (simp_all add: alloc_state_def)

lemma frame_echo:
  assumes inv: "stack_inv d nd H s" and nd: "unicast_dev nd" "length sa = 6"
    and msg: "8 < length msg" "length msg \<le> 1480" "msg ! 0 = 8"
    and fib: "fib_rep s lcl mn" "fib_route lcl mn src = Some (l, fa)" and r: "peer_rep s src d nd before r"
  shows "wp (ether_rx d (Some (host_datagram nd sa IPPROTO_ICMP src msg []))) (\<lambda>_ t. stack_inv d nd H t \<and>
    (\<exists>r'. rstep r (Send FIXED_IP_ADDR (ETH_P_IP, ip_datagram IPPROTO_ICMP FIXED_IP_ADDR src (echo_bytes (reply_header msg) (drop 8 msg)))) r' \<and>
       resolver_rep t (peer (s\<lparr>brk := brk s + 3\<rparr>) src d) d nd before r')) s"
proof -
  define f where "f = host_datagram nd sa IPPROTO_ICMP src msg []"
  have ml: "length (msg @ []) \<le> 1480" using msg by simp
  note a = arrival_facts [OF inv nd ml f_def]
  let ?t = "arrival d nd f s" and ?c = "arrival_skb d nd f s" and ?ri = "in_rt (os s) (brk s + 2) d nd FIXED_IP_ADDR src 0"
  have ri: "rt_src ?ri = src" "rt_dst ?ri = FIXED_IP_ADDR" by (simp_all add: in_rt_def)
  have st: "stack_inv d nd H (alloc_state s 2 (rx_skb d nd f))" "inflight (alloc_state s 2 (rx_skb d nd f)) (brk s) (rx_skb d nd f)"
    using stack_inv_arp_send(1) [OF inv, where c = "rx_skb d nd f" and o' = "tap_out s"] by (simp_all add: alloc_state_def inflight_def)
  have pr: "peer_rep ?t (rt_src ?ri) d nd before r"
    unfolding ri arrival_def by (rule local_peer [OF st alloc_peer [OF inv r]])
  have fibt: "fib_rep ?t lcl mn" using fib(1) by (simp add: fib_rep_def arrival_def local_state_def)
  have pe: "peer ?t src d = peer (s\<lparr>brk := brk s + 3\<rparr>) src d"
    by (simp add: peer_def bound_neigh_def neigh_find_def neigh_is_def [abs_def] arrival_def local_state_def alloc_state_def split: option.split)
  have "wp (icmp_rcv (brk s)) (\<lambda>rc t. rc = 0 \<and> stack_inv d nd H t \<and>
    (\<exists>r'. rstep r (Send FIXED_IP_ADDR (ETH_P_IP, ip_datagram IPPROTO_ICMP FIXED_IP_ADDR src (echo_bytes (reply_header msg) (drop 8 msg)))) r' \<and>
       resolver_rep t (peer (s\<lparr>brk := brk s + 3\<rparr>) src d) d nd before r')) ?t"
    by (rule icmp_rcv_echo [OF a(1-3) _ _ _ a(6,7) _ fibt _ pr, unfolded ri pe a(4,5), simplified]) (use msg fib(2) in simp_all)
  then show ?thesis unfolding f_def [symmetric] by (intro arrival_rx [OF inv nd ml f_def]) simp
qed

section \<open>ARP requests\<close>

lemma neigh_event_ns_learns:
  assumes inv: "stack_inv d nd H s" and r: "peer_rep s ip d nd before r" and a: "length a = 6"
  shows "wp (neigh_event_ns Arp_tbl (Some a) (bytes32 ip) d) (\<lambda>p t. p = Some (bound_neigh (bytes32 ip) d s) \<and> safe_step d nd H s t \<and>
    (\<exists>r'. rstep r (Learn a) r' \<and> resolver_rep t (bound_neigh (bytes32 ip) d s) d nd before r')) s"
proof -
  let ?k = "bytes32 ip" and ?n = "bound_neigh (bytes32 ip) d s"
  have s: "neigh_inv s" "malloc_ok (os s) (brk s)" using inv by (simp_all add: stack_inv_def link_inv_def mem_ok_def)
  have find: "neigh_lookup Arp_tbl ?k d s = Inr (neigh_find s (?k, d), s)" using neigh_lookup_find [OF s(1), of "(?k, d)"] by simp
  define u where "u = (case neigh_find s (?k, d) of Some n \<Rightarrow> s | None \<Rightarrow> create_state ?k d s)"
  have run: "neigh_lookup_creat Arp_tbl ?k d True s = Inr (Some ?n, u)"
    using neigh_create_apply [OF s(1), of ?k d] s(2) find
    by (auto simp: neigh_lookup_creat_def comp_simps u_def bound_neigh_def split: option.split)
  have u: "safe_step d nd H s u" using stack_inv_create [OF inv, of ?k] inv by (simp add: u_def safe_step_def split: option.split)
  have rep: "resolver_rep u ?n d nd before r"
  proof (cases "neigh_find s (?k, d)")
    case None
    then have "devs s d = Some nd" "eth_dev nd" "before = tap_out s" "r = empty_resolver" using r by (simp_all add: peer_rep_def)
    then show ?thesis unfolding resolver_rep_def
      by (intro exI [of _ "new_neigh ?k d"] exI [of _ "[]"])
        (simp add: u_def None bound_neigh_def create_state_def new_neigh_def arp_neigh_def queue_rep_def empty_resolver_def phase_of_def)
  next
    case (Some n)
    then show ?thesis using r by (simp add: u_def bound_neigh_def peer_rep_def)
  qed
  have mem: "?n \<in> set (buckets (ntables u Arp_tbl))"
    by (auto simp: u_def bound_neigh_def create_state_def split: option.split dest: neigh_find_in)
  have iu: "stack_inv d nd H u" using u by (simp add: safe_step_def)
  have "wp (neigh_update ?n (Some a) NUD_REACHABLE) (\<lambda>rc t. safe_step d nd H u t \<and>
      (rc = 0 \<and> (\<exists>xs. queue_rep u (Arp_queue ?n) xs \<and> output_frame {} ?n (set xs) u t) \<and>
      (\<exists>r'. rstep r (Learn (take 6 a)) r' \<and> resolver_rep t ?n d nd before r'))) u"
    using a by (intro wp_conj neigh_update_stack [OF iu mem] neigh_update_step [OF rep]) simp_all
  then show ?thesis
    using safe_step_trans [OF u] a by (auto simp: neigh_event_ns_def wp_iff comp_simps run)
qed

lemma arp_answer_replies:
  assumes inv: "stack_inv d nd H s" "inflight s i b" and r: "peer_rep s sip d nd before r" and a: "length sha = 6"
  shows "wp (arp_answer i d sip tip sha) (\<lambda>rc t. rc = 0 \<and> stack_inv d nd H t \<and> (\<exists>out r'.
    tap_out t = out @ [arp_frame nd ARPOP_REPLY ETH_P_ARP sip tip (Some sha) (Some (dev_addr nd)) (Some sha)] \<and>
    rstep r (Learn sha) r' \<and> resolver_rep (t\<lparr>tap_out := out\<rparr>) (bound_neigh (bytes32 sip) d s) d nd before r')) s"
  unfolding arp_answer_def
proof (rule wp_bindM_I [OF neigh_event_ns_learns [OF inv(1) r a]], elim conjE exE)
  fix p t r' assume p: "p = Some (bound_neigh (bytes32 sip) d s)" and t: "safe_step d nd H s t"
    and r': "rstep r (Learn sha) r'" "resolver_rep t (bound_neigh (bytes32 sip) d s) d nd before r'"
  then have st: "stack_inv d nd H t" "inflight t i b" and d: "devs t d = Some nd" "eth_dev nd" "mem_ok t" "heap_ok t"
    using inv(2) by (simp_all add: safe_step_def stack_inv_def link_inv_def)
  let ?f = "arp_frame nd ARPOP_REPLY ETH_P_ARP sip tip (Some sha) (Some (dev_addr nd)) (Some sha)"
  let ?u = "(alloc_state t 2 (arp_skb d ?f))\<lparr>tap_out := tap_out t @ [?f]\<rparr>"
  let ?v = "?u\<lparr>skbs := (skbs ?u)(i := None)\<rparr>"
  have send: "arp_send ARPOP_REPLY ETH_P_ARP sip d tip (Some sha) (Some (dev_addr nd)) (Some sha) t = Inr ((), ?u)"
    using d a by (intro arp_send_apply) (auto simp: eth_dev_def)
  have u: "stack_inv d nd H ?u" "inflight ?u i b" using stack_inv_arp_send [OF st(1)] st(2) by simp_all
  have v: "stack_inv d nd H ?v" using stack_inv_skb [OF u] .
  have fr: "mem_frame {} {i} t (?v\<lparr>tap_out := tap_out t\<rparr>)"
  proof (rule mem_frame_trans)
    show "mem_frame {} {i} t (alloc_state t 2 (arp_skb d ?f))" using d(4) by (rule mem_frame_alloc) simp
    show "mem_frame {} {i} (alloc_state t 2 (arp_skb d ?f)) (?v\<lparr>tap_out := tap_out t\<rparr>)"
      using u(2) by (intro mem_frame_skb) (simp_all add: inflight_def)
  qed
  have "resolver_rep (?v\<lparr>tap_out := tap_out t\<rparr>) (bound_neigh (bytes32 sip) d s) d nd before r'"
    by (rule resolver_rep_mem [OF r'(2) fr]) (use inflight_not_queued [OF st(2)] in \<open>simp_all add: alloc_state_def\<close>)
  then have "stack_inv d nd H ?v \<and> (\<exists>out r'. tap_out ?v = out @ [?f] \<and> rstep r (Learn sha) r' \<and>
      resolver_rep (?v\<lparr>tap_out := out\<rparr>) (bound_neigh (bytes32 sip) d s) d nd before r')"
    using v r'(1) by (intro conjI exI [of _ "tap_out t"] exI [of _ r']) simp_all
  moreover have "skbs ?u i = Some b" using u(2) by (simp add: inflight_def)
  ultimately show "wp (bindM (case p of None \<Rightarrow> returnM () | Some _ \<Rightarrow> bindM (get_dev d) (\<lambda>nd.
        arp_send ARPOP_REPLY ETH_P_ARP sip d tip (Some sha) (Some (dev_addr nd)) (Some sha))) (\<lambda>_.
      bindM (kfree_skb i) (\<lambda>_. returnM 0))) (\<lambda>rc t. rc = 0 \<and> stack_inv d nd H t \<and> (\<exists>out r'. tap_out t = out @ [?f] \<and>
    rstep r (Learn sha) r' \<and> resolver_rep (t\<lparr>tap_out := out\<rparr>) (bound_neigh (bytes32 sip) d s) d nd before r')) t"
    using send d(1) by (simp add: p wp_def comp_simps)
qed

lemma arp_packet_fields:
  assumes "length sha = 6" "length tha = 6"
  shows "ld16 (arp_packet op sha sip tha tip @ pad) 0 = htons (ARPHRD_ETHER :: u16)" "ld16 (arp_packet op sha sip tha tip @ pad) 2 = htons ETH_P_IP"
    "ld16 (arp_packet op sha sip tha tip @ pad) 6 = htons op" "ld32 (arp_packet op sha sip tha tip @ pad) 14 = sip"
    "ld32 (arp_packet op sha sip tha tip @ pad) 24 = tip" "get_bytes (arp_packet op sha sip tha tip @ pad) 8 6 = sha"
    "(arp_packet op sha sip tha tip @ pad) ! 4 = 6" "(arp_packet op sha sip tha tip @ pad) ! 5 = 4" "length (arp_packet op sha sip tha tip @ pad) = 28 + length pad"
proof -
  obtain a b c e f g where "sha = [a, b, c, e, f, g]" using assms(1) by (auto simp: numeral_eq_Suc length_Suc_conv)
  moreover obtain a b c e f g where "tha = [a, b, c, e, f, g]" using assms(2) by (auto simp: numeral_eq_Suc length_Suc_conv)
  ultimately show "ld16 (arp_packet op sha sip tha tip @ pad) 0 = htons (ARPHRD_ETHER :: u16)" "ld16 (arp_packet op sha sip tha tip @ pad) 2 = htons ETH_P_IP"
    "ld16 (arp_packet op sha sip tha tip @ pad) 6 = htons op" "ld32 (arp_packet op sha sip tha tip @ pad) 14 = sip"
    "ld32 (arp_packet op sha sip tha tip @ pad) 24 = tip" "get_bytes (arp_packet op sha sip tha tip @ pad) 8 6 = sha"
    "(arp_packet op sha sip tha tip @ pad) ! 4 = 6" "(arp_packet op sha sip tha tip @ pad) ! 5 = 4" "length (arp_packet op sha sip tha tip @ pad) = 28 + length pad"
    by (simp_all add: arp_packet_def bytes16_def bytes32_def ld16_def ld32_def get_bytes_def)
qed


lemma arp_rcv_process:
  assumes s: "skbs s i = Some b" "devs s d = Some nd" "eth_dev nd"
    and b: "wf_skb b" "nh_raw b = Some (skb_data b)" "28 \<le> unat (skb_len b)" "window b ! 4 = 6" "window b ! 5 = 4"
      "pkt_type b \<notin> {PACKET_OTHERHOST, PACKET_LOOPBACK}"
  shows "arp_rcv i d s = arp_process i s"
proof -
  have "in_block b (skb_data b + 4) 1" "in_block b (skb_data b + 5) 1" "skb_buf b ! nat (skb_data b + 4) = 6" "skb_buf b ! nat (skb_data b + 5) = 4"
    using in_block_window [OF b(1), of 4 1] in_block_window [OF b(1), of 5 1] load_window(3) [OF b(1), of 4] load_window(3) [OF b(1), of 5] b(3-5)
    by simp_all
  moreover have "addr_len nd = 6" using s(3) by (simp add: eth_dev_def)
  ultimately show ?thesis
    using s(1,2) b by (simp add: arp_rcv_def comp_simps load_defs skb_may_pull_def word_le_nat_alt Let_def)
qed

lemma arp_process_replies:
  assumes inv: "stack_inv d nd H s" "inflight s i b"
    and b: "wf_skb b" "nh_raw b = Some (skb_data b)" "skb_dev b = Some d"
    and w: "window b = arp_packet ARPOP_REQUEST sha sip tha FIXED_IP_ADDR @ pad" "length sha = 6" "length tha = 6"
    and r: "peer_rep s sip d nd before r"
  shows "wp (arp_process i) (\<lambda>rc t. rc = 0 \<and> stack_inv d nd H t \<and> (\<exists>out r'.
    tap_out t = out @ [arp_frame nd ARPOP_REPLY ETH_P_ARP sip FIXED_IP_ADDR (Some sha) (Some (dev_addr nd)) (Some sha)] \<and>
    rstep r (Learn sha) r' \<and> resolver_rep (t\<lparr>tap_out := out\<rparr>) (bound_neigh (bytes32 sip) d (s\<lparr>brk := brk s + 1\<rparr>)) d nd before r')) s"
proof -
  have s: "skbs s i = Some b" "devs s d = Some nd" "eth_dev nd" "mem_ok s"
    using inv by (simp_all add: inflight_def stack_inv_def link_inv_def)
  note f = arp_packet_fields [OF w(2,3), where op = ARPOP_REQUEST and sip = sip and tip = FIXED_IP_ADDR and pad = pad, folded w(1)]
  have len: "28 \<le> unat (skb_len b)" using length_window [OF b(1)] f(9) unfolding w(1) by simp
  obtain lcl mn l fa where fib: "fib_rep s lcl mn" "fib_route lcl mn FIXED_IP_ADDR = Some (l, fa)" "fa_type fa = RTN_LOCAL"
    by (rule local_route [OF inv(1)])
  let ?b = "b\<lparr>skb_dst := Some (brk s)\<rparr>"
  let ?s0 = "s\<lparr>brk := brk s + 1, rtables := (rtables s)(brk s \<mapsto> in_rt (os s) (brk s) d nd FIXED_IP_ADDR sip 0)\<rparr>"
  let ?t = "?s0\<lparr>skbs := (skbs s)(i \<mapsto> ?b)\<rparr>"
  have route: "ip_route_input i FIXED_IP_ADDR sip 0 d s = Inr (0, ?t)"
    using ip_route_input_apply [OF fib(1) s(2,1,4)] fib(2,3) by simp
  have i0: "inflight ?s0 i b" using inv(2) by (simp add: inflight_def)
  have t: "stack_inv d nd H ?t" "inflight ?t i ?b"
    using stack_inv_skb [OF stack_inv_rt [OF inv(1)] i0, of "Some ?b"] inv(2) by (simp_all add: inflight_def)
  have fr: "mem_frame {} {i} s ?t"
  proof (rule mem_frame_trans)
    show "mem_frame {} {i} s ?s0" by (rule mem_frame_same) simp_all
    show "mem_frame {} {i} ?s0 ?t" using s(1) by (intro mem_frame_skb) simp_all
  qed
  have pr: "peer_rep ?t sip d nd before r"
  proof (rule peer_rep_mem [OF r fr])
    show "rtables s \<subseteq>\<^sub>m rtables ?t" using link_inv_fresh_rt [of d nd s] inv(1) by (auto simp: map_le_def stack_inv_def)
  qed (use inflight_not_queued [OF inv(2)] in simp_all)
  have n: "bound_neigh (bytes32 sip) d ?t = bound_neigh (bytes32 sip) d (s\<lparr>brk := brk s + 1\<rparr>)"
    by (simp add: bound_neigh_def neigh_find_def neigh_is_def [abs_def] split: option.split)
  have ok: "arp_ok (window b)" unfolding arp_ok_def f by (simp add: LOOPBACK_def MULTICAST_def htonl_def)
  have "arp_process i s = arp_answer i d sip FIXED_IP_ADDR sha ?t"
    unfolding arp_process_apply [OF s(1-3) b len] f using ok route by (simp add: bindM_apply comp_simps in_rt_def)
  then show ?thesis using arp_answer_replies [OF t pr w(2), of FIXED_IP_ADDR, unfolded n] by (simp add: wp_def)
qed

lemma frame_arp_request:
  assumes inv: "stack_inv d nd H s" and f: "f = eth_frame dst sa ETH_P_ARP (arp_packet ARPOP_REQUEST sha sip tha FIXED_IP_ADDR @ pad)"
    and len: "length dst = 6" "length sa = 6" "length sha = 6" "length tha = 6" "length pad \<le> 1472" and c: "eth_class nd dst 0 \<noteq> PACKET_OTHERHOST"
    and r: "peer_rep s sip d nd before r"
  shows "wp (ether_rx d (Some f)) (\<lambda>_ t. stack_inv d nd H t \<and> (\<exists>out r'.
    tap_out t = out @ [arp_frame nd ARPOP_REPLY ETH_P_ARP sip FIXED_IP_ADDR (Some sha) (Some (dev_addr nd)) (Some sha)] \<and>
    rstep r (Learn sha) r' \<and> resolver_rep (t\<lparr>tap_out := out\<rparr>) (bound_neigh (bytes32 sip) d (s\<lparr>brk := brk s + 3\<rparr>)) d nd before r')) s"
proof -
  let ?w = "arp_packet ARPOP_REQUEST sha sip tha FIXED_IP_ADDR @ pad" and ?b = "rx_skb d nd f" and ?i = "brk s"
  let ?s = "alloc_state s 2 ?b"
  let ?Q = "\<lambda>t. stack_inv d nd H t \<and> (\<exists>out r'.
    tap_out t = out @ [arp_frame nd ARPOP_REPLY ETH_P_ARP sip FIXED_IP_ADDR (Some sha) (Some (dev_addr nd)) (Some sha)] \<and>
    rstep r (Learn sha) r' \<and> resolver_rep (t\<lparr>tap_out := out\<rparr>) (bound_neigh (bytes32 sip) d (s\<lparr>brk := brk s + 3\<rparr>)) d nd before r')"
  have s: "mem_ok s" "devs s d = Some nd" "eth_dev nd" "heap_ok s" "ptype_base ?s = [ip_packet_type, arp_packet_type]" "devs ?s d = Some nd"
    using inv by (simp_all add: stack_inv_def link_inv_def upper_inv_def)
  note p = arp_packet_fields [OF len(3,4), where op = ARPOP_REQUEST and sip = sip and tip = FIXED_IP_ADDR and pad = pad]
  have fl: "length f = 42 + length pad" "drop 14 f = ?w" "ld16 f 12 = htons ETH_P_ARP" "take 6 f = dst" "f ! 0 = dst ! 0"
    using len p(9) by (simp_all add: f eth_frame_def ld16_def nth_append bytes16_def)
  have "14 \<le> length f" "length f \<le> 1514" using fl(1) len(5) by simp_all
  note b = rx_skb_facts [OF this, of d nd]
  have cl: "pkt_type ?b \<notin> {PACKET_OTHERHOST, PACKET_LOOPBACK}"
    using c len(1) fl(4,5) unfolding b(7) by (auto simp: eth_class_def is_multicast_ether_addr_def split: if_splits)
  have t: "stack_inv d nd H ?s" "inflight ?s ?i ?b"
    using stack_inv_arp_send(1) [OF inv, where c = ?b and o' = "tap_out s"] by (simp_all add: alloc_state_def inflight_def)
  have w: "window ?b = ?w" using b(2) fl(2) by simp
  have n: "bound_neigh (bytes32 sip) d (?s\<lparr>brk := brk ?s + 1\<rparr>) = bound_neigh (bytes32 sip) d (s\<lparr>brk := brk s + 3\<rparr>)"
    by (simp add: bound_neigh_def neigh_find_def neigh_is_def [abs_def] alloc_state_def split: option.split)
  have si: "skbs ?s ?i = Some ?b" by simp
  have "arp_rcv ?i d ?s = arp_process ?i ?s"
    by (rule arp_rcv_process [OF si s(6,3) b(1,3)]) (use b(6) fl(1) cl in \<open>simp_all add: w p(7,8)\<close>)
  then have "wp (arp_rcv ?i d) (\<lambda>rc t. rc = 0 \<and> ?Q t) ?s"
    using arp_process_replies [OF t b(1,3,5) w len(3,4) alloc_peer [OF inv r], unfolded n] by (simp add: wp_def)
  then have "wp (receive d ?i f) (\<lambda>_. ?Q) ?s"
    unfolding receive_def wp_bindM wp_getsM s(5) fl(3) find_ptype_registered
    by (auto simp: call_packet_fn_def wp_iff comp_simps intro!: exI [of _ "0 :: int"])
  then show ?thesis using ether_rx_apply [OF s(1-3), of f f] fl(1) len(5) by (simp add: wp_def)
qed

section \<open>Sending a datagram\<close>

lemma sendto_sends:
  assumes inv: "stack_inv d nd H s" and fd: "descriptor_of H fd = Udp_descriptor sk" and x: "socks s sk = Some x" "inet_num x \<noteq> 0"
    and addr: "sin_family addr = 2" "sin_port addr \<noteq> 0" and len: "k \<le> length buff" "k \<le> 65507"
    and fib: "fib_rep s lcl mn" "fib_route lcl mn (sin_addr addr) = Some (l, fa)" "fa_info fa = Some fi" and r: "peer_rep s (sin_addr addr) d nd before r"
  shows "wp (sys_sendto fd buff (of_nat k) (Some addr) 8) (\<lambda>rc t. rc = 0 \<and> stack_inv d nd H t \<and>
    (\<exists>r'. rstep r (Send (fib_prefsrc fi) (ETH_P_IP, ip_datagram IPPROTO_UDP (fib_prefsrc fi) (sin_addr addr)
       (udp_segment (fib_prefsrc fi) (sin_addr addr) (inet_sport x) (sin_port addr) (take k buff)))) r' \<and>
       resolver_rep t (peer s (sin_addr addr) d) d nd before r')) s"
proof -
  obtain so z x' where z: "sock_from_fd fd s = Inr (Some so, s)" "sockets s so = Some z" "sock_ops z = Some Inet_dgram_ops" "socket_sk z = Some sk"
    and x': "socks s sk = Some x'" "sk_prot x' = Udp_prot" "sk_protocol x' = IPPROTO_UDP" by (rule udp_fdE [OF inv fd])
  with x have kind: "sk_prot x = Udp_prot" "sk_protocol x = IPPROTO_UDP" by simp_all
  let ?msg = "\<lparr>msg_name = Some addr, msg_namelen = 8, msg_iov = \<lparr>iov_base = buff, iov_len = ucast (of_nat k :: u32)\<rparr>, msg_iovlen = 1\<rparr>"
  have nh: "nh_dev (fib_nh0 fi) = Some d"
  proof -
    obtain lcl' mn' where f: "fib_rep s lcl' mn'" "\<forall>dst l fa. fib_route lcl' mn' dst = Some (l, fa) \<longrightarrow>
       (\<exists>fi. fa_info fa = Some fi \<and> nh_dev (fib_nh0 fi) = Some d)" using inv by (auto simp: stack_inv_def upper_inv_def routes_ok_def)
    with fib fib_rep_unique [OF fib(1) f(1)] show ?thesis by fastforce
  qed
  have w: "queue_rep s (Write_queue sk) []" using stack_inv_view(5) [OF inv, of sk] x(1) by (simp add: sock_ok_def)
  have l: "devs s d = Some nd" "ip_ptr nd \<noteq> None" "mem_ok s" "heap_ok s" "malloc_ptr (os s) (brk s) = None" "neigh_inv s"
    using inv by (simp_all add: stack_inv_def link_inv_def)
  have fresh: "rtables s (brk s) = None" using inv link_inv_fresh_rt [of d nd s] by (simp add: stack_inv_def)
  have sends: "wp (udp_sendmsg sk ?msg (of_nat k)) (\<lambda>rc t. rc = 0 \<and> (\<exists>r'. rstep r (Send (fib_prefsrc fi) (ETH_P_IP,
      ip_datagram IPPROTO_UDP (fib_prefsrc fi) (sin_addr addr)
        (udp_segment (fib_prefsrc fi) (sin_addr addr) (inet_sport x) (sin_port addr) (take k (iov_base (msg_iov ?msg)))))) r' \<and>
      resolver_rep t (peer s (sin_addr addr) d) d nd before r')) s"
    by (rule udp_sendmsg_sends [OF _ _ addr fib nh l(1-5) fresh l(6) r x(1) kind(2) w]) (use len in simp_all)
  have keeps: "wp (udp_sendmsg sk ?msg (of_nat k)) (\<lambda>rc t. rc \<in> {0, -1} \<and> stack_inv d nd H t \<and> same_upper s t) s"
    by (rule udp_sendmsg_stack [OF inv x(1) kind(2), where usin = addr]) (use len in simp_all)
  show ?thesis
    using wp_conj [OF sends keeps] z x kind
    by (auto simp: wp_iff sys_sendto_def sock_sendmsg_def inet_sendmsg_def comp_simps Let_def)
qed

end
