(* ===== verification/Tap.thy ===== *)
theory Tap
  imports Net_Prelude
begin

text \<open>
  The tap device that stands for the wire (\<^verbatim>\<open>driver/tap.c\<close>): the sequence of system calls that creates it, gives it an address and
  brings it up. The operating system is a parameter: what a call returns, and the flags it reports, may depend on all calls made before.
\<close>

unbundle bit_operations_syntax

section \<open>The operating system\<close>

text \<open>
  The requests of \<^verbatim>\<open>ioctl\<close> with what the code passes in them: the members of \<^verbatim>\<open>struct ifreq\<close> that it sets.
\<close>

datatype tap_request =
    Tunsetiff string u16
  | Tunsetpersist int
  | Siocsifaddr string u32
  | Siocsifnetmask string u32
  | Siocgifflags string
  | Siocsifflags string u16

datatype tap_call = Open string | Inet_dgram_socket | Ioctl int tap_request | Close int

type_synonym tap_log = "(tap_call \<times> int) list"

record tap_os =
  call_ret :: "tap_log \<Rightarrow> tap_call \<Rightarrow> int"
  if_flags :: "tap_log \<Rightarrow> string \<Rightarrow> u16"

record tap_store =
  tap_env :: tap_os
  tap_log :: tap_log
  tapfd :: int

definition sys_call :: "tap_call \<Rightarrow> (tap_store, int) comp" where
  "sys_call c = (\<lambda>s. let r = call_ret (tap_env s) (tap_log s) c in Inr (r, s\<lparr>tap_log := tap_log s @ [(c, r)]\<rparr>))"

section \<open>The code\<close>

abbreviation (input) "TUNDEVICE \<equiv> ''/dev/net/tun''"
abbreviation (input) "TAPDEVICE_NAME \<equiv> ''tap0''"
abbreviation (input) "FIXED_TAP_ADDR \<equiv> (0x0100000a :: u32)"
abbreviation (input) "FIXED_TAP_NETMASK \<equiv> (0x00ffffff :: u32)"
abbreviation (input) "IFF_TAP \<equiv> (0x0002 :: u16)"
abbreviation (input) "IFF_NO_PI \<equiv> (0x1000 :: u16)"
abbreviation (input) "IFF_UP \<equiv> (0x0001 :: u16)"
abbreviation (input) "IFF_RUNNING \<equiv> (0x0040 :: u16)"

text \<open>\<^verbatim>\<open>strcpy\<close> into the 16 bytes of \<^verbatim>\<open>ifr_name\<close>.\<close>

definition copy_ifname :: "string \<Rightarrow> (tap_store, unit) comp" where
  "copy_ifname name = checkM (length name + 1 \<le> 16) Out_of_bounds"

definition tapdevice_alloc :: "string option \<Rightarrow> (tap_store, int) comp" where
  "tapdevice_alloc name =
     bindM (sys_call (Open TUNDEVICE)) (\<lambda>fd.
     if fd < 0 then returnM (-1)
     else
       bindM (case name of None \<Rightarrow> returnM () | Some n \<Rightarrow> copy_ifname n) (\<lambda>_.
       bindM (sys_call (Ioctl fd (Tunsetiff (case name of None \<Rightarrow> '''' | Some n \<Rightarrow> n) (IFF_TAP OR IFF_NO_PI)))) (\<lambda>r.
       if r < 0 then bindM (sys_call (Close fd)) (\<lambda>_. returnM (-1))
       else returnM fd)))"

definition set_tapdevice_persist :: "int \<Rightarrow> (tap_store, int) comp" where
  "set_tapdevice_persist fd = bindM (sys_call (Ioctl fd (Tunsetpersist 1))) (\<lambda>r. if r < 0 then returnM (-1) else returnM 0)"

definition set_tapdevice_ipaddr :: "string \<Rightarrow> u32 \<Rightarrow> (tap_store, int) comp" where
  "set_tapdevice_ipaddr name addr =
     bindM (sys_call Inet_dgram_socket) (\<lambda>fd.
     if fd < 0 then returnM (-1)
     else
       bindM (copy_ifname name) (\<lambda>_.
       bindM (sys_call (Ioctl fd (Siocsifaddr name addr))) (\<lambda>r.
       bindM (sys_call (Close fd)) (\<lambda>_.
       if r < 0 then returnM (-1) else returnM 0))))"

definition set_tapdevice_netmask :: "string \<Rightarrow> u32 \<Rightarrow> (tap_store, int) comp" where
  "set_tapdevice_netmask name msk =
     bindM (sys_call Inet_dgram_socket) (\<lambda>fd.
     if fd < 0 then returnM (-1)
     else
       bindM (copy_ifname name) (\<lambda>_.
       bindM (sys_call (Ioctl fd (Siocsifnetmask name msk))) (\<lambda>r.
       bindM (sys_call (Close fd)) (\<lambda>_.
       if r < 0 then returnM (-1) else returnM 0))))"

definition set_tapdevice_flags :: "string \<Rightarrow> u16 \<Rightarrow> bool \<Rightarrow> (tap_store, int) comp" where
  "set_tapdevice_flags name flags on =
     bindM (sys_call Inet_dgram_socket) (\<lambda>fd.
     if fd < 0 then returnM (-1)
     else
       bindM (copy_ifname name) (\<lambda>_.
       bindM (getsM (\<lambda>s. if_flags (tap_env s) (tap_log s) name)) (\<lambda>old.
       bindM (sys_call (Ioctl fd (Siocgifflags name))) (\<lambda>r.
       if r < 0 then bindM (sys_call (Close fd)) (\<lambda>_. returnM (-1))
       else
         let new = (if on then old OR flags else old AND (NOT flags AND 0xffff)) in
         bindM (sys_call (Ioctl fd (Siocsifflags name new))) (\<lambda>r.
         if r < 0 then bindM (sys_call (Close fd)) (\<lambda>_. returnM (-1))
         else returnM 0)))))"

definition set_tapdevice_up :: "string \<Rightarrow> (tap_store, int) comp" where
  "set_tapdevice_up name = set_tapdevice_flags name (IFF_UP OR IFF_RUNNING) True"

definition tapdevice_init :: "(tap_store, int) comp" where
  "tapdevice_init =
     bindM (tapdevice_alloc (Some TAPDEVICE_NAME)) (\<lambda>fd.
     bindM (modifyM (\<lambda>s. s\<lparr>tapfd := fd\<rparr>)) (\<lambda>_.
     if fd < 0 then returnM (-1)
     else bindM (set_tapdevice_persist fd) (\<lambda>r.
     if r < 0 then returnM (-1)
     else bindM (set_tapdevice_ipaddr TAPDEVICE_NAME FIXED_TAP_ADDR) (\<lambda>r.
     if r < 0 then returnM (-1)
     else bindM (set_tapdevice_netmask TAPDEVICE_NAME FIXED_TAP_NETMASK) (\<lambda>r.
     if r < 0 then returnM (-1)
     else bindM (set_tapdevice_up TAPDEVICE_NAME) (\<lambda>r.
     if r < 0 then returnM (-1) else returnM 0))))))"

section \<open>Symbolic execution\<close>

text \<open>A log in which every call but the \<^verbatim>\<open>close\<close> calls, whose results the code ignores, has succeeded.\<close>

fun call_ok :: "tap_call \<times> int \<Rightarrow> bool" where
  "call_ok (Close fd, r) = True"
| "call_ok (c, r) = (0 \<le> r)"

definition succeeded :: "tap_log \<Rightarrow> bool" where
  "succeeded l \<longleftrightarrow> list_all call_ok l"

lemma succeeded_simps [simp]: "succeeded []" "succeeded (x # xs) \<longleftrightarrow> call_ok x \<and> succeeded xs" "succeeded (xs @ ys) \<longleftrightarrow> succeeded xs \<and> succeeded ys"
  by (simp_all add: succeeded_def)

text \<open>
  What a function adds to the log: on success calls that all succeeded and satisfy \<open>P\<close>, otherwise calls of which one has failed.
\<close>

definition adds :: "tap_store \<Rightarrow> (tap_log \<Rightarrow> bool) \<Rightarrow> bool \<Rightarrow> tap_store \<Rightarrow> bool" where
  "adds s P ok t \<longleftrightarrow> tap_env t = tap_env s \<and> (\<exists>l. tap_log t = tap_log s @ l \<and> succeeded l = ok \<and> (ok \<longrightarrow> P l))"

lemma wp_sys_call: "(\<And>r. Q r (s\<lparr>tap_log := tap_log s @ [(c, r)]\<rparr>)) \<Longrightarrow> wp (sys_call c) Q s"
  by (simp add: sys_call_def wp_def Let_def)

lemma wp_copy_ifname [wp_simps]: "wp (copy_ifname name) Q s \<longleftrightarrow> length name < 16 \<and> Q () s"
  by (simp add: copy_ifname_def wp_simps less_eq_Suc_le)

lemma tapdevice_alloc_adds:
  assumes "length name < 16"
  shows "wp (tapdevice_alloc (Some name)) (\<lambda>fd t. fd \<ge> -1 \<and>
    adds s (\<lambda>l. \<exists>r. l = [(Open TUNDEVICE, fd), (Ioctl fd (Tunsetiff name (IFF_TAP OR IFF_NO_PI)), r)]) (0 \<le> fd) t \<and> tapfd t = tapfd s) s"
  using assms unfolding tapdevice_alloc_def
  by (auto simp: wp_simps adds_def intro!: wp_sys_call)

lemma set_tapdevice_persist_adds:
  "wp (set_tapdevice_persist fd) (\<lambda>rc t. rc \<in> {0, -1} \<and> adds s (\<lambda>l. map fst l = [Ioctl fd (Tunsetpersist 1)]) (rc = 0) t \<and> tapfd t = tapfd s) s"
  unfolding set_tapdevice_persist_def by (auto simp: wp_simps adds_def intro!: wp_sys_call)

text \<open>The requests that the two address functions make on a socket of their own.\<close>

definition on_socket :: "tap_request list \<Rightarrow> bool \<Rightarrow> tap_log \<Rightarrow> bool" where
  "on_socket reqs closed l \<longleftrightarrow> (\<exists>fd. map fst l = Inet_dgram_socket # map (Ioctl fd) reqs @ (if closed then [Close fd] else []) \<and> snd (hd l) = fd)"

lemma set_tapdevice_addr_adds:
  assumes "length name < 16"
  shows "wp (set_tapdevice_ipaddr name a) (\<lambda>rc t. rc \<in> {0, -1} \<and> adds s (on_socket [Siocsifaddr name a] True) (rc = 0) t \<and> tapfd t = tapfd s) s"
    "wp (set_tapdevice_netmask name a) (\<lambda>rc t. rc \<in> {0, -1} \<and> adds s (on_socket [Siocsifnetmask name a] True) (rc = 0) t \<and> tapfd t = tapfd s) s"
  using assms unfolding set_tapdevice_ipaddr_def set_tapdevice_netmask_def
  by (auto simp: wp_simps adds_def on_socket_def intro!: wp_sys_call)

lemma and_ffff: "x AND 0xffff = x" for x :: u16
proof -
  have "(0xffff :: u16) = -1" by simp
  then show ?thesis by (simp only: and.right_neutral)
qed

text \<open>The flags that are set: those the interface had when its socket was opened, with the new ones added or taken away.\<close>

definition sets_flags :: "tap_store \<Rightarrow> string \<Rightarrow> u16 \<Rightarrow> bool \<Rightarrow> tap_log \<Rightarrow> bool" where
  "sets_flags s name flags on l \<longleftrightarrow> (let old = if_flags (tap_env s) (tap_log s @ [hd l]) name in
     on_socket [Siocgifflags name, Siocsifflags name (if on then old OR flags else old AND NOT flags)] False l)"

lemma set_tapdevice_flags_adds:
  assumes "length name < 16"
  shows "wp (set_tapdevice_flags name flags on) (\<lambda>rc t. rc \<in> {0, -1} \<and> adds s (sets_flags s name flags on) (rc = 0) t \<and> tapfd t = tapfd s) s"
  using assms unfolding set_tapdevice_flags_def Let_def
  by (auto simp: wp_simps adds_def on_socket_def sets_flags_def Let_def and_ffff intro!: wp_sys_call)

text \<open>A step of the configuration: when it fails the whole fails, otherwise the next step follows.\<close>

lemma wp_config_step:
  fixes m m' :: "(tap_store, int) comp"
  assumes m: "wp m (\<lambda>rc t. rc \<in> {0, -1} \<and> adds s P (rc = 0) t \<and> tapfd t = tapfd s) s"
    and ok: "\<And>t l. tap_log t = tap_log s @ l \<Longrightarrow> succeeded l \<Longrightarrow> P l \<Longrightarrow> tapfd t = tapfd s \<Longrightarrow> wp m' Q t"
    and fail: "\<And>t. \<not> succeeded (tap_log t) \<Longrightarrow> Q (-1) t"
  shows "wp (bindM m (\<lambda>r. if r < 0 then returnM (-1 :: int) else m')) Q s"
proof -
  obtain r :: int and t where run: "m s = Inr (r, t)" and r: "r = 0 \<or> r = -1" "adds s P (r = 0) t" "tapfd t = tapfd s"
    using m by (auto simp: wp_iff)
  have "wp (if r < 0 then returnM (-1) else m') Q t"
    using r ok [of t] fail [of t] by (auto simp: adds_def wp_simps)
  with run show ?thesis by (simp add: wp_def bindM_apply)
qed

text \<open>The requests of a complete configuration.\<close>

definition configured :: "int \<Rightarrow> tap_log \<Rightarrow> bool" where
  "configured fd l \<longleftrightarrow> (\<exists>create persist addr msk up. l = create @ persist @ addr @ msk @ up \<and>
     map fst create = [Open TUNDEVICE, Ioctl fd (Tunsetiff TAPDEVICE_NAME (IFF_TAP OR IFF_NO_PI))] \<and>
     map fst persist = [Ioctl fd (Tunsetpersist 1)] \<and>
     on_socket [Siocsifaddr TAPDEVICE_NAME FIXED_TAP_ADDR] True addr \<and>
     on_socket [Siocsifnetmask TAPDEVICE_NAME FIXED_TAP_NETMASK] True msk \<and>
     (\<exists>old. on_socket [Siocgifflags TAPDEVICE_NAME, Siocsifflags TAPDEVICE_NAME (old OR (IFF_UP OR IFF_RUNNING))] False up))"

lemma configuredI:
  assumes "map fst create = [Open TUNDEVICE, Ioctl fd (Tunsetiff TAPDEVICE_NAME (IFF_TAP OR IFF_NO_PI))]"
    "map fst persist = [Ioctl fd (Tunsetpersist 1)]"
    "on_socket [Siocsifaddr TAPDEVICE_NAME FIXED_TAP_ADDR] True addr"
    "on_socket [Siocsifnetmask TAPDEVICE_NAME FIXED_TAP_NETMASK] True msk"
    "on_socket [Siocgifflags TAPDEVICE_NAME, Siocsifflags TAPDEVICE_NAME (old OR (IFF_UP OR IFF_RUNNING))] False up"
  shows "configured fd (create @ persist @ addr @ msk @ up)"
  unfolding configured_def by (rule exI)+ (rule conjI, rule refl, intro conjI exI, (rule assms)+)

lemma tapdevice_configures:
  assumes "tap_log s = create" "succeeded create" "map fst create = [Open TUNDEVICE, Ioctl fd (Tunsetiff TAPDEVICE_NAME (IFF_TAP OR IFF_NO_PI))]" "tapfd s = fd"
  shows "wp (bindM (set_tapdevice_persist fd) (\<lambda>r. if r < 0 then returnM (-1)
     else bindM (set_tapdevice_ipaddr TAPDEVICE_NAME FIXED_TAP_ADDR) (\<lambda>r. if r < 0 then returnM (-1)
     else bindM (set_tapdevice_netmask TAPDEVICE_NAME FIXED_TAP_NETMASK) (\<lambda>r. if r < 0 then returnM (-1)
     else bindM (set_tapdevice_up TAPDEVICE_NAME) (\<lambda>r. if r < 0 then returnM (-1) else returnM (0 :: int))))))
   (\<lambda>rc t. rc \<in> {0, -1} \<and> (rc = 0 \<longleftrightarrow> succeeded (tap_log t)) \<and> (rc = 0 \<longrightarrow> configured (tapfd t) (tap_log t))) s"
proof -
  have n: "length TAPDEVICE_NAME < 16" by simp
  show ?thesis
  proof (rule wp_config_step [OF set_tapdevice_persist_adds], rule wp_config_step [OF set_tapdevice_addr_adds(1) [OF n]],
      rule wp_config_step [OF set_tapdevice_addr_adds(2) [OF n]], unfold set_tapdevice_up_def,
      rule wp_config_step [OF set_tapdevice_flags_adds [OF n]])
    fix t1 l1 t2 l2 t3 l3 t4 l4
    assume l: "tap_log t1 = tap_log s @ l1" "succeeded l1" "map fst l1 = [Ioctl fd (Tunsetpersist 1)]" "tapfd t1 = tapfd s"
      "tap_log t2 = tap_log t1 @ l2" "succeeded l2" "on_socket [Siocsifaddr TAPDEVICE_NAME FIXED_TAP_ADDR] True l2" "tapfd t2 = tapfd t1"
      "tap_log t3 = tap_log t2 @ l3" "succeeded l3" "on_socket [Siocsifnetmask TAPDEVICE_NAME FIXED_TAP_NETMASK] True l3" "tapfd t3 = tapfd t2"
      "tap_log t4 = tap_log t3 @ l4" "succeeded l4" "sets_flags t3 TAPDEVICE_NAME (IFF_UP OR IFF_RUNNING) True l4" "tapfd t4 = tapfd t3"
    obtain old where "on_socket [Siocgifflags TAPDEVICE_NAME, Siocsifflags TAPDEVICE_NAME (old OR (IFF_UP OR IFF_RUNNING))] False l4"
      using l(15) by (auto simp: sets_flags_def Let_def)
    from configuredI [OF assms(3) l(3,7,11) this] have "configured fd (tap_log t4)"
      using l assms(1) by simp
    with l assms show "wp (returnM 0) (\<lambda>rc t. rc \<in> {0, -1} \<and> (rc = 0 \<longleftrightarrow> succeeded (tap_log t)) \<and> (rc = 0 \<longrightarrow> configured (tapfd t) (tap_log t))) t4"
      by (simp add: wp_simps)
  qed simp_all
qed

text \<open>The data of \<^verbatim>\<open>tap.c\<close> before \<^verbatim>\<open>main\<close> runs.\<close>

definition tap_boot :: "tap_os \<Rightarrow> tap_store" where
  "tap_boot e = \<lparr>tap_env = e, tap_log = [], tapfd = 0\<rparr>"

lemma tapdevice_init_outcome:
  "wp tapdevice_init (\<lambda>rc t. rc \<in> {0, -1} \<and> (rc = 0 \<longleftrightarrow> succeeded (tap_log t)) \<and> (rc = 0 \<longrightarrow> configured (tapfd t) (tap_log t)))
   (tap_boot e)"
proof -
  let ?s = "tap_boot e"
  have n: "length TAPDEVICE_NAME < 16" by simp
  obtain fd t where run: "tapdevice_alloc (Some TAPDEVICE_NAME) ?s = Inr (fd, t)" and fd: "-1 \<le> fd" "succeeded (tap_log t) \<longleftrightarrow> 0 \<le> fd"
    "0 \<le> fd \<Longrightarrow> map fst (tap_log t) = [Open TUNDEVICE, Ioctl fd (Tunsetiff TAPDEVICE_NAME (IFF_TAP OR IFF_NO_PI))]"
    using tapdevice_alloc_adds [OF n, of ?s] by (auto simp: wp_iff adds_def tap_boot_def)
  show ?thesis
  proof (cases "0 \<le> fd")
    case True
    let ?t = "t\<lparr>tapfd := fd\<rparr>"
    from tapdevice_configures [of ?t "tap_log t" fd] fd True run show ?thesis
      by (simp add: tapdevice_init_def wp_def bindM_apply [of "tapdevice_alloc x" for x] bindM_apply [of "modifyM f" for f] modifyM_apply)
  next
    case False
    with fd run show ?thesis by (simp add: tapdevice_init_def wp_def comp_simps)
  qed
qed

text \<open>An operating system in which every call succeeds.\<close>

definition example_tap :: tap_os where
  "example_tap = \<lparr>call_ret = (\<lambda>l c. if c = Inet_dgram_socket then 5 else if c = Open TUNDEVICE then 3 else 0), if_flags = (\<lambda>l name. 0x1002)\<rparr>"

lemma example_tap_configured: "\<exists>ts. tapdevice_init (tap_boot example_tap) = Inr (0, ts) \<and> tapfd ts = 3"
  by (simp add: tapdevice_init_def tap_boot_def example_tap_def comp_simps tapdevice_alloc_def sys_call_def copy_ifname_def set_tapdevice_persist_def
      set_tapdevice_ipaddr_def set_tapdevice_netmask_def set_tapdevice_up_def set_tapdevice_flags_def Let_def)

section \<open>Properties\<close>



end
