(* ===== verification/Program.thy ===== *)
theory Program
  imports End_To_End Tap
begin

text \<open>
  The running program: the receive loop of \<^verbatim>\<open>main/main.c\<close> and any program that uses the sockets, such as the one of
  \<^verbatim>\<open>test/test.c\<close>. The sources have no locks. The model interleaves whole calls: one round of the receive loop, one system call. A call to
  \<^verbatim>\<open>sys_recvfrom\<close> takes effect when there is a datagram to read. The locale \<open>guarded_refinement\<close> carries a simulation of single calls to all executions; its
  interpretation on the stack rests on the lemmas of \<^verbatim>\<open>Frame_Input\<close> and \<^verbatim>\<open>Socket_Calls\<close>. The test of \<^verbatim>\<open>test/test.c\<close> is an example of such an execution; its threads are in \<^verbatim>\<open>Threads\<close>.
\<close>

unbundle bit_operations_syntax

section \<open>Executions and refinement\<close>

text \<open>
  Computations on a state that stands for an abstract one, with a condition on the abstract state under which a caller may start
  each of them; executions, in which all calls respect their condition, with the results of the calls; and the behaviours of a specification.
\<close>

inductive execution :: "('h \<Rightarrow> 's \<Rightarrow> bool) \<Rightarrow> ('h \<Rightarrow> 'e \<Rightarrow> bool) \<Rightarrow> ('e \<Rightarrow> ('s, 'r) comp) \<Rightarrow> 's \<Rightarrow> ('e \<times> 'r) list \<Rightarrow> 's \<Rightarrow> bool"
  for rep permit exec s0 where
  start: "execution rep permit exec s0 [] s0"
| step: "execution rep permit exec s0 tr s \<Longrightarrow> rep H s \<Longrightarrow> permit H ev \<Longrightarrow> exec ev s = Inr (r, t) \<Longrightarrow> execution rep permit exec s0 (tr @ [(ev, r)]) t"

inductive behaviour :: "('h \<Rightarrow> 'e \<Rightarrow> 'r \<Rightarrow> 'h \<Rightarrow> bool) \<Rightarrow> 'h \<Rightarrow> ('e \<times> 'r) list \<Rightarrow> 'h \<Rightarrow> bool" for spec H0 where
  start: "behaviour spec H0 [] H0"
| step: "behaviour spec H0 tr H \<Longrightarrow> spec H ev r H' \<Longrightarrow> behaviour spec H0 (tr @ [(ev, r)]) H'"

text \<open>The contract of an implementation: a permitted call returns, and does what the specification allows.\<close>

locale guarded_refinement =
  fixes rep :: "'h \<Rightarrow> 's \<Rightarrow> bool" and permit :: "'h \<Rightarrow> 'e \<Rightarrow> bool" and exec :: "'e \<Rightarrow> ('s, 'r) comp" and spec :: "'h \<Rightarrow> 'e \<Rightarrow> 'r \<Rightarrow> 'h \<Rightarrow> bool"
  assumes functional: "rep H s \<Longrightarrow> rep H' s \<Longrightarrow> H' = H"
    and simulates: "rep H s \<Longrightarrow> permit H ev \<Longrightarrow> wp (exec ev) (\<lambda>r t. \<exists>H'. spec H ev r H' \<and> rep H' t) s"
begin

lemma refines:
  assumes "execution rep permit exec s0 tr s" "rep H0 s0"
  shows "\<exists>H. behaviour spec H0 tr H \<and> rep H s"
  using assms
proof (induction rule: execution.induct)
  case start
  then show ?case by (blast intro: behaviour.start)
next
  case (step tr s H ev r t)
  then obtain H' where H': "behaviour spec H0 tr H'" "rep H' s" by blast
  with functional [OF step.hyps(2)] have "H' = H" by blast
  with simulates [OF step.hyps(2,3)] step.hyps(4) obtain H'' where "spec H' ev r H''" "rep H'' t" by (auto simp: wp_def)
  with H'(1) show ?case by (blast intro: behaviour.step)
qed

lemma progress:
  assumes "execution rep permit exec s0 tr s" "rep H s" "permit H ev"
  shows "\<exists>r t. exec ev s = Inr (r, t) \<and> execution rep permit exec s0 (tr @ [(ev, r)]) t"
proof -
  obtain r t where "exec ev s = Inr (r, t)" using simulates [OF assms(2,3)] by (auto simp: wp_iff)
  with assms show ?thesis by (blast intro: execution.step)
qed

end

section \<open>The calls\<close>

text \<open>
  A round of the loop in \<^verbatim>\<open>main\<close>, on the device in \<^verbatim>\<open>dev_base\<close>, which is set when the loop starts: \<^verbatim>\<open>ether_init_module\<close> has registered
  a device. The other events are the system calls of \<^verbatim>\<open>include/syscall.h\<close>.
\<close>

definition main_round :: "u8 list option \<Rightarrow> ('z sock_store_scheme, unit) comp" where
  "main_round input = bindM (getsM dev_base) (\<lambda>p. bindM (nonnull p) (\<lambda>dev. ether_rx dev input))"

definition run_event :: "event \<Rightarrow> ('z sock_store_scheme, int \<times> u8 list) comp" where
  "run_event ev = (case ev of
       Receive input \<Rightarrow> bindM (main_round input) (\<lambda>_. returnM (0, []))
     | Socket family type protocol \<Rightarrow> bindM (sys_socket family type protocol) (\<lambda>rc. returnM (rc, []))
     | Bind fd addr addrlen \<Rightarrow> bindM (sys_bind fd addr addrlen) (\<lambda>rc. returnM (rc, []))
     | Sendto fd buff len addr addrlen \<Rightarrow> bindM (sys_sendto fd buff (of_nat len) (Some addr) addrlen) (\<lambda>rc. returnM (rc, []))
     | Recvfrom fd buff len \<Rightarrow> sys_recvfrom fd buff len)"

text \<open>
  What the callers have to respect: descriptors are in range and not those of raw sockets, the length of a message is at most that of its
  buffer and fits a datagram, and there is a message to read and a buffer that holds it. The condition on the frames is a fault of the program:
  any host can send a frame that violates it.
\<close>

definition usable_fd :: "host \<Rightarrow> int \<Rightarrow> bool" where
  "usable_fd H fd \<longleftrightarrow> fd_fault H fd = None"

definition permitted :: "host \<Rightarrow> event \<Rightarrow> bool" where
  "permitted H ev = (case ev of
       Receive None \<Rightarrow> True
     | Receive (Some f) \<Rightarrow> ld16 f 12 = htons ETH_P_IP \<longrightarrow> \<not> icmp_unhandled (drop 14 (take 1514 f))
     | Socket family type protocol \<Rightarrow> True
     | Bind fd addr addrlen \<Rightarrow> usable_fd H fd
     | Sendto fd buff len addr addrlen \<Rightarrow> usable_fd H fd \<and> len \<le> length buff \<and> len \<le> 65507
     | Recvfrom fd buff len \<Rightarrow> usable_fd H fd \<and> (case descriptor_of H fd of
           Udp_descriptor sk \<Rightarrow> (case inbox H sk of [] \<Rightarrow> False | (src, sport, payload) # ms \<Rightarrow> length payload \<le> length buff)
         | _ \<Rightarrow> True))"

lemma usable_fd_cases:
  assumes "usable_fd H fd" "stack_inv d nd H s"
  obtains "sock_from_fd fd s = Inr (None, s)" "descriptor_of H fd = Closed" | sk where "descriptor_of H fd = Udp_descriptor sk"
  using assms descriptor_closed [OF assms(2), of fd] by (cases "descriptor_of H fd") (auto simp: usable_fd_def fd_fault_def split: if_splits)

lemma main_round_apply: "stack_inv d nd H s \<Longrightarrow> main_round input s = ether_rx d input s"
  by (simp add: main_round_def comp_simps stack_inv_def link_inv_def)

lemma run_event_simulates:
  assumes inv: "stack_inv d nd H s" and ok: "permitted H ev"
  shows "wp (run_event ev) (\<lambda>r t. \<exists>H'. host_step nd H ev r H' \<and> stack_inv d nd H' t) s"
proof (cases ev)
  case (Receive input)
  have "wp (ether_rx d input) (\<lambda>_ t. stack_inv d nd (case input of None \<Rightarrow> H | Some frame \<Rightarrow> deliver (frame_for nd H (take 1514 frame)) H) t) s"
    using ok Receive by (intro ether_rx_stack [OF inv]) (auto simp: permitted_def)
  moreover have "host_step nd H (Receive input) (0, []) (case input of None \<Rightarrow> H | Some frame \<Rightarrow> deliver (frame_for nd H (take 1514 frame)) H)"
    by (auto intro: host_step.receive_nothing host_step.receive_frame split: option.split)
  ultimately show ?thesis using Receive main_round_apply [OF inv] by (auto simp: run_event_def wp_iff comp_simps)
next
  case (Socket family type protocol)
  then show ?thesis using sys_socket_stack [OF inv, of family type protocol] by (auto simp: run_event_def wp_iff comp_simps)
next
  case (Bind fd addr addrlen)
  with ok have "usable_fd H fd" by (simp add: permitted_def)
  then show ?thesis using inv
  proof (cases rule: usable_fd_cases)
    case 1
    then show ?thesis using inv Bind by (auto simp: run_event_def wp_def comp_simps sys_bind_def intro: host_step.bind_closed)
  next
    case (2 sk)
    then show ?thesis using sys_bind_stack [OF inv 2, of addr addrlen] Bind by (auto simp: run_event_def wp_iff comp_simps)
  qed
next
  case (Sendto fd buff len addr addrlen)
  with ok have k: "usable_fd H fd" "len \<le> length buff" "len \<le> 65507" by (simp_all add: permitted_def)
  from k(1) inv show ?thesis
  proof (cases rule: usable_fd_cases)
    case 1
    then show ?thesis using inv Sendto by (auto simp: run_event_def wp_def comp_simps sys_sendto_def intro: host_step.send_closed)
  next
    case (2 sk)
    then show ?thesis using sys_sendto_stack [OF inv 2 k(2,3), of addr addrlen] Sendto by (auto simp: run_event_def wp_iff comp_simps)
  qed
next
  case (Recvfrom fd buff len)
  with ok have k: "usable_fd H fd" by (simp add: permitted_def)
  then show ?thesis using inv
  proof (cases rule: usable_fd_cases)
    case 1
    then show ?thesis using inv Recvfrom by (auto simp: run_event_def wp_def comp_simps sys_recvfrom_def intro: host_step.recv_closed)
  next
    case (2 sk)
    with ok Recvfrom obtain src sport payload ms where m: "inbox H sk = (src, sport, payload) # ms" "length payload \<le> length buff"
      by (auto simp: permitted_def split: list.splits)
    have "host_step nd H (Recvfrom fd buff len) (0, put_bytes buff 0 payload) (H\<lparr>inbox := (inbox H)(sk := ms)\<rparr>)"
      by (rule host_step.recv [OF 2 m(1)])
    then have "wp (sys_recvfrom fd buff len) (\<lambda>r t. \<exists>H'. host_step nd H (Recvfrom fd buff len) r H' \<and> stack_inv d nd H' t) s"
      by (intro wp_mono [OF sys_recvfrom_stack [OF inv 2 m, of len]]) blast
    then show ?thesis using Recvfrom by (simp add: run_event_def)
  qed
qed

text \<open>
  What a system call that is not permitted does: the fault it ends in, or the wait without an end. Sends of more bytes than the buffer
  or a datagram has are left out.
\<close>

definition call_fault :: "host \<Rightarrow> event \<Rightarrow> fault option" where
  "call_fault H ev = (case ev of
       Bind fd addr addrlen \<Rightarrow> fd_fault H fd
     | Sendto fd buff len addr addrlen \<Rightarrow> fd_fault H fd
     | Recvfrom fd buff len \<Rightarrow> (case descriptor_of H fd of
           Udp_descriptor sk \<Rightarrow> (case inbox H sk of
               [] \<Rightarrow> Some Diverges
             | (src, sport, payload) # ms \<Rightarrow> if length payload \<le> length buff then None else Some Out_of_bounds)
         | _ \<Rightarrow> fd_fault H fd)
     | _ \<Rightarrow> None)"

definition sized_call :: "event \<Rightarrow> bool" where
  "sized_call ev = (case ev of Receive _ \<Rightarrow> False | Sendto fd buff len addr addrlen \<Rightarrow> len \<le> length buff \<and> len \<le> 65507 | _ \<Rightarrow> True)"

lemma udp_fd_usable:
  assumes "stack_inv d nd H s" "descriptor_of H fd = Udp_descriptor sk"
  shows "fd_fault H fd = None"
proof -
  have "descriptors H = fd_descriptor s" by (rule stack_inv_view [OF assms(1)])
  with assms(2) show ?thesis by (auto simp: fd_fault_def descriptor_of_def fd_descriptor_def fd_socket_def split: if_splits)
qed

lemma call_fault_permitted:
  assumes "stack_inv d nd H s" "sized_call ev"
  shows "permitted H ev \<longleftrightarrow> call_fault H ev = None"
  using assms(2) udp_fd_usable [OF assms(1)]
  by (auto simp: permitted_def call_fault_def sized_call_def usable_fd_def split: event.splits descriptor.splits list.splits)

lemma call_fault_faults:
  assumes inv: "stack_inv d nd H s" and f: "call_fault H ev = Some f"
  shows "run_event ev s = Inl f"
proof (cases ev)
  case (Recvfrom fd buff len)
  show ?thesis
  proof (cases "descriptor_of H fd")
    case (Udp_descriptor sk)
    with f Recvfrom sys_recvfrom_waits [OF inv Udp_descriptor] sys_recvfrom_overruns [OF inv Udp_descriptor]
    show ?thesis by (auto simp: call_fault_def run_event_def split: list.splits if_splits)
  qed (use f Recvfrom fd_fault_calls(3) [OF inv] in \<open>auto simp: call_fault_def run_event_def\<close>)
qed (use f fd_fault_calls(1,2) [OF inv] in \<open>auto simp: call_fault_def run_event_def comp_simps\<close>)

text \<open>A state stands for one host.\<close>

lemma stack_inv_unique:
  assumes "stack_inv d nd H s" "stack_inv d nd H' s"
  shows "H' = H"
proof -
  have "inbox H' sk = inbox H sk" for sk
  proof (cases "socks s sk")
    case None
    then show ?thesis using stack_inv_view(4) assms by metis
  next
    case (Some x)
    then have "sock_ok s sk (inbox H sk)" "sock_ok s sk (inbox H' sk)" using stack_inv_view(5) [OF assms(1)] stack_inv_view(5) [OF assms(2)] by simp_all
    then obtain xs ys where "queue_rep s (Receive_queue sk) xs" "inbox H sk = map (\<lambda>i. message_of (the (skbs s i))) xs"
      "queue_rep s (Receive_queue sk) ys" "inbox H' sk = map (\<lambda>i. message_of (the (skbs s i))) ys" by (auto simp: sock_ok_def)
    with queue_rep_unique show ?thesis by metis
  qed
  with assms show ?thesis by (intro host.equality) (auto simp: stack_inv_def upper_inv_def host_view_def)
qed

interpretation yustack: guarded_refinement "stack_inv d nd" permitted run_event "host_step nd" for d nd
  by unfold_locales (rule stack_inv_unique, assumption+, rule run_event_simulates)

text \<open>The history of what arrives and what is taken, along a behaviour of the host.\<close>

lemma behaviour_host_run:
  assumes "behaviour (host_step nd) H0 tr H"
  shows "\<exists>arrived taken. host_run nd H0 tr arrived taken H"
  using assms by induction (blast intro: host_run.start host_run.step)+

section \<open>From the start\<close>

text \<open>What the program needs from \<^verbatim>\<open>malloc\<close>: memory, and pointer members that read as null before they are set.\<close>

definition good_env :: "os_env \<Rightarrow> bool" where
  "good_env e \<longleftrightarrow> (\<forall>k. malloc_ok e k) \<and> (\<forall>k. malloc_ptr e k = None)"

lemma good_example_env: "good_env example_env"
  by (simp add: good_env_def example_env_def)

lemma main_init_ready:
  assumes "good_env e"
  shows "wp main_init (\<lambda>rc t. rc = 0 \<and> stack_inv 4 eth0 boot_host t \<and> fib_rep t boot_local boot_main \<and> tap_out t = [] \<and> neigh_find t = (\<lambda>_. None)) (boot_state e)"
proof -
  from assms have e: "\<forall>k. malloc_ok e k" "\<forall>k. malloc_ptr e k = None" by (simp_all add: good_env_def)
  show ?thesis
  proof (rule wp_mono [OF main_init_routes [OF e(1)]], elim conjE)
    fix rc t assume rc: "rc = 0" and t: "fib_frame (net_state e) t" "fib_rep t boot_local boot_main"
    from t(1) obtain k l m where "t = (net_state e)\<lparr>brk := k, ip_fib_local_table := l, ip_fib_main_table := m\<rparr>" by (auto simp: fib_frame_def)
    then have "tap_out t = []" "buckets (ntables t Arp_tbl) = []"
      by (simp_all add: net_state_def socket_state_def boot_state_def Let_def arp_tbl_def)
    then show "rc = 0 \<and> stack_inv 4 eth0 boot_host t \<and> fib_rep t boot_local boot_main \<and> tap_out t = [] \<and> neigh_find t = (\<lambda>_. None)"
      using rc t(2) boot_stack_inv [OF e t] by (simp add: neigh_find_def fun_eq_iff)
  qed
qed

text \<open>
  \<^verbatim>\<open>main\<close> up to its receive loop: the tap device, which has a state of its own, the protocols, and the network device. The result -1 is that of a \<^verbatim>\<open>main\<close> that
  returns before the loop.
\<close>

definition main_start :: "tap_os \<Rightarrow> os_env \<Rightarrow> fault + int \<times> tap_store \<times> sock_store" where
  "main_start k e = (case tapdevice_init (tap_boot k) of
       Inl f \<Rightarrow> Inl f
     | Inr (rc, ts) \<Rightarrow>
         if rc \<noteq> 0 then Inr (-1, ts, boot_state e)
         else (case main_init (boot_state e) of Inl f \<Rightarrow> Inl f | Inr (rc, s) \<Rightarrow> Inr (rc, ts, s)))"

section \<open>The test thread\<close>

text \<open>
  \<^verbatim>\<open>test_udp\<close> of \<^verbatim>\<open>test/test.c\<close>, in two parts: opening and binding the socket, and receiving one datagram. The receive buffer is an
  uninitialised array of 1024 bytes.
\<close>

abbreviation (input) "UDP_BIND_PORT \<equiv> (222 :: u16)"
abbreviation (input) "UDP_BIND_ADDRESS \<equiv> (0x0a000002 :: u32)"
abbreviation (input) "MAX_BUFF_SIZE \<equiv> 1024"

definition bindaddr :: sockaddr_in where
  "bindaddr = \<lparr>sin_family = 2, sin_port = htons UDP_BIND_PORT, sin_addr = htonl UDP_BIND_ADDRESS\<rparr>"

definition test_udp_open :: "('z sock_store_scheme, int) comp" where
  "test_udp_open = bindM (sys_socket PF_INET SOCK_DGRAM IPPROTO_UDP) (\<lambda>fd.
     if fd < 0 then returnM (-1)
     else bindM (sys_bind fd bindaddr 8) (\<lambda>err. if err \<noteq> 0 then returnM (-1) else returnM fd))"

definition test_udp_recv :: "int \<Rightarrow> u8 list \<Rightarrow> ('z sock_store_scheme, int \<times> u8 list) comp" where
  "test_udp_recv fd recvbuff = bindM (sys_recv fd recvbuff MAX_BUFF_SIZE) (\<lambda>(err, recvbuff).
     if err \<noteq> 0 then returnM (-1, recvbuff) else returnM (0, recvbuff))"

definition test_udp :: "u8 list \<Rightarrow> ('z sock_store_scheme, int \<times> u8 list) comp" where
  "test_udp recvbuff = bindM test_udp_open (\<lambda>fd. if fd < 0 then returnM (-1, recvbuff) else test_udp_recv fd recvbuff)"

lemma test_socket_opens:
  assumes inv: "stack_inv d nd H s" and free: "descriptors H 0 = Closed"
  shows "wp (sys_socket PF_INET SOCK_DGRAM IPPROTO_UDP) (\<lambda>fd t. fd = 0 \<and> (\<exists>sk. inbox H sk = [] \<and>
    stack_inv d nd (H\<lparr>descriptors := (descriptors H)(0 := Udp_descriptor sk)\<rparr>) t)) s"
proof (rule wp_mono [OF sys_socket_stack [OF inv]], elim exE conjE)
  fix fd t H1 assume st: "host_step nd H (Socket PF_INET SOCK_DGRAM IPPROTO_UDP) (fd, []) H1" and t: "stack_inv d nd H1 t"
  have lf: "k = 0" if "least_free (\<lambda>k. descriptors H k \<noteq> Closed) k" for k using that free by (auto simp: least_free_def)
  from st obtain sk where "fd = 0" "inbox H sk = []" "H1 = H\<lparr>descriptors := (descriptors H)(0 := Udp_descriptor sk)\<rparr>"
    by (rule socket_stepE) (use lf free in \<open>auto simp: valid_socket_def no_free_def\<close>)
  with t show "fd = 0 \<and> (\<exists>sk. inbox H sk = [] \<and> stack_inv d nd (H\<lparr>descriptors := (descriptors H)(0 := Udp_descriptor sk)\<rparr>) t)" by blast
qed

lemma test_binds:
  assumes inv: "stack_inv d nd H s" and fd: "descriptor_of H fd = Udp_descriptor sk" and free: "ports H 222 = None"
  shows "wp (sys_bind fd bindaddr 8) (\<lambda>err t. err = 0 \<and> stack_inv d nd (H\<lparr>ports := (ports H)(222 \<mapsto> sk)\<rparr>) t) s"
proof (rule wp_mono [OF sys_bind_stack [OF inv fd]], elim exE conjE)
  have p: "ntohs (sin_port bindaddr) = 222" "sin_port bindaddr \<noteq> 0" by (simp add: bindaddr_def) (simp add: bindaddr_def htons_def)
  fix err t H' assume b: "host_step nd H (Bind fd bindaddr 8) (err, []) H'" and t: "stack_inv d nd H' t"
  from b have "err = 0 \<and> H' = H\<lparr>ports := (ports H)(222 \<mapsto> sk)\<rparr>" by (rule bind_stepE) (use fd p free in auto)
  with t show "err = 0 \<and> stack_inv d nd (H\<lparr>ports := (ports H)(222 \<mapsto> sk)\<rparr>) t" by simp
qed

lemma test_udp_opens:
  assumes inv: "stack_inv d nd H s" and free: "descriptors H 0 = Closed" "ports H 222 = None"
  shows "wp test_udp_open (\<lambda>fd t. fd = 0 \<and> (\<exists>sk. inbox H sk = [] \<and>
    stack_inv d nd (H\<lparr>descriptors := (descriptors H)(0 := Udp_descriptor sk), ports := (ports H)(222 \<mapsto> sk)\<rparr>) t)) s"
  unfolding test_udp_open_def
proof (rule wp_bindM_I [OF test_socket_opens [OF inv free(1)]], elim exE conjE)
  fix fd :: int and t sk assume fd: "fd = 0" "inbox H sk = []" and t: "stack_inv d nd (H\<lparr>descriptors := (descriptors H)(0 := Udp_descriptor sk)\<rparr>) t"
  have "wp (sys_bind fd bindaddr 8) (\<lambda>err u. err = 0 \<and>
      stack_inv d nd (H\<lparr>descriptors := (descriptors H)(0 := Udp_descriptor sk), ports := (ports H)(222 \<mapsto> sk)\<rparr>) u) t"
    using test_binds [OF t, of fd sk] fd free(2) by (simp add: descriptor_of_def)
  then show "wp (if fd < 0 then returnM (-1) else bindM (sys_bind fd bindaddr 8) (\<lambda>err. if err \<noteq> 0 then returnM (-1) else returnM fd))
      (\<lambda>fd t. fd = 0 \<and> (\<exists>sk. inbox H sk = [] \<and>
        stack_inv d nd (H\<lparr>descriptors := (descriptors H)(0 := Udp_descriptor sk), ports := (ports H)(222 \<mapsto> sk)\<rparr>) t)) t"
    using fd by (auto simp: wp_iff comp_simps)
qed

text \<open>The program up to the point where the thread waits.\<close>

definition test_start :: "('z sock_store_scheme, int) comp" where
  "test_start = bindM main_init (\<lambda>_. test_udp_open)"

definition test_host :: "nat \<Rightarrow> host" where
  "test_host sk = boot_host\<lparr>descriptors := (\<lambda>_. Closed)(0 := Udp_descriptor sk), ports := [222 \<mapsto> sk]\<rparr>"

lemma test_host_simps [simp]: "descriptor_of (test_host sk) 0 = Udp_descriptor sk" "ports (test_host sk) = [222 \<mapsto> sk]" "inbox (test_host sk) k = []"
  by (simp_all add: test_host_def boot_host_def descriptor_of_def)

lemma test_start_ready:
  assumes "good_env e"
  shows "wp test_start (\<lambda>fd t. fd = 0 \<and> (\<exists>sk. stack_inv 4 eth0 (test_host sk) t)) (boot_state e)"
  unfolding test_start_def
proof (rule wp_bindM_I [OF main_init_ready [OF assms]], elim conjE)
  fix s :: sock_store assume s: "stack_inv 4 eth0 boot_host s"
  show "wp test_udp_open (\<lambda>fd t. fd = 0 \<and> (\<exists>sk. stack_inv 4 eth0 (test_host sk) t)) s"
    by (rule wp_mono [OF test_udp_opens [OF s]]) (auto simp: test_host_def boot_host_def)
qed

lemma eth0_unicast: "unicast_dev eth0"
  by (simp add: unicast_dev_def eth0_def ether_setup_def zero_dev_def is_multicast_ether_addr_def put_bytes_def)

text \<open>A datagram for the thread, from the address \<open>src\<close> behind the hardware address \<open>sa\<close>.\<close>

definition test_datagram :: "u8 list \<Rightarrow> u32 \<Rightarrow> u16 \<Rightarrow> u8 list \<Rightarrow> u8 list" where
  "test_datagram sa src sport payload = host_datagram eth0 sa IPPROTO_UDP src (udp_segment src FIXED_IP_ADDR sport (htons UDP_BIND_PORT) payload) []"

lemma test_delivered:
  assumes e: "good_env e" and d: "length sa = 6" "length payload \<le> 1472"
  shows "wp (bindM test_start (\<lambda>fd. bindM (ether_rx 4 (Some (test_datagram sa src sport payload))) (\<lambda>_. returnM fd)))
    (\<lambda>fd t. fd = 0 \<and> (\<exists>sk. stack_inv 4 eth0 ((test_host sk)\<lparr>inbox := (inbox (test_host sk))(sk := [(src, sport, payload)])\<rparr>) t)) (boot_state e)"
proof (rule wp_bindM_I [OF test_start_ready [OF e]], elim conjE exE)
  fix fd sk and s :: sock_store assume fd: "fd = 0" and s: "stack_inv 4 eth0 (test_host sk) s"
  have "wp (ether_rx 4 (Some (test_datagram sa src sport payload)))
      (\<lambda>_ t. stack_inv 4 eth0 ((test_host sk)\<lparr>inbox := (inbox (test_host sk))(sk := [(src, sport, payload)])\<rparr>) t) s"
    using frame_to_socket [OF s eth0_unicast d(1), of 222 sk payload "[]" src sport] d(2) by (simp add: test_datagram_def)
  then show "wp (bindM (ether_rx 4 (Some (test_datagram sa src sport payload))) (\<lambda>_. returnM fd))
    (\<lambda>fd t. fd = 0 \<and> (\<exists>sk. stack_inv 4 eth0 ((test_host sk)\<lparr>inbox := (inbox (test_host sk))(sk := [(src, sport, payload)])\<rparr>) t)) s"
    using fd by (auto simp: wp_iff comp_simps)
qed

lemma test_udp_recv_first:
  assumes "stack_inv d nd H s" "descriptor_of H fd = Udp_descriptor sk" "inbox H sk = (src, sport, payload) # ms"
  shows "length payload \<le> length recvbuff \<Longrightarrow>
      wp (test_udp_recv fd recvbuff) (\<lambda>(rc, buf) t. rc = 0 \<and> buf = put_bytes recvbuff 0 payload \<and> stack_inv d nd (H\<lparr>inbox := (inbox H)(sk := ms)\<rparr>) t) s"
    "length recvbuff < length payload \<Longrightarrow> test_udp_recv fd recvbuff s = Inl Out_of_bounds"
proof -
  assume "length payload \<le> length recvbuff"
  from sys_recvfrom_stack [OF assms this, of MAX_BUFF_SIZE]
  show "wp (test_udp_recv fd recvbuff) (\<lambda>(rc, buf) t. rc = 0 \<and> buf = put_bytes recvbuff 0 payload \<and> stack_inv d nd (H\<lparr>inbox := (inbox H)(sk := ms)\<rparr>) t) s"
    by (auto simp: wp_iff test_udp_recv_def sys_recv_def comp_simps)
next
  assume "length recvbuff < length payload"
  from sys_recvfrom_overruns [OF assms this, of MAX_BUFF_SIZE] show "test_udp_recv fd recvbuff s = Inl Out_of_bounds"
    by (simp add: test_udp_recv_def sys_recv_def comp_simps)
qed

text \<open>
  After the start the thread opens and binds its socket; when then a datagram for port 222 with at most 1024 bytes of payload arrives, the thread
  receives exactly that payload at the start of its buffer.
\<close>

lemma test_udp_receives:
  assumes "good_env e" "length sa = 6" "length payload \<le> 1024" "length recvbuff = 1024"
  shows "wp (bindM test_start (\<lambda>fd. bindM (ether_rx 4 (Some (test_datagram sa src sport payload))) (\<lambda>_. test_udp_recv fd recvbuff)))
    (\<lambda>(rc, buf) t. rc = 0 \<and> buf = put_bytes recvbuff 0 payload) (boot_state e)"
proof -
  have l: "length payload \<le> 1472" "length payload \<le> length recvbuff" using assms(3,4) by simp_all
  obtain s t sk where run: "test_start (boot_state e) = Inr (0, s)" "ether_rx 4 (Some (test_datagram sa src sport payload)) s = Inr ((), t)"
      and t: "stack_inv 4 eth0 ((test_host sk)\<lparr>inbox := (inbox (test_host sk))(sk := [(src, sport, payload)])\<rparr>) t" (is "stack_inv _ _ ?H _")
    using test_delivered [OF assms(1,2) l(1), of src sport] by (auto simp: wp_iff comp_simps split: sum.splits)
  have "descriptor_of ?H 0 = Udp_descriptor sk" by (simp add: test_host_def descriptor_of_def)
  from test_udp_recv_first(1) [OF t this _ l(2)] run show ?thesis by (auto simp: wp_iff comp_simps)
qed

end
