(* ===== verification/Threads.thy ===== *)
theory Threads
  imports Program "HOL-Library.Sublist"
begin

text \<open>
  The process of \<^verbatim>\<open>main/main.c\<close> and \<^verbatim>\<open>test/test.c\<close> with its threads: \<^verbatim>\<open>main\<close>, which receives frames for ever, the thread \<^verbatim>\<open>test\<close> that it
  creates, and the thread \<^verbatim>\<open>test_udp\<close> that \<^verbatim>\<open>test\<close> creates, which opens a socket, binds it, waits for a datagram and ends. A schedule says which thread has
  the next turn; a turn runs to the end of one round of the receive loop, one system call, or one poll of an empty queue. The threads share the stack. The
  specification \<open>progress\<close> counts what the test has done and the messages it has not read.
\<close>

section \<open>The process\<close>

datatype main_thread = Looping | Exited int
datatype test_thread = Not_created | Created | Returned int
datatype udp_thread = Absent | Starting | Opened int | Bound int | Done int

text \<open>\<open>pthread_ret k\<close> is the result of the \<open>k\<close>-th \<^verbatim>\<open>pthread_create\<close>; \<open>thread_buff\<close> is the local array of \<^verbatim>\<open>test_udp\<close>.\<close>

record process =
  pthread_ret :: "nat \<Rightarrow> int"
  main_pc :: main_thread
  test_pc :: test_thread
  udp_pc :: udp_thread
  thread_buff :: "u8 list"
  stack :: sock_store

text \<open>\<^verbatim>\<open>main\<close> up to its loop. The end of \<^verbatim>\<open>main\<close> is the end of the process.\<close>

definition process_start :: "tap_os \<Rightarrow> os_env \<Rightarrow> (nat \<Rightarrow> int) \<Rightarrow> u8 list \<Rightarrow> fault + process" where
  "process_start k e ret junk = (case main_start k e of
       Inl f \<Rightarrow> Inl f
     | Inr (rc, ts, s) \<Rightarrow>
         let p = \<lparr>pthread_ret = ret, main_pc = Exited (-1), test_pc = Not_created, udp_pc = Absent, thread_buff = junk, stack = s\<rparr> in
         if rc \<noteq> 0 then Inr p
         else if ret 0 \<noteq> 0 then Inr p
         else Inr (p\<lparr>main_pc := Looping, test_pc := Created\<rparr>))"

definition on_stack :: "(sock_store, 'a) comp \<Rightarrow> process \<Rightarrow> ('a \<Rightarrow> process \<Rightarrow> process) \<Rightarrow> fault + process" where
  "on_stack m p f = (case m (stack p) of Inl e \<Rightarrow> Inl e | Inr (r, s) \<Rightarrow> Inr (f r (p\<lparr>stack := s\<rparr>)))"

definition test_turn :: "process \<Rightarrow> process" where
  "test_turn p = (case test_pc p of
       Created \<Rightarrow> if pthread_ret p 1 \<noteq> 0 then p\<lparr>test_pc := Returned (-1)\<rparr> else p\<lparr>test_pc := Returned 0, udp_pc := Starting\<rparr>
     | _ \<Rightarrow> p)"

text \<open>
  \<^verbatim>\<open>test_udp\<close>, cut at its system calls. \<^verbatim>\<open>sys_recv\<close> on an empty queue polls the queue: alone it would not end, but other threads run between two
  polls, which change nothing.
\<close>

definition udp_turn :: "process \<Rightarrow> fault + process" where
  "udp_turn p = (case udp_pc p of
       Starting \<Rightarrow> on_stack (sys_socket PF_INET SOCK_DGRAM IPPROTO_UDP) p
         (\<lambda>fd p. if fd < 0 then p\<lparr>udp_pc := Done (-1)\<rparr> else p\<lparr>udp_pc := Opened fd\<rparr>)
     | Opened fd \<Rightarrow> on_stack (sys_bind fd bindaddr 8) p
         (\<lambda>err p. if err \<noteq> 0 then p\<lparr>udp_pc := Done (-1)\<rparr> else p\<lparr>udp_pc := Bound fd\<rparr>)
     | Bound fd \<Rightarrow> if sys_recv fd (thread_buff p) MAX_BUFF_SIZE (stack p) = Inl Diverges then Inr p
         else on_stack (sys_recv fd (thread_buff p) MAX_BUFF_SIZE) p
           (\<lambda>(err, buf) p. p\<lparr>thread_buff := buf, udp_pc := Done (if err \<noteq> 0 then -1 else 0)\<rparr>)
     | _ \<Rightarrow> Inr p)"

datatype turn = Main_turn "u8 list option" | Test_turn | Udp_turn

definition take_turn :: "turn \<Rightarrow> process \<Rightarrow> fault + process" where
  "take_turn t p = (if main_pc p \<noteq> Looping then Inr p else (case t of
       Main_turn input \<Rightarrow> on_stack (main_round input) p (\<lambda>_ p. p)
     | Test_turn \<Rightarrow> Inr (test_turn p)
     | Udp_turn \<Rightarrow> udp_turn p))"

fun run :: "turn list \<Rightarrow> process \<Rightarrow> fault + process" where
  "run [] p = Inr p"
| "run (t # ts) p = (case take_turn t p of Inl f \<Rightarrow> Inl f | Inr q \<Rightarrow> run ts q)"

lemma run_append: "run (ts @ us) p = (case run ts p of Inl f \<Rightarrow> Inl f | Inr q \<Rightarrow> run us q)"
  by (induction ts p rule: run.induct) (simp_all split: sum.split)

text \<open>With no other thread in between, the turns of \<^verbatim>\<open>test_udp\<close> are the whole function.\<close>

lemma on_stack_wp:
  assumes "wp m Q (stack p)"
  obtains r s where "m (stack p) = Inr (r, s)" "\<And>f. on_stack m p f = Inr (f r (p\<lparr>stack := s\<rparr>))" "Q r s"
  using assms by (auto simp: wp_iff on_stack_def)

lemma udp_turns_test_udp:
  assumes "main_pc p = Looping" "udp_pc p = Starting" "test_udp (thread_buff p) (stack p) = Inr ((rc, buf), s)"
  shows "\<exists>q. run [Udp_turn, Udp_turn, Udp_turn] p = Inr q \<and> udp_pc q = Done rc \<and> thread_buff q = buf \<and> stack q = s"
proof -
  have step: "take_turn Udp_turn q = udp_turn q" if "main_pc q = Looping" for q using that by (simp add: take_turn_def)
  show ?thesis
    using assms by (auto simp: test_udp_def test_udp_open_def test_udp_recv_def bindM_eq_Inr_iff returnM_apply udp_turn_def on_stack_def step split: if_splits)
qed

section \<open>The specification\<close>

text \<open>The messages of a frame for the port of the test.\<close>

definition datagrams :: "u8 list \<Rightarrow> message list" where
  "datagrams f = (case frame_for eth0 (test_host 0) (take 1514 f) of None \<Rightarrow> [] | Some (_, m) \<Rightarrow> [m])"

datatype progress = Unstarted | Thread_created | Socket_open | Waiting "message list" | Finished message "message list"

fun advance :: "turn \<Rightarrow> progress \<Rightarrow> progress" where
  "advance Test_turn Unstarted = Thread_created"
| "advance Udp_turn Thread_created = Socket_open"
| "advance Udp_turn Socket_open = Waiting []"
| "advance Udp_turn (Waiting (m # ms)) = Finished m ms"
| "advance (Main_turn (Some f)) (Waiting ms) = Waiting (ms @ datagrams f)"
| "advance (Main_turn (Some f)) (Finished m ms) = Finished m (ms @ datagrams f)"
| "advance _ pr = pr"

text \<open>Frames that the process survives: no ICMP message without a handler, and no datagram for the test that is longer than its buffer.\<close>

definition safe_turn :: "turn \<Rightarrow> bool" where
  "safe_turn t = (case t of
       Main_turn (Some f) \<Rightarrow> permitted boot_host (Receive (Some f)) \<and> list_all (\<lambda>(src, sport, payload). length payload \<le> MAX_BUFF_SIZE) (datagrams f)
     | _ \<Rightarrow> True)"

definition waiting_host :: "nat \<Rightarrow> message list \<Rightarrow> host" where
  "waiting_host sk ms = (test_host sk)\<lparr>inbox := (\<lambda>_. [])(sk := ms)\<rparr>"

definition open_host :: "nat \<Rightarrow> host" where
  "open_host sk = boot_host\<lparr>descriptors := (\<lambda>_. Closed)(0 := Udp_descriptor sk)\<rparr>"

definition progress_rep :: "u8 list \<Rightarrow> progress \<Rightarrow> process \<Rightarrow> bool" where
  "progress_rep junk pr p \<longleftrightarrow> main_pc p = Looping \<and> pthread_ret p 1 = 0 \<and> (case pr of
       Unstarted \<Rightarrow> test_pc p = Created \<and> udp_pc p = Absent \<and> thread_buff p = junk \<and> stack_inv 4 eth0 boot_host (stack p)
     | Thread_created \<Rightarrow> test_pc p = Returned 0 \<and> udp_pc p = Starting \<and> thread_buff p = junk \<and> stack_inv 4 eth0 boot_host (stack p)
     | Socket_open \<Rightarrow> test_pc p = Returned 0 \<and> udp_pc p = Opened 0 \<and> thread_buff p = junk \<and> (\<exists>sk. stack_inv 4 eth0 (open_host sk) (stack p))
     | Waiting ms \<Rightarrow> test_pc p = Returned 0 \<and> udp_pc p = Bound 0 \<and> thread_buff p = junk \<and> (\<exists>sk. stack_inv 4 eth0 (waiting_host sk ms) (stack p)) \<and>
         (\<forall>(src, sport, payload) \<in> set ms. length payload \<le> length junk)
     | Finished (src, sport, payload) ms \<Rightarrow> test_pc p = Returned 0 \<and> udp_pc p = Done 0 \<and> thread_buff p = put_bytes junk 0 payload \<and>
         (\<exists>sk. stack_inv 4 eth0 (waiting_host sk ms) (stack p)))"


section \<open>The process implements the specification\<close>

lemma main_turn_simulates:
  assumes inv: "stack_inv 4 eth0 H (stack p)" and p: "main_pc p = Looping" and ok: "safe_turn (Main_turn input)"
  obtains s where "take_turn (Main_turn input) p = Inr (p\<lparr>stack := s\<rparr>)"
    "stack_inv 4 eth0 (case input of None \<Rightarrow> H | Some f \<Rightarrow> deliver (frame_for eth0 H (take 1514 f)) H) s"
proof -
  have "wp (ether_rx 4 input) (\<lambda>_ t. stack_inv 4 eth0 (case input of None \<Rightarrow> H | Some f \<Rightarrow> deliver (frame_for eth0 H (take 1514 f)) H) t) (stack p)"
    using ok by (intro ether_rx_stack [OF inv]) (auto simp: safe_turn_def permitted_def)
  then show ?thesis using that p main_round_apply [OF inv] by (auto simp: take_turn_def on_stack_def wp_iff)
qed

lemma frame_for_closed: "ports H = (\<lambda>_. None) \<Longrightarrow> frame_for nd H f = None"
  by (simp add: frame_for_def segment_for_def Let_def)

lemma frame_for_waiting: "deliver (frame_for eth0 (waiting_host sk ms) (take 1514 f)) (waiting_host sk ms) = waiting_host sk (ms @ datagrams f)"
proof -
  have "segment_for (waiting_host sk ms) w = map_option (\<lambda>(_, m). (sk, m)) (segment_for (test_host 0) w)" for w
    by (simp add: segment_for_def waiting_host_def test_host_def boot_host_def Let_def)
  then have "frame_for eth0 (waiting_host sk ms) g = map_option (\<lambda>(_, m). (sk, m)) (frame_for eth0 (test_host 0) g)" for g
    by (simp add: frame_for_def)
  then show ?thesis by (auto simp: deliver_def datagrams_def waiting_host_def split: option.split)
qed

lemma boot_host_simps [simp]: "ports boot_host = (\<lambda>_. None)" "ports (open_host sk) = (\<lambda>_. None)" "descriptors boot_host = (\<lambda>_. Closed)"
  by (simp_all add: boot_host_def open_host_def)

lemma main_turn_progress:
  assumes rep: "progress_rep junk pr p" and ok: "safe_turn (Main_turn input)" and junk: "length junk = MAX_BUFF_SIZE"
  shows "\<exists>q. take_turn (Main_turn input) p = Inr q \<and> progress_rep junk (advance (Main_turn input) pr) q"
proof -
  have p: "main_pc p = Looping" using rep by (simp add: progress_rep_def)
  have fits: "\<forall>(src, sport, payload) \<in> set (datagrams f). length payload \<le> length junk" if "input = Some f" for f
    using ok junk that by (auto simp: safe_turn_def list_all_iff)
  have quiet: "\<exists>s. take_turn (Main_turn input) p = Inr (p\<lparr>stack := s\<rparr>) \<and> stack_inv 4 eth0 H s"
    if "stack_inv 4 eth0 H (stack p)" "ports H = (\<lambda>_. None)" for H
    by (rule main_turn_simulates [OF that(1) p ok]) (use frame_for_closed [OF that(2)] in \<open>auto simp: deliver_def split: option.splits\<close>)
  have arrive: "\<exists>s. take_turn (Main_turn input) p = Inr (p\<lparr>stack := s\<rparr>) \<and>
      stack_inv 4 eth0 (waiting_host sk (case input of None \<Rightarrow> ms | Some f \<Rightarrow> ms @ datagrams f)) s"
    if "stack_inv 4 eth0 (waiting_host sk ms) (stack p)" for sk ms
    by (rule main_turn_simulates [OF that p ok], cases input) (simp add: frame_for_waiting; blast)+
  show ?thesis
  proof (cases pr)
    case (Socket_open)
    with rep obtain sk where "stack_inv 4 eth0 (open_host sk) (stack p)" by (auto simp: progress_rep_def)
    from quiet [OF this] rep Socket_open show ?thesis by (auto simp: progress_rep_def)
  next
    case (Waiting ms)
    with rep obtain sk where "stack_inv 4 eth0 (waiting_host sk ms) (stack p)" by (auto simp: progress_rep_def)
    from arrive [OF this] rep Waiting fits show ?thesis by (cases input) (auto simp: progress_rep_def)
  next
    case (Finished m ms)
    with rep obtain sk where "stack_inv 4 eth0 (waiting_host sk ms) (stack p)" by (auto simp: progress_rep_def)
    from arrive [OF this] rep Finished show ?thesis by (cases input; cases m) (auto simp: progress_rep_def)
  qed (use quiet [of boot_host] rep in \<open>auto simp: progress_rep_def\<close>)
qed

lemma udp_turn_progress:
  assumes rep: "progress_rep junk pr p"
  shows "\<exists>q. take_turn Udp_turn p = Inr q \<and> progress_rep junk (advance Udp_turn pr) q"
proof -
  have turn: "take_turn Udp_turn p = udp_turn p" using rep by (simp add: progress_rep_def take_turn_def)
  show ?thesis
  proof (cases pr)
    case Thread_created
    with rep have inv: "stack_inv 4 eth0 boot_host (stack p)" by (simp add: progress_rep_def)
    show ?thesis
      by (rule on_stack_wp [OF test_socket_opens [OF inv]])
        (use Thread_created rep turn in \<open>auto simp: progress_rep_def udp_turn_def open_host_def\<close>)
  next
    case Socket_open
    with rep obtain sk where inv: "stack_inv 4 eth0 (open_host sk) (stack p)" by (auto simp: progress_rep_def)
    have "descriptor_of (open_host sk) 0 = Udp_descriptor sk" by (simp add: open_host_def descriptor_of_def)
    moreover have "(open_host sk)\<lparr>ports := [222 \<mapsto> sk]\<rparr> = waiting_host sk []"
      by (simp add: open_host_def waiting_host_def test_host_def boot_host_def fun_upd_idem)
    ultimately have "wp (sys_bind 0 bindaddr 8) (\<lambda>err t. err = 0 \<and> stack_inv 4 eth0 (waiting_host sk []) t) (stack p)"
      using test_binds [OF inv, of 0 sk] by simp
    then show ?thesis
      by (rule on_stack_wp) (use Socket_open rep turn in \<open>auto simp: progress_rep_def udp_turn_def\<close>)
  next
    case (Waiting ms)
    with rep obtain sk where inv: "stack_inv 4 eth0 (waiting_host sk ms) (stack p)" and p: "udp_pc p = Bound 0" "thread_buff p = junk"
      by (auto simp: progress_rep_def)
    have fd: "descriptor_of (waiting_host sk ms) 0 = Udp_descriptor sk" "inbox (waiting_host sk ms) sk = ms" "\<And>k. inbox (waiting_host sk k) sk = k"
      by (simp_all add: waiting_host_def)
    show ?thesis
    proof (cases ms)
      case Nil
      then have "sys_recv 0 junk MAX_BUFF_SIZE (stack p) = Inl Diverges"
        using sys_recvfrom_waits [OF inv fd(1)] fd(2) by (simp add: sys_recv_def)
      with Nil Waiting rep turn p show ?thesis by (simp add: udp_turn_def)
    next
      case (Cons m ms')
      obtain src sport payload where m: "m = (src, sport, payload)" by (cases m)
      with Cons Waiting rep have "length payload \<le> length junk" by (auto simp: progress_rep_def)
      from sys_recvfrom_stack [OF inv fd(1) _ this, of src sport ms' MAX_BUFF_SIZE] fd(2) Cons m
      have r: "wp (sys_recv 0 (thread_buff p) MAX_BUFF_SIZE) (\<lambda>(rc, buf) t. rc = 0 \<and> buf = put_bytes junk 0 payload \<and> stack_inv 4 eth0 (waiting_host sk ms') t) (stack p)"
        using p by (simp add: sys_recv_def waiting_host_def)
      show ?thesis
        by (rule on_stack_wp [OF r]) (use Waiting Cons m rep turn p in \<open>auto simp: progress_rep_def udp_turn_def\<close>)
    qed
  qed (use rep turn in \<open>auto simp: progress_rep_def udp_turn_def\<close>)
qed

lemma turn_progress:
  assumes "progress_rep junk pr p" "safe_turn t" "length junk = MAX_BUFF_SIZE"
  shows "\<exists>q. take_turn t p = Inr q \<and> progress_rep junk (advance t pr) q"
proof (cases t)
  case Test_turn
  then show ?thesis using assms(1)
    by (cases pr) (auto simp: progress_rep_def take_turn_def test_turn_def split: prod.splits)
qed (use main_turn_progress [OF assms(1)] udp_turn_progress [OF assms(1)] assms(2,3) in simp_all)

lemma run_progress:
  assumes "progress_rep junk pr p" "list_all safe_turn ts" "length junk = MAX_BUFF_SIZE"
  shows "\<exists>q. run ts p = Inr q \<and> progress_rep junk (fold advance ts pr) q"
  using assms
proof (induction ts arbitrary: p pr)
  case (Cons t ts)
  then obtain q where "take_turn t p = Inr q" "progress_rep junk (advance t pr) q" using turn_progress [of junk pr p t] by auto
  with Cons show ?case by simp
qed simp

text \<open>From the start. Without memory pressure the process starts, and \<^verbatim>\<open>main\<close> reaches its loop when the tap device and the first thread could be created.\<close>

lemma process_start_progress:
  assumes e: "good_env e" and start: "process_start k e ret junk = Inr p" "main_pc p = Looping" and ret: "ret 1 = 0"
  shows "progress_rep junk Unstarted p"
proof -
  from start obtain ts s where "main_start k e = Inr (0, ts, s)"
    and p: "p = \<lparr>pthread_ret = ret, main_pc = Looping, test_pc = Created, udp_pc = Absent, thread_buff = junk, stack = s\<rparr>"
    by (auto simp: process_start_def Let_def split: sum.splits if_splits)
  then have "main_init (boot_state e) = Inr (0, s)" by (auto simp: main_start_def split: sum.splits if_splits)
  with main_init_ready [OF e] have "stack_inv 4 eth0 boot_host s" by (simp add: wp_def)
  with p ret show ?thesis by (simp add: progress_rep_def)
qed

lemma process_starts:
  assumes "good_env e" "tapdevice_init (tap_boot k) = Inr (0, ts)" "ret 0 = 0"
  obtains p where "process_start k e ret junk = Inr p" "main_pc p = Looping"
  using main_init_ready [OF assms(1)] assms(2,3) by (auto simp: process_start_def main_start_def wp_iff Let_def)

section \<open>The test ends\<close>

fun rank :: "progress \<Rightarrow> nat" where
  "rank Unstarted = 0"
| "rank Thread_created = 1"
| "rank Socket_open = 2"
| "rank (Waiting ms) = (if ms = [] then 3 else 4)"
| "rank (Finished m ms) = 5"

lemma rank_advance: "rank pr \<le> rank (advance t pr)"
  by (cases "(t, pr)" rule: advance.cases) auto

lemma rank_fold: "rank pr \<le> rank (fold advance ts pr)"
  by (induction ts arbitrary: pr) (auto intro: order_trans [OF rank_advance])

lemma rank_udp_turn: "1 \<le> rank pr \<Longrightarrow> rank pr \<noteq> 3 \<Longrightarrow> min 5 (rank pr + 1) \<le> rank (advance Udp_turn pr)"
  by (cases "(Udp_turn, pr)" rule: advance.cases) auto

lemma rank_datagram: "3 \<le> rank pr \<Longrightarrow> datagrams f \<noteq> [] \<Longrightarrow> 4 \<le> rank (advance (Main_turn (Some f)) pr)"
  by (cases "(Main_turn (Some f), pr)" rule: advance.cases) auto

lemma rank_next:
  assumes "subseq (t # xs) ts" and "\<And>pr'. rank pr \<le> rank pr' \<Longrightarrow> m \<le> rank (advance t pr')"
  obtains us where "subseq xs us" "\<exists>pr'. m \<le> rank pr' \<and> fold advance ts pr = fold advance us pr'"
proof -
  from list_emb_ConsD [OF assms(1)] obtain vs us where "ts = vs @ t # us" "subseq xs us" by auto
  moreover from this have "fold advance ts pr = fold advance us (advance t (fold advance vs pr))" by simp
  ultimately show ?thesis using that assms(2) [OF rank_fold] by blast
qed

lemma rank_waiting:
  assumes "subseq [Test_turn, Udp_turn, Udp_turn] ts"
  shows "3 \<le> rank (fold advance ts Unstarted)"
proof -
  have t: "1 \<le> rank (advance Test_turn pr)" for pr by (cases "(Test_turn, pr)" rule: advance.cases) auto
  have u: "2 \<le> rank (advance Udp_turn pr)" if "1 \<le> rank pr" for pr using that by (cases "(Udp_turn, pr)" rule: advance.cases) auto
  have v: "3 \<le> rank (advance Udp_turn pr)" if "2 \<le> rank pr" for pr using that by (cases "(Udp_turn, pr)" rule: advance.cases) auto
  from assms obtain us pr where 1: "subseq [Udp_turn, Udp_turn] us" "1 \<le> rank pr" "fold advance ts Unstarted = fold advance us pr"
    by (rule rank_next [where m = 1]) (use t in auto)
  from 1(1) obtain vs pr' where 2: "subseq [Udp_turn] vs" "2 \<le> rank pr'" "fold advance us pr = fold advance vs pr'"
    by (rule rank_next [where m = 2 and pr = pr]) (use u 1(2) in \<open>auto intro: order_trans\<close>)
  from 2(1) obtain ws pr'' where "3 \<le> rank pr''" "fold advance vs pr' = fold advance ws pr''"
    by (rule rank_next [where m = 3 and pr = pr']) (use v 2(2) in \<open>auto intro: order_trans\<close>)
  with 1(3) 2(3) rank_fold [of pr'' ws] show ?thesis by simp
qed

lemma rank_finished:
  assumes "subseq [Test_turn, Udp_turn, Udp_turn] pre" "datagrams f \<noteq> []" "Udp_turn \<in> set post"
  shows "\<exists>m ms. fold advance (pre @ Main_turn (Some f) # post) Unstarted = Finished m ms"
proof -
  from assms(3) obtain us vs where post: "post = us @ Udp_turn # vs" by (auto simp: in_set_conv_decomp)
  let ?pr = "fold advance us (advance (Main_turn (Some f)) (fold advance pre Unstarted))"
  have "4 \<le> rank (advance (Main_turn (Some f)) (fold advance pre Unstarted))"
    by (rule rank_datagram [OF rank_waiting [OF assms(1)] assms(2)])
  then have "4 \<le> rank ?pr" using rank_fold order_trans by blast
  then have "5 \<le> rank (advance Udp_turn ?pr)" using rank_udp_turn [of ?pr] by simp
  then have "5 \<le> rank (fold advance (pre @ Main_turn (Some f) # post) Unstarted)" using rank_fold [of "advance Udp_turn ?pr" vs] post by simp
  then show ?thesis by (cases "fold advance (pre @ Main_turn (Some f) # post) Unstarted") (auto split: if_splits)
qed

section \<open>A datagram for the test\<close>

lemma test_datagram_messages:
  assumes sa: "length sa = 6" and len: "length payload \<le> MAX_BUFF_SIZE"
  shows "datagrams (test_datagram sa src sport payload) = [(src, sport, payload)]" "safe_turn (Main_turn (Some (test_datagram sa src sport payload)))"
proof -
  define f where "f = host_datagram eth0 sa IPPROTO_UDP src (udp_segment src FIXED_IP_ADDR sport (htons (of_nat 222 :: u16)) payload) []"
  have "eth_dev eth0" by (simp add: eth0_def eth_dev_def ether_setup_def zero_dev_def)
  then have ff: "take 1514 f = f" "drop 14 f ! 9 = IPPROTO_UDP" "frame_for eth0 (test_host 0) f = Some (0, src, sport, payload)"
    using host_datagram_for [of eth0 sa "test_host 0" 222 0 payload "[]" f src sport] eth0_unicast sa len
    by (simp_all add: f_def test_host_def boot_host_def)
  have f: "test_datagram sa src sport payload = f" by (simp add: test_datagram_def f_def)
  show d: "datagrams (test_datagram sa src sport payload) = [(src, sport, payload)]" using ff by (simp add: f datagrams_def)
  have "\<not> icmp_unhandled (drop 14 f)" using ff(2) by (simp add: icmp_unhandled_def)
  then show "safe_turn (Main_turn (Some (test_datagram sa src sport payload)))"
    using d len ff(1) by (simp add: safe_turn_def permitted_def f)
qed

end
