(* ===== verification/Store_Typing.thy ===== *)
theory Store_Typing
  imports Program
begin

text \<open>
  The types of the store. The sources have pointers of many types, casts between structures that begin alike, and lists with links inside their elements.
  Conformance says that every pointer that the program can reach from its global variables refers to an object of the type it is used with, and that the buffers belong
  to one list each. The invariant of the stack implies it.
\<close>

section \<open>Conformance\<close>

text \<open>A list of buffers with a property; the heads of the lists that the program uses.\<close>

definition queue_conf :: "'z skb_store_scheme \<Rightarrow> node \<Rightarrow> (sk_buff \<Rightarrow> bool) \<Rightarrow> bool" where
  "queue_conf s q P \<longleftrightarrow> (\<exists>xs. queue_rep s q xs \<and> (\<forall>i \<in> set xs. \<exists>b. skbs s i = Some b \<and> wf_skb b \<and> P b))"

text \<open>A routing entry that a buffer in the queue of neighbour \<open>n\<close> refers to, and the neighbour with its device.\<close>

definition route_conf :: "'z neigh_store_scheme \<Rightarrow> nat \<Rightarrow> sk_buff \<Rightarrow> bool" where
  "route_conf s n b \<longleftrightarrow> (\<exists>r rt d. skb_dst b = Some r \<and> rtables s r = Some rt \<and> dst_neighbour rt = Some n \<and> skb_dev b = Some d \<and> devs s d \<noteq> None)"

definition neigh_conf :: "'z neigh_store_scheme \<Rightarrow> nat \<Rightarrow> bool" where
  "neigh_conf s n \<longleftrightarrow> (\<exists>x d. neighs s n = Some x \<and> neigh_dev x = Some d \<and> devs s d \<noteq> None \<and> neigh_output x \<noteq> None \<and> neigh_ops_ptr x \<noteq> None \<and>
     length (primary_key x) = 4 \<and> length (neigh_ha x) = MAX_ADDR_LEN) \<and> queue_conf s (Arp_queue n) (route_conf s n)"

text \<open>A sock with its two lists; a received datagram has a UDP header, and the IP header before it is still in the block.\<close>

definition sock_conf :: "'z sock_store_scheme \<Rightarrow> nat \<Rightarrow> bool" where
  "sock_conf s sk \<longleftrightarrow> socks s sk \<noteq> None \<and> queue_conf s (Write_queue sk) (\<lambda>_. True) \<and>
     queue_conf s (Receive_queue sk) (\<lambda>b. 8 \<le> unat (skb_len b) \<and> (\<exists>nh. nh_raw b = Some nh \<and> in_block b nh 20))"

text \<open>A socket with operations is one that the cast of its sock to \<^verbatim>\<open>struct udp_sock\<close> is valid for.\<close>

definition socket_conf :: "'z sock_store_scheme \<Rightarrow> nat \<Rightarrow> bool" where
  "socket_conf s so \<longleftrightarrow> (\<exists>z sk x. sockets s so = Some z \<and> socket_sk z = Some sk \<and> socks s sk = Some x \<and>
     (sock_ops z \<noteq> None \<longrightarrow> obj_size (proto_at (sk_prot x)) = Sizeof_udp_sock))"

definition store_conf :: "'z sock_store_scheme \<Rightarrow> bool" where
  "store_conf s \<longleftrightarrow>
     (\<exists>d. dev_base s = Some d \<and> devs s d \<noteq> None) \<and>
     (\<forall>n \<in> set (buckets (ntables s Arp_tbl)). neigh_conf s n) \<and>
     (\<forall>sk. socks s sk \<noteq> None \<longrightarrow> sock_conf s sk) \<and>
     (\<forall>fd < 512. map_used (socket_maps s fd) \<longrightarrow> (\<exists>so. map_sk (socket_maps s fd) = Some so \<and> socket_conf s so)) \<and>
     (\<forall>p < 512. map_used (udptable s p) \<longrightarrow> (\<exists>sk. map_sk (udptable s p) = Some sk \<and> sock_conf s sk)) \<and>
     (\<exists>so z sk. icmp_socket s = Some so \<and> sockets s so = Some z \<and> socket_sk z = Some sk \<and> sock_conf s sk) \<and>
     (\<exists>lcl mn. fib_rep s lcl mn \<and> (\<forall>dst l fa. fib_route lcl mn dst = Some (l, fa) \<longrightarrow>
        (\<exists>fi d. fa_info fa = Some fi \<and> nh_dev (fib_nh0 fi) = Some d \<and> devs s d \<noteq> None))) \<and>
     (\<forall>q q' xs ys. queue_rep s q xs \<and> queue_rep s q' ys \<and> q \<noteq> q' \<longrightarrow> set xs \<inter> set ys = {})"

section \<open>The invariant implies conformance\<close>

lemma neigh_ok_conf:
  assumes "neigh_ok s n d nd"
  shows "neigh_conf s n"
proof -
  from assms obtain x xs bs where x: "neighs s n = Some x" "arp_neigh x" "neigh_dev x = Some d" "devs s d = Some nd"
     "queue_rep s (Arp_queue n) xs" "\<forall>i \<in> set xs. out_ready s i (bs i) n x d nd" unfolding neigh_ok_iff by blast
  have "queue_conf s (Arp_queue n) (route_conf s n)"
    unfolding queue_conf_def route_conf_def using x(5,6) by (auto simp: out_ready_def)
  with x(1-4) show ?thesis by (auto simp: neigh_conf_def arp_neigh_def)
qed

lemma sock_ok_conf:
  assumes "sock_ok s sk ms" "socks s sk \<noteq> None"
  shows "sock_conf s sk"
proof -
  from assms(1) obtain xs where "queue_rep s (Write_queue sk) []" "queue_rep s (Receive_queue sk) xs"
    "\<forall>i \<in> set xs. \<exists>b. skbs s i = Some b \<and> datagram_ok b" by (auto simp: sock_ok_def)
  then have "queue_conf s (Write_queue sk) (\<lambda>_. True)"
    "queue_conf s (Receive_queue sk) (\<lambda>b. 8 \<le> unat (skb_len b) \<and> (\<exists>nh. nh_raw b = Some nh \<and> in_block b nh 20))"
    unfolding queue_conf_def by (force simp: datagram_ok_def transport_skb_def)+
  with assms(2) show ?thesis by (simp add: sock_conf_def)
qed

lemma socket_ok_conf: "socket_ok s so \<Longrightarrow> socket_conf s so"
  by (auto simp: socket_ok_def socket_conf_def sock_kind_def udp_prot_def)

lemma stack_inv_conf:
  assumes inv: "stack_inv d nd H s"
  shows "store_conf s"
  unfolding store_conf_def
proof (intro conjI)
  note s = inv [unfolded stack_inv_def link_inv_def upper_inv_def]
  show "\<exists>d. dev_base s = Some d \<and> devs s d \<noteq> None" using s by auto
  show "\<forall>n \<in> set (buckets (ntables s Arp_tbl)). neigh_conf s n" using s neigh_ok_conf by blast
  show socks: "\<forall>sk. socks s sk \<noteq> None \<longrightarrow> sock_conf s sk" using stack_inv_view(5) [OF inv] sock_ok_conf by blast
  show "\<forall>fd < 512. map_used (socket_maps s fd) \<longrightarrow> (\<exists>so. map_sk (socket_maps s fd) = Some so \<and> socket_conf s so)"
    using s socket_ok_conf unfolding tables_ok_def by blast
  show "\<forall>p < 512. map_used (udptable s p) \<longrightarrow> (\<exists>sk. map_sk (udptable s p) = Some sk \<and> sock_conf s sk)"
  proof (intro allI impI)
    fix p :: nat assume p: "p < 512" "map_used (udptable s p)"
    then obtain sk where sk: "map_sk (udptable s p) = Some sk" using s unfolding tables_ok_def by blast
    with p have "port_owner s p = Some sk" by (simp add: port_owner_def)
    with s socks sk show "\<exists>sk. map_sk (udptable s p) = Some sk \<and> sock_conf s sk" by blast
  qed
  show "\<exists>so z sk. icmp_socket s = Some so \<and> sockets s so = Some z \<and> socket_sk z = Some sk \<and> sock_conf s sk"
  proof -
    have "icmp_ok s" using s by blast
    then show ?thesis using socks unfolding icmp_ok_def by fastforce
  qed
  show "\<exists>lcl mn. fib_rep s lcl mn \<and> (\<forall>dst l fa. fib_route lcl mn dst = Some (l, fa) \<longrightarrow>
      (\<exists>fi d. fa_info fa = Some fi \<and> nh_dev (fib_nh0 fi) = Some d \<and> devs s d \<noteq> None))"
  proof -
    have "routes_ok d s" "devs s d \<noteq> None" using s by simp_all
    then show ?thesis unfolding routes_ok_def by metis
  qed
  show "\<forall>q q' xs ys. queue_rep s q xs \<and> queue_rep s q' ys \<and> q \<noteq> q' \<longrightarrow> set xs \<inter> set ys = {}"
    using queue_rep_disjoint by blast
qed

end
