(* ===== verification/Headers.thy ===== *)
theory Headers
  imports Stack_Invariant
begin

text \<open>
  The structures that the sources cast packet memory to: \<^verbatim>\<open>struct ethhdr\<close>, \<^verbatim>\<open>struct arphdr\<close>, \<^verbatim>\<open>struct iphdr\<close>, \<^verbatim>\<open>struct icmphdr\<close> and
  \<^verbatim>\<open>struct udphdr\<close>, with their layout on a little-endian machine. The operations of the stack read and write the members at their offsets; here the
  offsets are tied to the declarations. The locale \<open>wire_struct\<close> is what a layout has to satisfy; the lemmas after its interpretations say, in terms of the structures,
  what the stack sends and what it accepts.
\<close>

unbundle bit_operations_syntax

section \<open>Structures and their layout\<close>

record ethhdr =
  h_dest :: "u8 list"
  h_source :: "u8 list"
  h_proto :: u16

definition ethhdr_bytes :: "ethhdr \<Rightarrow> u8 list" where
  "ethhdr_bytes h = h_dest h @ h_source h @ bytes16 (h_proto h)"

definition ethhdr_at :: "u8 list \<Rightarrow> ethhdr" where
  "ethhdr_at w = \<lparr>h_dest = take 6 w, h_source = take 6 (drop 6 w), h_proto = ld16 w 12\<rparr>"

record arphdr =
  ar_hrd :: u16
  ar_pro :: u16
  ar_hln :: u8
  ar_pln :: u8
  ar_op :: u16

definition arphdr_bytes :: "arphdr \<Rightarrow> u8 list" where
  "arphdr_bytes h = bytes16 (ar_hrd h) @ bytes16 (ar_pro h) @ [ar_hln h, ar_pln h] @ bytes16 (ar_op h)"

definition arphdr_at :: "u8 list \<Rightarrow> arphdr" where
  "arphdr_at w = \<lparr>ar_hrd = ld16 w 0, ar_pro = ld16 w 2, ar_hln = w ! 4, ar_pln = w ! 5, ar_op = ld16 w 6\<rparr>"

text \<open>The two bit fields of the first byte of an IP header have four bits each, the low ones first.\<close>

record iphdr =
  iph_ihl :: u8
  iph_version :: u8
  iph_tos :: u8
  iph_tot_len :: u16
  iph_id :: u16
  iph_frag_off :: u16
  iph_ttl :: u8
  iph_protocol :: u8
  iph_check :: u16
  iph_saddr :: u32
  iph_daddr :: u32

definition iphdr_bytes :: "iphdr \<Rightarrow> u8 list" where
  "iphdr_bytes h = [iph_ihl h OR push_bit 4 (iph_version h), iph_tos h] @ bytes16 (iph_tot_len h) @ bytes16 (iph_id h) @
     bytes16 (iph_frag_off h) @ [iph_ttl h, iph_protocol h] @ bytes16 (iph_check h) @ bytes32 (iph_saddr h) @ bytes32 (iph_daddr h)"

definition iphdr_at :: "u8 list \<Rightarrow> iphdr" where
  "iphdr_at w = \<lparr>iph_ihl = w ! 0 AND 0x0f, iph_version = drop_bit 4 (w ! 0), iph_tos = w ! 1, iph_tot_len = ld16 w 2, iph_id = ld16 w 4,
     iph_frag_off = ld16 w 6, iph_ttl = w ! 8, iph_protocol = w ! 9, iph_check = ld16 w 10, iph_saddr = ld32 w 12, iph_daddr = ld32 w 16\<rparr>"

text \<open>The union \<^verbatim>\<open>un\<close> of an ICMP header is its four bytes; \<^verbatim>\<open>echo.id\<close> and \<^verbatim>\<open>echo.sequence\<close> are its halves.\<close>

record icmphdr =
  ich_type :: u8
  ich_code :: u8
  ich_checksum :: u16
  un_gateway :: u32

definition un_echo_id :: "icmphdr \<Rightarrow> u16" where
  "un_echo_id h = ucast (un_gateway h)"

definition un_echo_sequence :: "icmphdr \<Rightarrow> u16" where
  "un_echo_sequence h = ucast (drop_bit 16 (un_gateway h))"

definition icmphdr_bytes :: "icmphdr \<Rightarrow> u8 list" where
  "icmphdr_bytes h = [ich_type h, ich_code h] @ bytes16 (ich_checksum h) @ bytes32 (un_gateway h)"

definition icmphdr_at :: "u8 list \<Rightarrow> icmphdr" where
  "icmphdr_at w = \<lparr>ich_type = w ! 0, ich_code = w ! 1, ich_checksum = ld16 w 2, un_gateway = ld32 w 4\<rparr>"

record udphdr =
  uh_source :: u16
  uh_dest :: u16
  uh_len :: u16
  uh_check :: u16

definition udphdr_bytes :: "udphdr \<Rightarrow> u8 list" where
  "udphdr_bytes h = bytes16 (uh_source h) @ bytes16 (uh_dest h) @ bytes16 (uh_len h) @ bytes16 (uh_check h)"

definition udphdr_at :: "u8 list \<Rightarrow> udphdr" where
  "udphdr_at w = \<lparr>uh_source = ld16 w 0, uh_dest = ld16 w 2, uh_len = ld16 w 4, uh_check = ld16 w 6\<rparr>"

section \<open>The contract of a layout\<close>

text \<open>The bytes of a structure have its size, reading them back gives the structure, and writing back what was read gives the bytes.\<close>

locale wire_struct =
  fixes size :: nat and valid :: "'h \<Rightarrow> bool" and encode :: "'h \<Rightarrow> u8 list" and decode :: "u8 list \<Rightarrow> 'h"
  assumes length_encode: "valid h \<Longrightarrow> length (encode h) = size"
    and decode_encode: "valid h \<Longrightarrow> decode (encode h @ w) = h"
    and valid_decode: "size \<le> length w \<Longrightarrow> valid (decode w)"
    and encode_decode: "size \<le> length w \<Longrightarrow> encode (decode w) = take size w"
begin

lemma decode_iff: "valid h \<Longrightarrow> size \<le> length w \<Longrightarrow> decode w = h \<longleftrightarrow> take size w = encode h"
  by (metis append_take_drop_id decode_encode encode_decode)

lemma encode_inj: "valid h \<Longrightarrow> valid h' \<Longrightarrow> encode h = encode h' \<longleftrightarrow> h = h'"
  by (metis decode_encode)

lemma decode_take: "size \<le> length w \<Longrightarrow> decode (take size w) = decode w"
  by (metis append_Nil2 decode_encode encode_decode valid_decode)

lemma decode_put: "valid h \<Longrightarrow> decode (put_bytes w 0 (encode h)) = h"
  by (simp add: put_bytes_def decode_encode)

end

text \<open>A list of known length is the list of its elements.\<close>

lemma bytes16_ld16: "bytes16 (ld16 w n) = [w ! n, w ! (n + 1)]"
  by (simp add: ld16_def)

lemma bytes32_ld32: "bytes32 (ld32 w n) = [w ! n, w ! (n + 1), w ! (n + 2), w ! (n + 3)]"
  by (simp add: ld32_def)

lemma take_bytes: "take 0 w = []" "n < length w \<Longrightarrow> take (Suc n) w = take n w @ [w ! n]"
  by (simp_all add: take_Suc_conv_app_nth)

lemma nibbles: "(b AND 0x0f) OR push_bit 4 (drop_bit 4 b) = b" for b :: u8
proof (rule bit_word_eqI)
  fix n assume "n < LENGTH(8)"
  then have "n \<in> {0, 1, 2, 3, 4, 5, 6, 7}" by auto
  then show "bit ((b AND 0x0f) OR push_bit 4 (drop_bit 4 b)) n = bit b n" by (auto simp: bit_simps)
qed

lemma nibble_low: "i < 16 \<Longrightarrow> (i OR push_bit 4 v) AND 0x0f = i" for i v :: u8
proof -
  assume "i < 16"
  then have i: "take_bit 4 i = i" by (simp add: take_bit_eq_mod mod_word_less)
  have m: "(0x0f :: u8) = mask 4" by (simp add: mask_eq_exp_minus_1)
  have "take_bit 4 (i OR push_bit 4 v) = i"
    by (simp add: take_bit_or i take_bit_push_bit)
  then show ?thesis by (simp add: m take_bit_eq_mask)
qed

lemma nibble_high: "i < 16 \<Longrightarrow> v < 16 \<Longrightarrow> drop_bit 4 i OR drop_bit 4 (push_bit 4 v) = v" for i v :: u8
proof -
  assume "i < 16" "v < 16"
  then have "drop_bit 4 i = 0" "take_bit 4 v = v" by (simp_all add: take_bit_eq_mod drop_bit_eq_div mod_word_less div_word_less)
  moreover have "drop_bit 4 (push_bit 4 v) = take_bit 4 v"
    by (rule bit_word_eqI) (auto simp: bit_simps)
  ultimately show ?thesis by simp
qed

definition ethhdr_ok :: "ethhdr \<Rightarrow> bool" where
  "ethhdr_ok h \<longleftrightarrow> length (h_dest h) = 6 \<and> length (h_source h) = 6"

definition iphdr_ok :: "iphdr \<Rightarrow> bool" where
  "iphdr_ok h \<longleftrightarrow> iph_ihl h < 16 \<and> iph_version h < 16"

lemma take_nth: "n \<le> length w \<Longrightarrow> take n w = map (nth w) [0..<n]"
  by (simp add: list_eq_iff_nth_eq)

lemma take_eight: "8 \<le> length w \<Longrightarrow> take 8 w = [w ! 0, w ! 1, w ! 2, w ! 3, w ! 4, w ! 5, w ! 6, w ! 7]"
  by (subst take_nth) (simp_all add: upt_rec numeral_eq_Suc)

lemma take_twenty:
  "20 \<le> length w \<Longrightarrow> take 20 w = [w ! 0, w ! 1, w ! 2, w ! 3, w ! 4, w ! 5, w ! 6, w ! 7, w ! 8, w ! 9, w ! 10, w ! 11, w ! 12, w ! 13, w ! 14,
     w ! 15, w ! 16, w ! 17, w ! 18, w ! 19]"
  by (subst take_nth) (simp_all add: upt_rec numeral_eq_Suc)

lemma take_fourteen:
  assumes "14 \<le> length w"
  shows "take 14 w = take 6 w @ take 6 (drop 6 w) @ [w ! 12, w ! 13]"
proof -
  have "take 14 w = take 12 w @ [w ! 12, w ! 13]" using assms take_Suc_conv_app_nth [of 13 w] take_Suc_conv_app_nth [of 12 w] by simp
  moreover have "take 12 w = take 6 w @ take 6 (drop 6 w)" using take_add [of 6 6 w] by simp
  ultimately show ?thesis by simp
qed

lemmas take_wire = take_eight take_twenty take_fourteen

interpretation eth: wire_struct 14 ethhdr_ok ethhdr_bytes ethhdr_at
  by unfold_locales (auto simp: ethhdr_ok_def ethhdr_bytes_def ethhdr_at_def ld16_def nth_append take_wire bytes16_def)

interpretation arph: wire_struct 8 "\<lambda>_. True" arphdr_bytes arphdr_at
  by unfold_locales (auto simp: arphdr_bytes_def arphdr_at_def ld16_def take_wire bytes16_ld16 bytes16_def)

lemma nibble_bound: "b AND 0x0f < 16" "drop_bit 4 b < 16" for b :: u8
proof -
  have "b AND 0x0f \<le> (0x0f :: u8)" by (rule word_and_le1)
  then show "b AND 0x0f < 16" by (simp add: order_le_less_trans)
  have "unat (drop_bit 4 b) = unat b div 16" by (simp add: drop_bit_eq_div unat_div)
  then show "drop_bit 4 b < 16" using unsigned_less [of b, where ?'a = nat] by (simp add: word_less_nat_alt)
qed

interpretation iph: wire_struct 20 iphdr_ok iphdr_bytes iphdr_at
  by unfold_locales (auto simp: iphdr_ok_def iphdr_bytes_def iphdr_at_def ld16_def ld32_def take_wire bytes16_def bytes32_def
    nibbles nibble_low nibble_high nibble_bound)

interpretation icmph: wire_struct 8 "\<lambda>_. True" icmphdr_bytes icmphdr_at
  by unfold_locales (auto simp: icmphdr_bytes_def icmphdr_at_def ld16_def ld32_def take_wire bytes16_def bytes32_def)

interpretation uh: wire_struct 8 "\<lambda>_. True" udphdr_bytes udphdr_at
  by unfold_locales (auto simp: udphdr_bytes_def udphdr_at_def ld16_def take_wire bytes16_def)

section \<open>What the stack sends and accepts\<close>

text \<open>The headers that the output functions build.\<close>

lemma eth_frame_header:
  assumes "length dst = 6" "length src = 6"
  shows "eth_frame dst src type payload = ethhdr_bytes \<lparr>h_dest = dst, h_source = src, h_proto = htons type\<rparr> @ payload"
  by (simp add: eth_frame_def ethhdr_bytes_def)

lemma arp_packet_header:
  "arp_packet op sha sip tha tip = arphdr_bytes \<lparr>ar_hrd = htons ARPHRD_ETHER, ar_pro = htons ETH_P_IP, ar_hln = 6, ar_pln = 4, ar_op = htons op\<rparr> @
     sha @ bytes32 sip @ tha @ bytes32 tip"
  by (simp add: arp_packet_def arphdr_bytes_def)

definition own_iphdr :: "u16 \<Rightarrow> u8 \<Rightarrow> u32 \<Rightarrow> u32 \<Rightarrow> u16 \<Rightarrow> iphdr" where
  "own_iphdr tot_len protocol saddr daddr check = \<lparr>iph_ihl = 5, iph_version = 4, iph_tos = 0, iph_tot_len = htons tot_len, iph_id = 0,
     iph_frag_off = htons (0x4000 :: u16), iph_ttl = 64, iph_protocol = protocol, iph_check = check, iph_saddr = saddr, iph_daddr = daddr\<rparr>"

lemma own_iphdr_ok: "iphdr_ok (own_iphdr n p s d c)"
  by (simp add: iphdr_ok_def own_iphdr_def)

lemma ip_header_struct: "ip_header n p s d = iphdr_bytes (own_iphdr n p s d 0)"
  by (simp add: ip_header_def iphdr_bytes_def own_iphdr_def)

lemma iphdr_check: "put_bytes (iphdr_bytes h) 10 (bytes16 c) = iphdr_bytes (h\<lparr>iph_check := c\<rparr>)"
  by (simp add: put_bytes_def iphdr_bytes_def bytes16_def bytes32_def)

lemma ip_datagram_struct:
  "ip_datagram p s d payload = (let n = of_nat (20 + length payload) in
     iphdr_bytes (own_iphdr n p s d (checksum (iphdr_bytes (own_iphdr n p s d 0)))) @ payload)"
  by (simp add: ip_datagram_def Let_def ip_header_struct iphdr_check) (simp add: own_iphdr_def)

lemma udp_header_struct: "udp_header sport dport len = udphdr_bytes \<lparr>uh_source = sport, uh_dest = dport, uh_len = htons len, uh_check = 0\<rparr>"
  by (simp add: udp_header_def udphdr_bytes_def)

lemma udp_segment_struct:
  "udp_segment src dst sport dport payload = (let n = of_nat (8 + length payload) :: u16; h = \<lparr>uh_source = sport, uh_dest = dport, uh_len = htons n, uh_check = 0\<rparr> in
     udphdr_bytes (h\<lparr>uh_check := checksum (pseudo_header src dst IPPROTO_UDP (htons n) @ udphdr_bytes h @ payload)\<rparr>) @ payload)"
  by (simp add: udp_segment_def Let_def udp_header_struct) (simp add: put_bytes_def udphdr_bytes_def bytes16_def)

text \<open>A reply to an echo request has the code, the identifier and the sequence number of the request.\<close>

lemma echo_reply_struct:
  assumes "8 \<le> length msg"
  shows "\<exists>c. icmphdr_at (echo_bytes (reply_header msg) (drop 8 msg)) = (icmphdr_at msg)\<lparr>ich_type := ICMP_ECHOREPLY, ich_checksum := c\<rparr>"
    "drop 8 (echo_bytes (reply_header msg) (drop 8 msg)) = drop 8 msg"
proof -
  have m: "take 8 msg = [msg ! 0, msg ! 1, msg ! 2, msg ! 3, msg ! 4, msg ! 5, msg ! 6, msg ! 7]" using assms by (rule take_eight)
  show "drop 8 (echo_bytes (reply_header msg) (drop 8 msg)) = drop 8 msg"
    unfolding echo_bytes_def reply_header_def m by (simp add: put_bytes_def bytes16_def Let_def)
  show "\<exists>c. icmphdr_at (echo_bytes (reply_header msg) (drop 8 msg)) = (icmphdr_at msg)\<lparr>ich_type := ICMP_ECHOREPLY, ich_checksum := c\<rparr>"
    unfolding echo_bytes_def reply_header_def m by (simp add: put_bytes_def bytes16_def Let_def icmphdr_at_def ld16_def ld32_def)
qed

text \<open>The checksum of the reply does not cover its last eight bytes, so a receiver that verifies the whole message rejects it.\<close>

lemma echo_reply_unverified: "checksum (echo_bytes (reply_header [8, 0, 0, 0, 1, 2, 3, 4, 5, 6]) [5, 6]) \<noteq> 0"
  by code_simp

text \<open>The checks of \<^verbatim>\<open>ip_rcv\<close> in terms of the structure.\<close>

lemma ip_ok_struct:
  "ip_ok w \<longleftrightarrow> 20 \<le> length w \<and> (let h = iphdr_at w; hlen = 4 * unat (iph_ihl h); len = unat (ntohs (iph_tot_len h)) in
     iph_version h = 4 \<and> 5 \<le> unat (iph_ihl h) \<and> checksum (take hlen w) = 0 \<and> hlen \<le> len \<and> len \<le> length w)"
  by (auto simp: ip_ok_def ihl_bytes_def iphdr_at_def Let_def)

lemma iphdr_of_datagram:
  "iphdr_at (ip_datagram p s d payload @ pad) = (let n = of_nat (20 + length payload) in
     own_iphdr n p s d (checksum (iphdr_bytes (own_iphdr n p s d 0))))"
  unfolding ip_datagram_struct Let_def append_assoc by (rule iph.decode_encode [OF own_iphdr_ok])





end
