(* ===== verification/Spec2Isabelle.thy ===== *)
theory Spec2Isabelle
  imports Threads Store_Typing Headers
begin

text \<open>
  A verification library for \<^emph>\<open>yustack\<close>, a user-space TCP/IP stack in C. It models the whole stack, from the tap device and the frames on it to the system
  calls, as computations on an explicit state, and proves what each part promises to the parts above it, up to a refinement of the whole program
  into an abstract host.

  \<^bold>\<open>The program.\<close> \<^verbatim>\<open>main\<close> creates a tap device, initialises the internet family and the Ethernet driver, starts a test thread, and then
  calls \<^verbatim>\<open>ether_rx\<close> forever. A round reads one frame, puts it in a socket buffer (\<^verbatim>\<open>struct sk_buff\<close>) and hands it to the handler registered for
  its type: \<^verbatim>\<open>arp_rcv\<close>, which updates the neighbour cache and answers requests, or \<^verbatim>\<open>ip_rcv\<close>, which validates the datagram, finds an input route in the
  forwarding tables and delivers to \<^verbatim>\<open>icmp_rcv\<close> or \<^verbatim>\<open>udp_rcv\<close>. UDP puts the buffer on the receive queue of the sock bound to its port, from
  which \<^verbatim>\<open>sys_recvfrom\<close> takes it. In the other direction \<^verbatim>\<open>sys_sendto\<close> and echo replies build a datagram on the write queue of a sock, find an
  output route, and hand the buffer to the neighbour of the next hop, which sends it or keeps it until the address is resolved.

  \<^bold>\<open>State and computations.\<close> A function of the sources is a function into \<^typ>\<open>('s, 'a) comp\<close>, that is, from a state to a fault or a result and a new
  state. Error codes are results. A fault is undefined behaviour that the C statement would reach: a null, freed or wild pointer, an access outside its
  block, an uninitialised read, a shift by the width; \<open>Diverges\<close> is a loop that never ends. Every dereference, index and shift of the sources is a checked
  operation of the model. The state grows with the layers as extensible records: \<open>skb_store\<close>, \<open>dev_store\<close>, \<open>rt_store\<close>, \<open>neigh_store\<close>, \<open>fib_store\<close>,
  \<open>sock_store\<close>, and, beside them, \<open>tap_store\<close>. A C structure is a record, objects are maps from addresses, linked lists of buffers are maps of their links,
  function pointers are datatypes with one constructor for each function that the sources assign, and
  the static tables of them (\<open>udp_prot\<close>, \<open>raw_prot\<close>, \<open>inet_dgram_ops\<close>, \<open>inet_family_ops\<close>) are values in which a member that is left out is null. Buffers are byte lists; headers are read and written at their offsets in
  little-endian order, so that the byte-order macros have the effect that they have on the machine the program is written for. Integers have the width of
  the source; \<^verbatim>\<open>int\<close> results are integers.

  The operating system is a parameter: \<open>os_env\<close> says which \<^verbatim>\<open>malloc\<close> succeeds, what fresh blocks contain and what \<^verbatim>\<open>write\<close> returns,
  \<open>Tap\<close> has the results of \<^verbatim>\<open>open\<close>, \<^verbatim>\<open>socket\<close> and \<^verbatim>\<open>ioctl\<close>, and a frame read from the tap device is an argument of \<open>ether_rx\<close>.

  \<^bold>\<open>Theories and sources.\<close>

  \<^item> \<open>Net_Prelude\<close>: faults, computations and their weakest preconditions \<open>wp\<close>, loads and stores, the macros of \<^verbatim>\<open>include/lib.h\<close>.
  \<^item> \<open>Checksum\<close> (\<^verbatim>\<open>core/checksum.c\<close>): both routines equal the checksum of RFC 1071, of a block and with the pseudo header; a stored checksum verifies.
  \<^item> \<open>Skbuff\<close>, \<open>Skb_Queue\<close> (\<^verbatim>\<open>core/skbuff.c\<close>): windows of buffers stay inside their blocks; the doubly linked queues implement lists. The
    locale \<open>fifo_queue\<close> is their contract, \<open>skbq\<close> its interpretation on the code.
  \<^item> \<open>Netdevice\<close>, \<open>Ethernet\<close> (\<^verbatim>\<open>core/dev.c\<close>, \<^verbatim>\<open>ipv4/devinet.c\<close>, \<^verbatim>\<open>driver/ethernet.c\<close>): devices and their addresses, building and
    classification of frames.
  \<^item> \<open>Dst\<close>, \<open>Arp_Xmit\<close>, \<open>Neighbour\<close>, \<open>Arp_Resolution\<close> (\<^verbatim>\<open>include/dst.h\<close>, \<^verbatim>\<open>ipv4/arp.c\<close>, \<^verbatim>\<open>core/neighbour.c\<close>): the cache finds what it created
    (locale \<open>lookup_create\<close>, interpretation \<open>arp\<close>), and a neighbour implements the automaton \<open>rstep\<close>, in which no packet that waits for an answer is lost.
  \<^item> \<open>Fib\<close>, \<open>Route\<close> (\<^verbatim>\<open>ipv4/fib_hash.c\<close>, \<^verbatim>\<open>ipv4/fib_frontend.c\<close>, \<^verbatim>\<open>ipv4/route.c\<close>): the lookup is that of the longest matching prefix
    (locale \<open>longest_prefix_table\<close>, interpretation \<open>fib\<close>), and routing is that lookup in the local table and then in the main one.
  \<^item> \<open>Sock\<close>, \<open>Ip_Output\<close>, \<open>Icmp\<close>, \<open>Udp\<close>, \<open>Ip_Input\<close>, \<open>Inet_Socket\<close> (\<^verbatim>\<open>core/sock.c\<close>, \<^verbatim>\<open>core/datagram.c\<close>, \<^verbatim>\<open>core/socket.c\<close> and the files of these names
    under \<^verbatim>\<open>ipv4/\<close>, with \<^verbatim>\<open>protocol.c\<close> and \<^verbatim>\<open>af_inet.c\<close>): construction and validation of datagrams, the protocols and the system calls.
  \<^item> \<open>Stack\<close>: \<^verbatim>\<open>netif_rx\<close>, \<^verbatim>\<open>ether_rx\<close> and the initialisation of all modules. \<open>Tap\<close> (\<^verbatim>\<open>driver/tap.c\<close>): the creation of the tap device.
  \<^item> \<open>Link_Layer\<close>, \<open>Stack_Invariant\<close>, \<open>Frame_Input\<close>, \<open>Socket_Calls\<close>, \<open>Startup\<close>, \<open>End_To_End\<close>: the invariant of the whole state, that every handler and
    system call returns and keeps it, that the start establishes it, and what whole frames and calls do.
  \<^item> \<open>Host\<close>: the abstract host that the stack implements: addresses, descriptors, ports and an inbox for every socket, with the steps \<open>host_step\<close>.
  \<^item> \<open>Headers\<close> (\<^verbatim>\<open>struct ethhdr\<close>, \<^verbatim>\<open>arphdr\<close>, \<^verbatim>\<open>iphdr\<close>, \<^verbatim>\<open>icmphdr\<close>, \<^verbatim>\<open>udphdr\<close> under \<^verbatim>\<open>include/\<close>): the structures that packets are cast to, with their
    layout (locale \<open>wire_struct\<close>, an interpretation for each), and the packets of the stack in terms of them.
  \<^item> \<open>Program\<close> (\<^verbatim>\<open>main/main.c\<close>, \<^verbatim>\<open>test/test.c\<close>): the program as a sequence of events. The locale \<open>guarded_refinement\<close> is the contract between a host and
    its implementation, \<open>yustack\<close> its interpretation on the stack. \<open>call_fault\<close> says what the system calls do that do not return.
  \<^item> \<open>Store_Typing\<close>: conformance of the store: every pointer that the program can follow refers to an object of its type.
  \<^item> \<open>Threads\<close> (\<^verbatim>\<open>main/main.c\<close>, \<^verbatim>\<open>test/test.c\<close>): the process with its three threads under any schedule, and that it implements the specification \<open>advance\<close> of
    the test.
  \<^item> This theory: the properties of the whole program.

  Lemmas named \<open>*_apply\<close> rewrite a function on states of a known shape to its result; lemmas named \<open>*_stack\<close> say that a handler returns, keeps
  \<open>stack_inv\<close>, and what it does to the host. The properties are the theorems preceded by a numbered text; those with premises are followed by
  an application to concrete data.

  \<^bold>\<open>Bounds.\<close> There are 512 descriptors and 512 ports, as in the sources. A frame is cut to 1514 bytes by \<^verbatim>\<open>ether_rx\<close>. A message to send has at most 65507
  bytes, the largest that fits the 16 bit length of a datagram; the sources do not check it, so it is a condition on the caller. Loops over chains end by a
  structural recursion or a measure; those over links of the heap, which end only in well-formed states, are partial functions, and the lemmas show that they return
  there. \<^verbatim>\<open>sys_recvfrom\<close> on an empty queue waits in a loop without an end: this is \<open>Diverges\<close> in a model of one thread; in \<open>Threads\<close> the
  others run between two polls.

  \<^bold>\<open>What callers must respect.\<close> The theorems on all executions assume \<open>permitted\<close> for each call: descriptors in range and not those of raw sockets, buffers as long as
  the call says and as the message that is read. They also exclude frames with ICMP messages that have no handler (\<open>icmp_unhandled\<close>): these do stop the program, as one of the
  properties shows, and any host can send them. \<open>good_env\<close> says that memory does not run out and that pointer members of
  fresh blocks read as null, since the sources test some of them before they assign them. Without it the functions are still modelled, with their failing branches.

  \<^bold>\<open>Not modelled.\<close> Interleaving inside a call, which the sources do not guard by locks: schedules interleave whole calls, rounds of the receive loop and polls of an empty
  queue. The result of \<^verbatim>\<open>pthread_create\<close> is a parameter. What the kernel does on \<^verbatim>\<open>ioctl\<close>; the model has the requests and their order. Messages printed for
  debugging. Members of structures that nothing reads, and named constants that nothing uses (most of \<^verbatim>\<open>include/rtnetlink.h\<close>); the
  other constants are abbreviations. The Go programs of \<^verbatim>\<open>test-outside/\<close> run on the peer.
\<close>

unbundle bit_operations_syntax

section \<open>The stack implements the host\<close>

text \<open>The state after the start, for the witnesses.\<close>

lemma started: "\<exists>s0. main_init (boot_state example_env) = Inr (0, s0) \<and> stack_inv 4 eth0 boot_host s0 \<and> fib_rep s0 boot_local boot_main \<and>
    tap_out s0 = [] \<and> neigh_find s0 = (\<lambda>_. None)"
  using main_init_ready [OF good_example_env] by (auto simp: wp_iff)

text \<open>
  C1: the stack refines the abstract host. Whatever frames arrive and whatever system calls the program makes after the start, in whatever order, as long as each respects
  \<open>permitted\<close> (and memory does not run out), the calls and their results are those of a run of \<open>host_step\<close>, and the state stands for the host
  that the run ends in. So for every socket, the messages that its readers have taken, followed by those in its inbox, are exactly the messages that arrived
  for it, in their order: none is lost, duplicated, reordered or delivered to another socket.
\<close>

theorem stack_refines_host:
  assumes "good_env e" "main_init (boot_state e) = Inr (rc, s0)" "execution (stack_inv 4 eth0) permitted run_event s0 tr s"
  shows "\<exists>arrived taken H. host_run eth0 boot_host tr arrived taken H \<and> stack_inv 4 eth0 H s \<and> (\<forall>sk. arrived sk = taken sk @ inbox H sk)"
proof -
  have "stack_inv 4 eth0 boot_host s0" using main_init_ready [OF assms(1)] assms(2) by (simp add: wp_def)
  from yustack.refines [OF assms(3) this] obtain H where H: "behaviour (host_step eth0) boot_host tr H" "stack_inv 4 eth0 H s" by blast
  from behaviour_host_run [OF H(1)] obtain arrived taken where run: "host_run eth0 boot_host tr arrived taken H" by blast
  have "arrived sk = taken sk @ inbox H sk" for sk using host_run_fifo [OF run, of sk] by (simp add: boot_host_def)
  with run H(2) show ?thesis by blast
qed

lemma example_execution:
  assumes "main_init (boot_state example_env) = Inr (0, s0)" "stack_inv 4 eth0 boot_host s0"
  shows "\<exists>r t. execution (stack_inv 4 eth0) permitted run_event s0 [(Socket PF_INET SOCK_DGRAM IPPROTO_UDP, r)] t"
  using yustack.progress [OF execution.start assms(2), of "Socket PF_INET SOCK_DGRAM IPPROTO_UDP"] by (auto simp: permitted_def)

theorem stack_refines_host_witness:
  "\<exists>r arrived taken H. host_run eth0 boot_host [(Socket PF_INET SOCK_DGRAM IPPROTO_UDP, r)] arrived taken H"
proof -
  obtain s0 where s0: "main_init (boot_state example_env) = Inr (0, s0)" "stack_inv 4 eth0 boot_host s0" using started by blast
  from example_execution [OF this] obtain r t where
    "execution (stack_inv 4 eth0) permitted run_event s0 [(Socket PF_INET SOCK_DGRAM IPPROTO_UDP, r)] t" by blast
  from stack_refines_host [OF good_example_env s0(1) this] show ?thesis by blast
qed









section \<open>Frames and their answers\<close>


lemma first_peer: "stack_inv d nd H s \<Longrightarrow> neigh_find s = (\<lambda>_. None) \<Longrightarrow> peer_rep s ip d nd (tap_out s) empty_resolver"
  by (simp add: peer_rep_def stack_inv_def link_inv_def)

lemma link_route: "fib_route boot_local boot_main 0x0100000a = Some (24, ifa_alias RTN_UNICAST eth0_ifa 4 eth0)"
  by (simp add: fib_route_def boot_local_def boot_main_def in_prefix_def ntohl_def htonl_def)


text \<open>
  C13: an ARP request for the host's address is answered, whether it comes by broadcast or directly. The sender's addresses are learned, the packets that waited for
  them are sent, and the last frame on the wire is the reply: to the sender, with the device's hardware address for the address asked for.
\<close>

theorem arp_request_answered:
  assumes "stack_inv d nd H s" "f = eth_frame dst sa ETH_P_ARP (arp_packet ARPOP_REQUEST sha sip tha FIXED_IP_ADDR @ pad)"
    and "length dst = 6" "length sa = 6" "length sha = 6" "length tha = 6" "length pad \<le> 1472" "eth_class nd dst 0 \<noteq> PACKET_OTHERHOST"
    and "peer_rep s sip d nd before r"
  shows "wp (ether_rx d (Some f)) (\<lambda>_ t. stack_inv d nd H t \<and> (\<exists>out r'.
    tap_out t = out @ [arp_frame nd ARPOP_REPLY ETH_P_ARP sip FIXED_IP_ADDR (Some sha) (Some (dev_addr nd)) (Some sha)] \<and>
    rstep r (Learn sha) r' \<and> resolver_rep (t\<lparr>tap_out := out\<rparr>) (bound_neigh (bytes32 sip) d (s\<lparr>brk := brk s + 3\<rparr>)) d nd before r')) s"
  using assms by (rule frame_arp_request)

theorem arp_request_answered_witness:
  "wp (bindM main_init (\<lambda>_. ether_rx 4 (Some (eth_frame (replicate 6 0xff) (replicate 6 2) ETH_P_ARP
       (arp_packet ARPOP_REQUEST (replicate 6 2) 0x0100000a (replicate 6 0) FIXED_IP_ADDR @ [])))))
    (\<lambda>_ t. \<exists>out. tap_out t = out @ [arp_frame eth0 ARPOP_REPLY ETH_P_ARP 0x0100000a FIXED_IP_ADDR (Some (replicate 6 2))
       (Some (dev_addr eth0)) (Some (replicate 6 2))]) (boot_state example_env)"
proof -
  obtain s0 where s0: "main_init (boot_state example_env) = Inr (0, s0)" "stack_inv 4 eth0 boot_host s0"
    "neigh_find s0 = (\<lambda>_. None)" using started by blast
  have c: "eth_class eth0 (replicate 6 0xff) 0 \<noteq> PACKET_OTHERHOST" by (simp add: eth_class_def is_multicast_ether_addr_def)
  have "wp (ether_rx 4 (Some (eth_frame (replicate 6 0xff) (replicate 6 2) ETH_P_ARP
       (arp_packet ARPOP_REQUEST (replicate 6 2) 0x0100000a (replicate 6 0) FIXED_IP_ADDR @ [])))) (\<lambda>_ t. stack_inv 4 eth0 boot_host t \<and> (\<exists>out r'.
    tap_out t = out @ [arp_frame eth0 ARPOP_REPLY ETH_P_ARP 0x0100000a FIXED_IP_ADDR (Some (replicate 6 2)) (Some (dev_addr eth0)) (Some (replicate 6 2))] \<and>
    rstep empty_resolver (Learn (replicate 6 2)) r' \<and>
    resolver_rep (t\<lparr>tap_out := out\<rparr>) (bound_neigh (bytes32 0x0100000a) 4 (s0\<lparr>brk := brk s0 + 3\<rparr>)) 4 eth0 (tap_out s0) r')) s0"
    by (rule arp_request_answered [OF s0(2) refl _ _ _ _ _ c first_peer [OF s0(2,3)]]) simp_all
  with s0(1) show ?thesis by (auto simp: wp_iff comp_simps)
qed

section \<open>Datagrams and sockets\<close>

text \<open>
  C4: from the wire to the user. A UDP datagram for a port of this host that arrives while the socket bound to the port has nothing to read is what the next
  \<^verbatim>\<open>sys_recvfrom\<close> on that socket returns: the buffer starts with its payload (and the padding of the frame, if any, behind it). After that
  the state stands for the same host as before.
\<close>

theorem datagram_received:
  assumes inv: "stack_inv d nd H s" and nd: "unicast_dev nd" "length sa = 6"
    and fd: "descriptor_of H fd = Udp_descriptor sk" "ports H p = Some sk" "inbox H sk = []"
    and len: "length (payload @ pad) \<le> 1472" "length (payload @ pad) \<le> length ubuf"
  shows "wp (bindM (ether_rx d (Some (host_datagram nd sa IPPROTO_UDP src (udp_segment src FIXED_IP_ADDR sport (htons (of_nat p :: u16)) payload) pad)))
      (\<lambda>_. sys_recvfrom fd ubuf sz))
    (\<lambda>(rc, buf) t. rc = 0 \<and> buf = put_bytes ubuf 0 (payload @ pad) \<and> stack_inv d nd H t) s"
proof (rule wp_bindM_I [OF frame_to_socket [OF inv nd fd(2) len(1)]])
  let ?H = "H\<lparr>inbox := (inbox H)(sk := inbox H sk @ [(src, sport, payload @ pad)])\<rparr>"
  fix t assume t: "stack_inv d nd ?H t"
  have "descriptor_of ?H fd = Udp_descriptor sk" "inbox ?H sk = [(src, sport, payload @ pad)]" "?H\<lparr>inbox := (inbox ?H)(sk := [])\<rparr> = H"
    using fd by (simp_all add: fun_upd_idem)
  with sys_recvfrom_stack [OF t this(1,2) len(2), of sz]
  show "wp (sys_recvfrom fd ubuf sz) (\<lambda>(rc, buf) t. rc = 0 \<and> buf = put_bytes ubuf 0 (payload @ pad) \<and> stack_inv d nd H t) t" by simp
qed

theorem datagram_received_witness:
  "wp (bindM test_start (\<lambda>fd. bindM (ether_rx 4 (Some (test_datagram (replicate 6 2) 0x0100000a 7 [1, 2, 3])))
     (\<lambda>_. sys_recvfrom fd [0, 0, 0, 0] 4))) (\<lambda>(rc, buf) t. rc = 0 \<and> buf = [1, 2, 3, 0]) (boot_state example_env)"
proof -
  obtain s sk where s: "test_start (boot_state example_env) = Inr (0, s)" "stack_inv 4 eth0 (test_host sk) s"
    using test_start_ready [OF good_example_env] by (auto simp: wp_iff)
  from datagram_received [OF s(2) eth0_unicast, of "replicate 6 2" 0 sk 222 "[1, 2, 3]" "[]" "[0, 0, 0, 0]" "0x0100000a" 7 4] s(1)
  show ?thesis by (auto simp: wp_iff comp_simps test_datagram_def put_bytes_def)
qed





section \<open>The test thread\<close>


lemma example_datagram:
  "datagrams (test_datagram (replicate 6 2) 0x0100000a 7 [72, 105]) = [(0x0100000a, 7, [72, 105])]" "safe_turn (Main_turn (Some (test_datagram (replicate 6 2) 0x0100000a 7 [72, 105])))"
  by (rule test_datagram_messages; simp)+




text \<open>
  C38: a longer datagram overruns the buffer of the test thread: the size that the thread passes to \<^verbatim>\<open>sys_recv\<close> is not respected, and every payload from 1025 bytes up to the largest
  that fits a frame is written past the end of the array.
\<close>

theorem test_udp_overruns:
  assumes "good_env e" "length sa = 6" "1024 < length payload" "length payload \<le> 1472" "length recvbuff = 1024"
  shows "bindM test_start (\<lambda>fd. bindM (ether_rx 4 (Some (test_datagram sa src sport payload))) (\<lambda>_. test_udp_recv fd recvbuff)) (boot_state e) =
    Inl Out_of_bounds"
proof -
  have l: "length recvbuff < length payload" using assms(3,5) by simp
  obtain s t sk where run: "test_start (boot_state e) = Inr (0, s)" "ether_rx 4 (Some (test_datagram sa src sport payload)) s = Inr ((), t)"
      and t: "stack_inv 4 eth0 ((test_host sk)\<lparr>inbox := (inbox (test_host sk))(sk := [(src, sport, payload)])\<rparr>) t" (is "stack_inv _ _ ?H _")
    using test_delivered [OF assms(1,2,4), of src sport] by (auto simp: wp_iff comp_simps split: sum.splits)
  have "descriptor_of ?H 0 = Udp_descriptor sk" by (simp add: test_host_def descriptor_of_def)
  from test_udp_recv_first(2) [OF t this _ l] run show ?thesis by (simp add: comp_simps)
qed

theorem test_udp_overruns_witness:
  "bindM test_start (\<lambda>fd. bindM (ether_rx 4 (Some (test_datagram (replicate 6 2) 0x0100000a 7 (replicate 1025 65))))
     (\<lambda>_. test_udp_recv fd (replicate 1024 0))) (boot_state example_env) = Inl Out_of_bounds"
  by (rule test_udp_overruns [OF good_example_env]) simp_all

end
